(* ===== verification/Go_Prelude.thy ===== *)
theory Go_Prelude
  imports Main
begin

text \<open>
  Shared vocabulary of the development: the outcomes of Go code that does not return a
  value (a run-time panic, a fatal log call, a goroutine that blocks for ever), Go's
  checked indexing and slicing, buffered channels, Go maps with their zero values, and a
  generic notion of reachable state with the locale that turns an inductive invariant into
  a fact about every reachable state.

  Go's \<open>int\<close> is modelled by \<^typ>\<open>int\<close> where it holds terms, indices and
  counters that the code only increments (a wrap-around needs about \<open>2^63\<close> steps), and
  lengths and positions of the model's own lists by \<^typ>\<open>nat\<close>.
\<close>

section \<open>Collections of facts\<close>

named_theorems go_simps \<open>evaluation of the Go result type\<close>
named_theorems go_defs \<open>definitions of the checked Go primitives\<close>

section \<open>Outcomes of Go code\<close>

datatype go_panic =
    IndexOutOfRange
  | SliceBounds
  | NilDereference
  | DivideByZero
  | MakeSliceLen
  | NegativeWaitGroup
  | CloseOfClosed
  | TypeAssertion
  | LogFatal string
  | Blocked

type_synonym 'a go = "go_panic + 'a"

definition gbind :: "'a go \<Rightarrow> ('a \<Rightarrow> 'b go) \<Rightarrow> 'b go" where
  "gbind m f = (case m of Inl e \<Rightarrow> Inl e | Inr x \<Rightarrow> f x)"

lemma gbind_Inl [simp, go_simps]: "gbind (Inl e) f = Inl e"
  by (simp add: gbind_def)

lemma gbind_Inr [simp, go_simps]: "gbind (Inr x) f = f x"
  by (simp add: gbind_def)

lemma gbind_eq_Inr [go_simps]: "gbind m f = Inr y \<longleftrightarrow> (\<exists>x. m = Inr x \<and> f x = Inr y)"
  by (cases m) auto

lemma gbind_eq_Inl [go_simps]:
  "gbind m f = Inl e \<longleftrightarrow> m = Inl e \<or> (\<exists>x. m = Inr x \<and> f x = Inl e)"
  by (cases m) auto

lemma gbind_assoc: "gbind (gbind m f) g = gbind m (\<lambda>x. gbind (f x) g)"
  by (cases m) auto

lemma gbind_split:
  "P (gbind m f) \<longleftrightarrow> (\<forall>e. m = Inl e \<longrightarrow> P (Inl e)) \<and> (\<forall>x. m = Inr x \<longrightarrow> P (f x))"
  by (cases m) auto

text \<open>A loop \<open>for _, x := range xs\<close> whose body may panic.\<close>

primrec gfold :: "('a \<Rightarrow> 's \<Rightarrow> 's go) \<Rightarrow> 'a list \<Rightarrow> 's \<Rightarrow> 's go" where
  "gfold f [] s = Inr s"
| "gfold f (x # xs) s = gbind (f x s) (gfold f xs)"

lemma gfold_append: "gfold f (xs @ ys) s = gbind (gfold f xs s) (gfold f ys)"
proof (induction xs arbitrary: s)
  case (Cons x xs)
  then show ?case by (cases "f x s") simp_all
qed simp

lemma gfold_Inr:
  assumes "\<And>x s. x \<in> set xs \<Longrightarrow> f x s = Inr (g x s)"
  shows "gfold f xs s = Inr (fold g xs s)"
  using assms by (induction xs arbitrary: s) auto

lemma gfold_map: "gfold f (map g xs) s = gfold (\<lambda>x. f (g x)) xs s"
proof (induction xs arbitrary: s)
  case (Cons x xs)
  then show ?case by (cases "f (g x) s") simp_all
qed simp

lemma gfold_cong:
  assumes "\<And>x s. x \<in> set xs \<Longrightarrow> f x s = g x s"
  shows "gfold f xs s = gfold g xs s"
  using assms
proof (induction xs arbitrary: s)
  case (Cons x xs)
  then show ?case by (cases "g x s") simp_all
qed simp

text \<open>A counting loop that keeps an indexed invariant returns.\<close>

lemma gfold_upt_inv:
  assumes "P 0 s" and "\<And>i s. i < n \<Longrightarrow> P i s \<Longrightarrow> \<exists>s'. f i s = Inr s' \<and> P (Suc i) s'"
  shows "\<exists>s'. gfold f [0..<n] s = Inr s' \<and> P n s'"
  using assms
proof (induction n)
  case (Suc n)
  from Suc.IH [OF Suc.prems(1)] Suc.prems(2) obtain s' where "gfold f [0..<n] s = Inr s'" "P n s'" by auto
  with Suc.prems(2) [of n s'] show ?case by (auto simp: gfold_append)
qed simp

text \<open>A property of the events consumed so far and the state they lead to.\<close>

lemma gfold_trace_inv:
  assumes "gfold f es s = Inr t" and "P [] s"
    and "\<And>es e u v. P es u \<Longrightarrow> f e u = Inr v \<Longrightarrow> P (es @ [e]) v"
  shows "P es t"
  using assms(1)
proof (induction es arbitrary: t rule: rev_induct)
  case Nil
  with assms(2) show ?case by simp
next
  case (snoc e es)
  then obtain u where "gfold f es s = Inr u" "f e u = Inr t" by (auto simp: gfold_append gbind_eq_Inr)
  with snoc.IH assms(3) show ?case by blast
qed

lemma nth_first:
  "distinct xs \<Longrightarrow> k < length xs \<Longrightarrow> xs ! k \<in> set xs" "distinct xs \<Longrightarrow> k < length xs \<Longrightarrow> xs ! k \<notin> set (take k xs)"
  by (auto simp: in_set_conv_nth nth_eq_iff_index_eq)

text \<open>Consecutive parts of a list of different names share no name.\<close>

lemma distinct_concat_part:
  assumes "distinct (concat (map f [0..<n]))" and "k < n"
  shows "distinct (f k)" "set (f k) \<inter> set (concat (map f [0..<k])) = {}" "set (f k) \<subseteq> set (concat (map f [0..<n]))"
proof -
  have "[0..<n] = [0..<k] @ k # [Suc k..<n]" using assms(2) by (metis upt_add_eq_append le_add_diff_inverse
    less_imp_le_nat upt_conv_Cons zero_le)
  with assms(1) show "distinct (f k)" "set (f k) \<inter> set (concat (map f [0..<k])) = {}"
    "set (f k) \<subseteq> set (concat (map f [0..<n]))" by auto
qed

lemma distinct_concat_nth:
  assumes d: "distinct (concat (map f [0..<n]))" and "i < n" "i' < n" "j < length (f i)" "j' < length (f i')"
    and eq: "f i ! j = f i' ! j'"
  shows "i = i' \<and> j = j'"
proof -
  have False if "a < b" "b < n" "x \<in> set (f a)" "x \<in> set (f b)" for a b x
  proof -
    have "x \<in> set (concat (map f [0..<b]))" using that by auto
    with distinct_concat_part(2) [OF d that(2)] that(4) show False by blast
  qed
  then have "i = i'" using assms(2-5) eq nth_mem [of j "f i"] nth_mem [of j' "f i'"] by (metis nat_neq_iff)
  with distinct_concat_part(1) [OF d assms(2)] assms(4,5) eq show ?thesis by (simp add: nth_eq_iff_index_eq)
qed

section \<open>Checked indexing and slicing\<close>

text \<open>\<open>xs[i]\<close>, \<open>xs[i] = v\<close>, \<open>xs[:i]\<close> and \<open>xs[i:]\<close> of a slice whose
  length is its capacity for the purposes of the code: out of range panics.\<close>

definition go_idx :: "'a list \<Rightarrow> int \<Rightarrow> 'a go" where
  "go_idx xs i = (if 0 \<le> i \<and> i < int (length xs) then Inr (xs ! nat i) else Inl IndexOutOfRange)"

definition go_upd :: "'a list \<Rightarrow> int \<Rightarrow> 'a \<Rightarrow> 'a list go" where
  "go_upd xs i v = (if 0 \<le> i \<and> i < int (length xs) then Inr (xs[nat i := v]) else Inl IndexOutOfRange)"

definition go_slice_to :: "'a list \<Rightarrow> int \<Rightarrow> 'a list go" where
  "go_slice_to xs i = (if 0 \<le> i \<and> i \<le> int (length xs) then Inr (take (nat i) xs) else Inl SliceBounds)"

definition go_slice_from :: "'a list \<Rightarrow> int \<Rightarrow> 'a list go" where
  "go_slice_from xs i = (if 0 \<le> i \<and> i \<le> int (length xs) then Inr (drop (nat i) xs) else Inl SliceBounds)"

lemmas go_access_defs [go_defs] = go_idx_def go_upd_def go_slice_to_def go_slice_from_def

lemma go_idx_Inr [go_simps]:
  "go_idx xs i = Inr x \<longleftrightarrow> 0 \<le> i \<and> i < int (length xs) \<and> x = xs ! nat i"
  by (auto simp: go_idx_def)

lemma go_idx_Inl [go_simps]:
  "go_idx xs i = Inl e \<longleftrightarrow> e = IndexOutOfRange \<and> \<not> (0 \<le> i \<and> i < int (length xs))"
  by (auto simp: go_idx_def)

lemma go_idx_last: "xs \<noteq> [] \<Longrightarrow> go_idx xs (int (length xs) - 1) = Inr (last xs)"
  by (cases xs) (auto simp: go_idx_def last_conv_nth)

lemma go_upd_Inr [go_simps]:
  "go_upd xs i v = Inr ys \<longleftrightarrow> 0 \<le> i \<and> i < int (length xs) \<and> ys = xs[nat i := v]"
  by (auto simp: go_upd_def)

lemma go_upd_Inl [go_simps]:
  "go_upd xs i v = Inl e \<longleftrightarrow> e = IndexOutOfRange \<and> \<not> (0 \<le> i \<and> i < int (length xs))"
  by (auto simp: go_upd_def)

lemma go_slice_to_Inr [go_simps]:
  "go_slice_to xs i = Inr ys \<longleftrightarrow> 0 \<le> i \<and> i \<le> int (length xs) \<and> ys = take (nat i) xs"
  by (auto simp: go_slice_to_def)

lemma go_slice_from_Inr [go_simps]:
  "go_slice_from xs i = Inr ys \<longleftrightarrow> 0 \<le> i \<and> i \<le> int (length xs) \<and> ys = drop (nat i) xs"
  by (auto simp: go_slice_from_def)

section \<open>Buffered channels\<close>

text \<open>A channel of capacity \<open>cap\<close> is the list of its buffered values, oldest first. A
  send on a full channel blocks.\<close>

definition chan_send :: "nat \<Rightarrow> 'a list \<Rightarrow> 'a \<Rightarrow> 'a list go" where
  "chan_send cap ch v = (if length ch < cap then Inr (ch @ [v]) else Inl Blocked)"

section \<open>Go maps\<close>

text \<open>\<open>m[k]\<close> on a missing key yields the zero value of the element type.\<close>

definition map_zero :: "'v \<Rightarrow> ('k \<rightharpoonup> 'v) \<Rightarrow> 'k \<Rightarrow> 'v" where
  "map_zero z m k = (case m k of None \<Rightarrow> z | Some v \<Rightarrow> v)"

lemma map_zero_simps [simp]:
  "m k = None \<Longrightarrow> map_zero z m k = z"
  "m k = Some v \<Longrightarrow> map_zero z m k = v"
  "map_zero z (m(k \<mapsto> v)) k' = (if k' = k then v else map_zero z m k')"
  by (auto simp: map_zero_def)

section \<open>Reachable states and inductive invariants\<close>

inductive reach :: "('s \<Rightarrow> bool) \<Rightarrow> ('s \<Rightarrow> 's \<Rightarrow> bool) \<Rightarrow> 's \<Rightarrow> bool"
  for init :: "'s \<Rightarrow> bool" and step :: "'s \<Rightarrow> 's \<Rightarrow> bool" where
  reach_init: "init s \<Longrightarrow> reach init step s"
| reach_step: "reach init step s \<Longrightarrow> step s t \<Longrightarrow> reach init step t"

lemma reach_mono:
  assumes "reach init step s" and "\<And>s t. step s t \<Longrightarrow> step' s t"
  shows "reach init step' s"
  using assms(1) by induction (auto intro: reach.intros assms(2))

locale inductive_invariant =
  fixes init :: "'s \<Rightarrow> bool" and step :: "'s \<Rightarrow> 's \<Rightarrow> bool" and inv :: "'s \<Rightarrow> bool"
  assumes inv_init: "init s \<Longrightarrow> inv s"
    and inv_step: "inv s \<Longrightarrow> step s t \<Longrightarrow> inv t"
begin

lemma reach_inv: "reach init step s \<Longrightarrow> inv s"
  by (induction rule: reach.induct) (auto intro: inv_init inv_step)

lemma steps_inv:
  assumes "step\<^sup>*\<^sup>* s t" and "inv s"
  shows "inv t"
  using assms by (induction rule: rtranclp_induct) (auto intro: inv_step)

end

lemma reach_steps: "reach init step s \<Longrightarrow> step\<^sup>*\<^sup>* s t \<Longrightarrow> reach init step t"
  by (rotate_tac, induction rule: rtranclp_induct) (auto intro: reach_step)

text \<open>Forward simulation: a machine whose every step is matched by some steps of another, on states
  of the other that are reachable.\<close>

locale simulation =
  fixes cinit :: "'c \<Rightarrow> bool" and cstep :: "'c \<Rightarrow> 'c \<Rightarrow> bool"
    and ainit :: "'a \<Rightarrow> bool" and astep :: "'a \<Rightarrow> 'a \<Rightarrow> bool" and sim :: "'c \<Rightarrow> 'a \<Rightarrow> bool"
  assumes sim_init: "cinit c \<Longrightarrow> \<exists>a. ainit a \<and> sim c a"
    and sim_step: "sim c a \<Longrightarrow> reach ainit astep a \<Longrightarrow> cstep c c' \<Longrightarrow> \<exists>a'. astep\<^sup>*\<^sup>* a a' \<and> sim c' a'"
begin

lemma refines: "reach cinit cstep c \<Longrightarrow> \<exists>a. reach ainit astep a \<and> sim c a"
proof (induction rule: reach.induct)
  case (reach_init c)
  then show ?case using sim_init by (auto intro: reach.reach_init)
next
  case (reach_step c c')
  then obtain a where a: "reach ainit astep a" "sim c a" by blast
  from sim_step [OF a(2,1) reach_step.hyps(2)] obtain a' where "astep\<^sup>*\<^sup>* a a'" "sim c' a'" by blast
  with a(1) show ?case by (blast intro: reach_steps)
qed

end

text \<open>Bounded runs: a machine given by the effect of its events, where every event that changes the
  state uses up potential unless it is paid for. The number of such events in a run is then
  bounded by the initial potential and what the events of the run pay.\<close>

fun effective :: "('e \<Rightarrow> 's \<Rightarrow> 's go) \<Rightarrow> 'e list \<Rightarrow> 's \<Rightarrow> nat" where
  "effective exec [] s = 0"
| "effective exec (e # es) s =
     (case exec e s of Inl _ \<Rightarrow> 0 | Inr t \<Rightarrow> (if t = s then 0 else 1) + effective exec es t)"

locale bounded_runs =
  fixes exec :: "'e \<Rightarrow> 's \<Rightarrow> 's go" and inv :: "'s \<Rightarrow> bool" and pot :: "'s \<Rightarrow> nat" and pay :: "'e \<Rightarrow> nat"
  assumes exec_inv: "inv s \<Longrightarrow> exec e s = Inr t \<Longrightarrow> inv t"
    and exec_pot: "inv s \<Longrightarrow> exec e s = Inr t \<Longrightarrow> t \<noteq> s \<Longrightarrow> pot t < pot s + pay e"
begin

lemma run_inv: "gfold exec es s = Inr t \<Longrightarrow> inv s \<Longrightarrow> inv t"
  by (induction es arbitrary: s) (auto simp: gbind_eq_Inr intro: exec_inv)

lemma effective_bound:
  assumes "gfold exec es s = Inr t" and "inv s"
  shows "effective exec es s + pot t \<le> pot s + sum_list (map pay es)"
  using assms
proof (induction es arbitrary: s)
  case (Cons e es)
  then obtain u where u: "exec e s = Inr u" "gfold exec es u = Inr t" by (auto simp: gbind_eq_Inr)
  have "effective exec es u + pot t \<le> pot u + sum_list (map pay es)"
    using Cons.IH [OF u(2) exec_inv [OF Cons.prems(2) u(1)]] .
  with exec_pot [OF Cons.prems(2) u(1)] u(1) show ?case by (cases "u = s") auto
qed simp

end

section \<open>Majorities\<close>

text \<open>The quorum interface: what a client of a voting scheme relies on is that two quorums
  share a member.\<close>

locale quorum_system =
  fixes quorum :: "'a set \<Rightarrow> bool"
  assumes quorum_meet: "quorum P \<Longrightarrow> quorum Q \<Longrightarrow> P \<inter> Q \<noteq> {}"
begin

text \<open>If every member votes for at most one candidate, two candidates with a quorum of
  votes are the same.\<close>

lemma unique_winner:
  assumes "quorum P" and "quorum Q"
    and "\<And>v. v \<in> P \<Longrightarrow> votes v c" and "\<And>v. v \<in> Q \<Longrightarrow> votes v d"
    and "\<And>v x y. v \<in> P \<inter> Q \<Longrightarrow> votes v x \<Longrightarrow> votes v y \<Longrightarrow> x = y"
  shows "c = d"
proof -
  from quorum_meet [OF assms(1,2)] obtain v where "v \<in> P \<inter> Q" by blast
  with assms(3-5) show ?thesis by blast
qed

end

definition majority :: "nat \<Rightarrow> nat set \<Rightarrow> bool" where
  "majority n Q \<longleftrightarrow> Q \<subseteq> {..<n} \<and> n < 2 * card Q"

lemma majority_meet:
  assumes "majority n P" and "majority n Q"
  shows "P \<inter> Q \<noteq> {}"
proof
  assume disj: "P \<inter> Q = {}"
  have fin: "finite P" "finite Q"
    using assms by (auto simp: majority_def intro: finite_subset)
  have "card P + card Q = card (P \<union> Q)"
    using fin disj by (simp add: card_Un_disjoint)
  also have "\<dots> \<le> card {..<n}"
    using assms by (intro card_mono) (auto simp: majority_def)
  finally show False using assms by (simp add: majority_def)
qed

interpretation maj: quorum_system "majority n" for n
  by unfold_locales (rule majority_meet)

lemma majority_mono: "majority n P \<Longrightarrow> P \<subseteq> Q \<Longrightarrow> Q \<subseteq> {..<n} \<Longrightarrow> majority n Q"
proof -
  assume a: "majority n P" "P \<subseteq> Q" "Q \<subseteq> {..<n}"
  then have "card P \<le> card Q" by (intro card_mono) (auto intro: finite_subset)
  with a show ?thesis by (simp add: majority_def)
qed

section \<open>Lists\<close>

lemma nth_list_update_cases:
  "i < length xs \<Longrightarrow> xs[j := v] ! i = (if i = j then v else xs ! i)"
  by auto

lemma bex_set_nth: "(\<exists>x \<in> set xs. P x) \<longleftrightarrow> (\<exists>i<length xs. P (xs ! i))"
  by (metis in_set_conv_nth)

lemma list_all_upd: "list_all P xs \<Longrightarrow> P x \<Longrightarrow> list_all P (xs[k := x])"
  by (auto simp: list_all_iff dest: set_update_subset_insert [THEN subsetD])

lemma list_all_nthD: "list_all P xs \<Longrightarrow> k < length xs \<Longrightarrow> P (xs ! k)"
  by (simp add: list_all_length)

lemma take_eq_take_mono: "take m xs = take m ys \<Longrightarrow> k \<le> m \<Longrightarrow> take k xs = take k ys"
  by (metis min.absorb1 take_take)

end
