(* ===== verification/Persister.thy ===== *)
theory Persister
  imports Go_Prelude
begin

text \<open>
  The stable storage of \<^verbatim>\<open>src/raft/persister.go\<close>: a pair of byte slices, one for Raft's
  state and one for the service's snapshot. Both are lists over an element type \<open>'b\<close>; the
  nil slice of a fresh persister is the empty list. The mutex of the Go object makes each
  method one atomic step, so a method is a function of the persister.
\<close>

record 'b Persister =
  raftstate :: "'b list"
  snapshot :: "'b list"

definition MakePersister :: "'b Persister" where
  "MakePersister = \<lparr>raftstate = [], snapshot = []\<rparr>"

definition Copy :: "'b Persister \<Rightarrow> 'b Persister" where
  "Copy ps = (let np = MakePersister;
                  np = np\<lparr>raftstate := raftstate ps\<rparr>;
                  np = np\<lparr>snapshot := snapshot ps\<rparr>
              in np)"

definition SaveRaftState :: "'b list \<Rightarrow> 'b Persister \<Rightarrow> 'b Persister" where
  "SaveRaftState data ps = ps\<lparr>raftstate := data\<rparr>"

definition ReadRaftState :: "'b Persister \<Rightarrow> 'b list" where
  "ReadRaftState ps = raftstate ps"

definition RaftStateSize :: "'b Persister \<Rightarrow> int" where
  "RaftStateSize ps = int (length (raftstate ps))"

definition SaveSnapshot :: "'b list \<Rightarrow> 'b Persister \<Rightarrow> 'b Persister" where
  "SaveSnapshot snap ps = ps\<lparr>snapshot := snap\<rparr>"

definition ReadSnapshot :: "'b Persister \<Rightarrow> 'b list" where
  "ReadSnapshot ps = snapshot ps"

lemmas persister_defs = MakePersister_def Copy_def SaveRaftState_def ReadRaftState_def
  RaftStateSize_def SaveSnapshot_def ReadSnapshot_def

section \<open>The contract of a store\<close>

text \<open>What a client that crashes relies on: the last value written is the value read, a
  write to the other cell of the same store does not disturb it, and a copy of the store
  (which the tester hands to the restarted instance) reads the same.\<close>

locale stable_store =
  fixes save :: "'d \<Rightarrow> 's \<Rightarrow> 's" and read :: "'s \<Rightarrow> 'd"
    and save_other :: "'d \<Rightarrow> 's \<Rightarrow> 's" and clone :: "'s \<Rightarrow> 's"
  assumes read_save: "read (save d s) = d"
    and read_other: "read (save_other d s) = read s"
    and read_clone: "read (clone s) = read s"
begin

text \<open>A restart reads the last write, whatever was written to the other cell after it and
  however often the store was copied in between.\<close>

lemma read_after_others: "read (fold save_other ds s) = read s"
  by (induction ds arbitrary: s) (auto simp: read_other)

lemma read_after_clones: "read ((clone ^^ k) s) = read s"
  by (induction k) (auto simp: read_clone)

lemma last_write_survives: "read ((clone ^^ k) (fold save_other ds (save d s))) = d"
  by (simp add: read_after_clones read_after_others read_save)

end

interpretation raft_store: stable_store SaveRaftState ReadRaftState SaveSnapshot Copy
  by unfold_locales (simp_all add: persister_defs)

interpretation snap_store: stable_store SaveSnapshot ReadSnapshot SaveRaftState Copy
  by unfold_locales (simp_all add: persister_defs)

lemma persister_reads [simp]:
  "ReadRaftState (SaveRaftState d ps) = d"
  "ReadSnapshot (SaveRaftState d ps) = ReadSnapshot ps"
  "ReadRaftState (SaveSnapshot d ps) = ReadRaftState ps"
  "ReadSnapshot (SaveSnapshot d ps) = d"
  "ReadRaftState (Copy ps) = ReadRaftState ps"
  "ReadSnapshot (Copy ps) = ReadSnapshot ps"
  "ReadRaftState MakePersister = []"
  "ReadSnapshot MakePersister = []"
  by (simp_all add: persister_defs)

end
