(* ===== verification/Raft.thy ===== *)
theory Raft
  imports Persister
begin

text \<open>
  One Raft peer (\<^verbatim>\<open>src/raft/raft.go\<close>): its record, its messages and its methods. Every
  method that runs under \<open>raft.mu\<close> is one function of the peer's state; the goroutines
  that call them, the network and the interleaving are in \<open>Raft_System\<close>. A read or write
  outside a slice, and a send that can never proceed, are values of \<^typ>\<open>go_panic\<close>.

  Commands are values of a type \<open>'c\<close> (Go's \<open>interface{}\<close>; \<^const>\<open>None\<close> is
  nil). A byte slice filled by \<open>gob\<close> is modelled as the sequence of values encoded into
  it, which is what the code relies on: values are decoded in the order they were encoded,
  and a decode that fails leaves its target as it was.
\<close>

section \<open>Data\<close>

datatype RaftState = Follower | Candidate | Leader

record 'c Log =
  Log_Term :: int
  Log_Command :: "'c option"

record 'c ApplyMsg =
  AM_Index :: int
  AM_Command :: "'c option"
  AM_UseSnapshot :: bool
  AM_Snapshot :: "nat list"

record AppendEntriesReply =
  AER_Term :: int
  AER_Success :: bool

record InstallSnapshotArgs =
  ISA_Term :: int
  ISA_LeaderId :: int
  ISA_LastIncludedIndex :: int
  ISA_LastIncludedTerm :: int
  ISA_Offset :: int
  ISA_Data :: "nat list"
  ISA_done :: bool

record InstallSnapshotReply =
  ISR_Term :: int

record RequestVoteArgs =
  RVA_Term :: int
  RVA_CandidateId :: int
  RVA_LastLogIndex :: int
  RVA_LastLogTerm :: int

record 'c AppendEntriesArgs =
  AEA_Term :: int
  AEA_LeaderId :: int
  AEA_PrevLogIndex :: int
  AEA_PrevLogTerm :: int
  AEA_Entries :: "'c Log list"
  AEA_LeaderCommit :: int

record RequestVoteReply =
  RVR_Term :: int
  RVR_VoteGranted :: bool

datatype 'c gob = GInt int | GLog "'c Log list"

record 'c Raft =
  peers :: "nat list"
  persister :: "'c gob Persister"
  me :: int
  State :: RaftState
  CurrentTerm :: int
  VoteFor :: int
  Log :: "'c Log list"
  CommitIndex :: int
  LastApplied :: int
  NextIndex :: "int list"
  MatchIndex :: "int list"
  appendLogCh :: "bool list"
  voteCh :: "bool list"
  applyCh :: "'c ApplyMsg list"

section \<open>Methods\<close>

definition GetState :: "'c Raft \<Rightarrow> int \<times> bool" where
  "GetState raft = (CurrentTerm raft, State raft = Leader)"

definition persist :: "'c Raft \<Rightarrow> 'c Raft" where
  "persist rf =
     (let data = [GInt (CurrentTerm rf), GInt (VoteFor rf), GLog (Log rf)]
      in rf\<lparr>persister := SaveRaftState data (persister rf)\<rparr>)"

text \<open>\<open>d.Decode(&x)\<close> on the rest of the buffer: the new value of the target and what is
  left to decode. The error result is ignored by the code.\<close>

fun decode_int :: "'c gob list \<Rightarrow> int \<Rightarrow> int \<times> 'c gob list" where
  "decode_int (GInt i # r) x = (i, r)"
| "decode_int (GLog l # r) x = (x, r)"
| "decode_int [] x = (x, [])"

fun decode_log :: "'c gob list \<Rightarrow> 'c Log list \<Rightarrow> 'c Log list \<times> 'c gob list" where
  "decode_log (GLog l # r) x = (l, r)"
| "decode_log (GInt i # r) x = (x, r)"
| "decode_log [] x = (x, [])"

definition readPersist :: "'c gob list \<Rightarrow> 'c Raft \<Rightarrow> 'c Raft" where
  "readPersist data rf =
     (let (t, d) = decode_int data (CurrentTerm rf);
          (v, d) = decode_int d (VoteFor rf);
          (l, d) = decode_log d (Log rf)
      in rf\<lparr>CurrentTerm := t, VoteFor := v, Log := l\<rparr>)"

definition BeFollower :: "int \<Rightarrow> 'c Raft \<Rightarrow> 'c Raft" where
  "BeFollower term raft = raft\<lparr>CurrentTerm := term, State := Follower, VoteFor := -1\<rparr>"

definition BeCandidate :: "'c Raft \<Rightarrow> 'c Raft" where
  "BeCandidate raft =
     raft\<lparr>CurrentTerm := CurrentTerm raft + 1, State := Candidate, VoteFor := me raft\<rparr>"

definition BeLeader :: "'c Raft \<Rightarrow> 'c Raft" where
  "BeLeader raft =
     raft\<lparr>State := Leader,
          NextIndex := replicate (length (peers raft)) (int (length (Log raft))),
          MatchIndex := replicate (length (peers raft)) 0\<rparr>"

definition GetLastLogIndex :: "'c Raft \<Rightarrow> int" where
  "GetLastLogIndex raft = int (length (Log raft)) - 1"

definition go_min :: "int \<Rightarrow> int \<Rightarrow> int" where
  "go_min x y = (if x < y then x else y)"

text \<open>\<open>send\<close>: drop a value that is already buffered, then send; the channels have
  capacity one.\<close>

definition send :: "bool list \<Rightarrow> bool list go" where
  "send ch = (let ch = (case ch of [] \<Rightarrow> [] | _ # ch' \<Rightarrow> ch') in chan_send 1 ch True)"

text \<open>\<open>updateLastApplied\<close>: a receive on \<open>applyCh\<close> is the message added to the list of
  messages the service has received.\<close>

function updateLastApplied :: "'c Raft \<Rightarrow> 'c Raft go" where
  "updateLastApplied raft =
     (if LastApplied raft < CommitIndex raft then
        let raft = raft\<lparr>LastApplied := LastApplied raft + 1\<rparr> in
        case go_idx (Log raft) (LastApplied raft) of
          Inl e \<Rightarrow> Inl e
        | Inr curLog \<Rightarrow>
            updateLastApplied
              (raft\<lparr>applyCh := applyCh raft @
                 [\<lparr>AM_Index = LastApplied raft, AM_Command = Log_Command curLog,
                   AM_UseSnapshot = False, AM_Snapshot = []\<rparr>]\<rparr>)
      else Inr raft)"
  by pat_completeness auto
termination
  by (relation "measure (\<lambda>raft. nat (CommitIndex raft - LastApplied raft))") auto

declare updateLastApplied.simps [simp del]

definition InstallSnapshot ::
  "InstallSnapshotArgs \<Rightarrow> 'c Raft \<Rightarrow> 'c Raft \<times> InstallSnapshotReply" where
  "InstallSnapshot args rf =
     (let reply = \<lparr>ISR_Term = CurrentTerm rf\<rparr> in
      if ISA_Term args < CurrentTerm rf then (rf, reply)
      else if CurrentTerm rf < ISA_Term args then (BeFollower (ISA_Term args) rf, reply)
      else (rf, reply))"

definition RequestVote ::
  "RequestVoteArgs \<Rightarrow> 'c Raft \<Rightarrow> ('c Raft \<times> RequestVoteReply) go" where
  "RequestVote args raft =
     (let raft = (if CurrentTerm raft < RVA_Term args then BeFollower (RVA_Term args) raft
                  else raft);
          reply = \<lparr>RVR_Term = CurrentTerm raft, RVR_VoteGranted = False\<rparr> in
      if RVA_Term args < CurrentTerm raft then Inr (raft, reply)
      else if VoteFor raft \<noteq> -1 \<and> VoteFor raft \<noteq> RVA_CandidateId args then Inr (raft, reply)
      else gbind (go_idx (Log raft) (int (length (Log raft)) - 1)) (\<lambda>lst.
        if RVA_LastLogTerm args < Log_Term lst \<or>
           (RVA_LastLogTerm args = Log_Term lst \<and>
            RVA_LastLogIndex args < int (length (Log raft)) - 1)
        then Inr (raft, reply)
        else
          let raft = raft\<lparr>VoteFor := RVA_CandidateId args\<rparr> in
          gbind (send (voteCh raft)) (\<lambda>ch.
            Inr (persist (raft\<lparr>voteCh := ch\<rparr>), reply\<lparr>RVR_VoteGranted := True\<rparr>))))"

definition AppendEntries ::
  "'c AppendEntriesArgs \<Rightarrow> 'c Raft \<Rightarrow> ('c Raft \<times> AppendEntriesReply) go" where
  "AppendEntries args rf =
     (let rf = (if AEA_Term args > CurrentTerm rf then BeFollower (AEA_Term args) rf else rf) in
      gbind (send (appendLogCh rf)) (\<lambda>ch.
      let rf = rf\<lparr>appendLogCh := ch\<rparr>;
          reply = \<lparr>AER_Term = CurrentTerm rf, AER_Success = False\<rparr> in
      if AEA_Term args < CurrentTerm rf then Inr (rf, reply)
      else if AEA_PrevLogIndex args \<ge> int (length (Log rf)) then Inr (rf, reply)
      else gbind (go_idx (Log rf) (AEA_PrevLogIndex args)) (\<lambda>prev.
      if Log_Term prev \<noteq> AEA_PrevLogTerm args then Inr (rf, reply)
      else gbind (go_slice_to (Log rf) (AEA_PrevLogIndex args + 1)) (\<lambda>pre.
      let rf = rf\<lparr>Log := pre @ AEA_Entries args\<rparr> in
      gbind (if AEA_LeaderCommit args > CommitIndex rf
             then updateLastApplied
                    (rf\<lparr>CommitIndex := go_min (AEA_LeaderCommit args) (int (length (Log rf)) - 1)\<rparr>)
             else Inr rf) (\<lambda>rf.
      Inr (persist rf, reply\<lparr>AER_Success := True\<rparr>))))))"

definition Start :: "'c \<Rightarrow> 'c Raft \<Rightarrow> 'c Raft \<times> (int \<times> int \<times> bool)" where
  "Start command raft =
     (let index = -1; term = CurrentTerm raft; isLeader = (State raft = Leader) in
      if isLeader then
        let index = GetLastLogIndex raft + 1;
            newLog = \<lparr>Log_Term = CurrentTerm raft, Log_Command = Some command\<rparr>;
            raft = persist (raft\<lparr>Log := Log raft @ [newLog]\<rparr>)
        in (raft, (index, term, isLeader))
      else (raft, (index, term, isLeader)))"

definition Kill :: "'c Raft \<Rightarrow> 'c Raft" where
  "Kill raft = raft"

section \<open>Elections\<close>

text \<open>\<open>startElection\<close>: the arguments the goroutine reads when it runs, and what one of its
  inner goroutines does with the reply of a call that succeeded. \<open>count\<close> is the counter
  the inner goroutines share.\<close>

definition startElection_arg :: "'c Raft \<Rightarrow> RequestVoteArgs go" where
  "startElection_arg raft =
     gbind (go_idx (Log raft) (int (length (Log raft)) - 1)) (\<lambda>lst.
       Inr \<lparr>RVA_Term = CurrentTerm raft, RVA_CandidateId = me raft,
            RVA_LastLogIndex = int (length (Log raft)) - 1, RVA_LastLogTerm = Log_Term lst\<rparr>)"

definition startElection_peers :: "'c Raft \<Rightarrow> nat list" where
  "startElection_peers raft = filter (\<lambda>i. int i \<noteq> me raft) [0..<length (peers raft)]"

definition startElection_reply ::
  "RequestVoteArgs \<Rightarrow> RequestVoteReply \<Rightarrow> 'c Raft \<Rightarrow> int \<Rightarrow> ('c Raft \<times> int) go" where
  "startElection_reply arg reply raft count =
     (if RVR_Term reply > CurrentTerm raft then Inr (BeFollower (RVR_Term reply) raft, count)
      else if State raft \<noteq> Candidate \<or> CurrentTerm raft \<noteq> RVA_Term arg then Inr (raft, count)
      else
        let count = (if RVR_VoteGranted reply then count + 1 else count) in
        if count > int (length (peers raft) div 2) then
          let raft = BeLeader raft in
          gbind (send (voteCh raft)) (\<lambda>ch. Inr (raft\<lparr>voteCh := ch\<rparr>, count))
        else Inr (raft, count))"

section \<open>Log replication by the leader\<close>

text \<open>One turn of the loop in \<open>StartAppendLog\<close>'s goroutine for follower \<open>i\<close>: up to the
  call (\<^const>\<open>None\<close> when the peer is no longer leader and the goroutine returns), and
  from the reply on (the flag says whether the loop continues). A call that failed ends the
  goroutine and changes nothing.\<close>

definition appendLog_send :: "int \<Rightarrow> 'c Raft \<Rightarrow> 'c AppendEntriesArgs option go" where
  "appendLog_send i raft =
     (if State raft \<noteq> Leader then Inr None
      else
        gbind (go_idx (NextIndex raft) i) (\<lambda>next.
        gbind (go_idx (Log raft) (next - 1)) (\<lambda>prev.
        gbind (if int (length (Log raft)) - 1 \<ge> next then go_slice_from (Log raft) next
               else Inr []) (\<lambda>entries.
        Inr (Some \<lparr>AEA_Term = CurrentTerm raft, AEA_LeaderId = me raft,
                   AEA_PrevLogIndex = next - 1, AEA_PrevLogTerm = Log_Term prev,
                   AEA_Entries = entries, AEA_LeaderCommit = CommitIndex raft\<rparr>)))))"

definition commit_candidate :: "int list \<Rightarrow> int go" where
  "commit_candidate matchIndex =
     (let copyMatchIndex = rev (sort matchIndex)
      in go_idx copyMatchIndex (int (length copyMatchIndex div 2)))"

definition appendLog_reply ::
  "int \<Rightarrow> AppendEntriesReply \<Rightarrow> 'c Raft \<Rightarrow> ('c Raft \<times> bool) go" where
  "appendLog_reply i reply raft =
     (if AER_Term reply > CurrentTerm raft then Inr (BeFollower (AER_Term reply) raft, False)
      else if AER_Success reply then
        gbind (go_upd (MatchIndex raft) i (int (length (Log raft)) - 1)) (\<lambda>match.
        gbind (go_idx match i) (\<lambda>m.
        gbind (go_upd (NextIndex raft) i (m + 1)) (\<lambda>next.
        gbind (go_upd match (me raft) (int (length (Log raft)) - 1)) (\<lambda>match.
        let raft = raft\<lparr>MatchIndex := match, NextIndex := next\<rparr> in
        gbind (commit_candidate (MatchIndex raft)) (\<lambda>N.
        if N > CommitIndex raft then
          gbind (go_idx (Log raft) N) (\<lambda>entry.
          if Log_Term entry = CurrentTerm raft then
            gbind (updateLastApplied (raft\<lparr>CommitIndex := N\<rparr>)) (\<lambda>raft. Inr (raft, False))
          else Inr (raft, False))
        else Inr (raft, False))))))
      else
        gbind (go_idx (NextIndex raft) i) (\<lambda>next.
        gbind (go_upd (NextIndex raft) i (next - 1)) (\<lambda>nexts.
        Inr (raft\<lparr>NextIndex := nexts\<rparr>, True))))"

section \<open>Construction\<close>

definition zero_raft :: "nat list \<Rightarrow> int \<Rightarrow> 'c gob Persister \<Rightarrow> 'c Raft" where
  "zero_raft ps i pst =
     \<lparr>peers = ps, persister = pst, me = i, State = Follower, CurrentTerm = 0, VoteFor = 0,
      Log = [], CommitIndex = 0, LastApplied = 0, NextIndex = [], MatchIndex = [],
      appendLogCh = [], voteCh = [], applyCh = []\<rparr>"

definition Make :: "nat list \<Rightarrow> int \<Rightarrow> 'c gob Persister \<Rightarrow> 'c Raft" where
  "Make ps i pst =
     (let rf = zero_raft ps i pst;
          rf = readPersist (ReadRaftState pst) rf;
          rf = rf\<lparr>State := Follower, CurrentTerm := 1, VoteFor := -1, voteCh := [],
                  appendLogCh := [], applyCh := [], CommitIndex := 0, LastApplied := 0,
                  Log := [\<lparr>Log_Term = -1, Log_Command = None\<rparr>]\<rparr>
      in readPersist (ReadRaftState pst) rf)"

section \<open>Channels and applied messages\<close>

lemma send_ok: "length ch \<le> 1 \<Longrightarrow> send ch = Inr [True]"
  by (cases ch) (auto simp: send_def chan_send_def)

lemma send_Inr: "send ch = Inr ch' \<Longrightarrow> ch' = [True]"
  by (cases ch) (auto simp: send_def chan_send_def split: if_splits)

definition apply_msg :: "'c Log list \<Rightarrow> int \<Rightarrow> 'c ApplyMsg" where
  "apply_msg l k = \<lparr>AM_Index = k, AM_Command = Log_Command (l ! nat k),
                    AM_UseSnapshot = False, AM_Snapshot = []\<rparr>"

lemma AM_Index_apply_msg [simp]: "AM_Index (apply_msg l k) = k"
  by (simp add: apply_msg_def)

lemma map_AM_Index_apply_msg [simp]: "map AM_Index (map (apply_msg l) ks) = ks"
  by (induction ks) auto

text \<open>The loop applies exactly the entries after the last applied one, in order, up to the
  commit index.\<close>

lemma updateLastApplied_eq:
  assumes "0 \<le> LastApplied rf" and "CommitIndex rf < int (length (Log rf))"
    and "LastApplied rf \<le> CommitIndex rf"
  shows "updateLastApplied rf =
    Inr (rf\<lparr>LastApplied := CommitIndex rf,
            applyCh := applyCh rf @ map (apply_msg (Log rf)) [LastApplied rf + 1..CommitIndex rf]\<rparr>)"
  using assms
proof (induction rf rule: updateLastApplied.induct)
  case (1 rf)
  show ?case
  proof (cases "LastApplied rf < CommitIndex rf")
    case True
    let ?k = "LastApplied rf + 1"
    let ?rf = "rf\<lparr>LastApplied := ?k, applyCh := applyCh rf @ [apply_msg (Log rf) ?k]\<rparr>"
    have idx: "go_idx (Log rf) ?k = Inr (Log rf ! nat ?k)"
      using 1(2,3) True by (simp add: go_idx_def)
    have "updateLastApplied rf = updateLastApplied ?rf"
      using True idx by (subst updateLastApplied.simps) (simp add: apply_msg_def)
    also have "\<dots> = Inr (?rf\<lparr>LastApplied := CommitIndex rf,
        applyCh := applyCh ?rf @ map (apply_msg (Log rf)) [?k + 1..CommitIndex rf]\<rparr>)"
      using 1(1) [OF True refl, of "Log rf ! nat ?k"] 1(2-4) True idx
      by (simp add: apply_msg_def)
    finally show ?thesis
      using True by (simp add: upto_rec1 [of ?k])
  next
    case False
    with 1(4) have "LastApplied rf = CommitIndex rf" by simp
    with False show ?thesis by (subst updateLastApplied.simps) simp
  qed
qed

lemma updateLastApplied_done: "CommitIndex rf \<le> LastApplied rf \<Longrightarrow> updateLastApplied rf = Inr rf"
  by (subst updateLastApplied.simps) simp

lemma updateLastApplied_result:
  assumes "0 \<le> LastApplied rf" and "CommitIndex rf < int (length (Log rf))"
  shows "updateLastApplied rf =
    Inr (rf\<lparr>LastApplied := max (LastApplied rf) (CommitIndex rf),
            applyCh := applyCh rf @ map (apply_msg (Log rf)) [LastApplied rf + 1..CommitIndex rf]\<rparr>)"
  using updateLastApplied_eq [OF assms] updateLastApplied_done [of rf]
  by (cases "LastApplied rf \<le> CommitIndex rf") (auto simp: max_def)

text \<open>Whatever the state, the loop changes nothing but the apply cursor and its channel.\<close>

lemma updateLastApplied_frame:
  assumes "updateLastApplied rf = Inr rf'"
  shows "\<exists>la ch. rf' = rf\<lparr>LastApplied := la, applyCh := ch\<rparr>"
  using assms
proof (induction rf arbitrary: rf' rule: updateLastApplied.induct)
  case (1 rf)
  show ?case
  proof (cases "LastApplied rf < CommitIndex rf")
    case False
    with 1(2) have "rf' = rf\<lparr>LastApplied := LastApplied rf, applyCh := applyCh rf\<rparr>"
      by (simp add: updateLastApplied.simps [of rf])
    then show ?thesis by blast
  next
    case True
    let ?r = "rf\<lparr>LastApplied := LastApplied rf + 1\<rparr>"
    from True 1(2) obtain cur where idx: "go_idx (Log ?r) (LastApplied ?r) = Inr cur"
      by (auto simp: updateLastApplied.simps [of rf] Let_def split: sum.splits)
    with True 1(2) have "updateLastApplied (?r\<lparr>applyCh := applyCh ?r @
        [\<lparr>AM_Index = LastApplied ?r, AM_Command = Log_Command cur,
          AM_UseSnapshot = False, AM_Snapshot = []\<rparr>]\<rparr>) = Inr rf'"
      by (simp add: updateLastApplied.simps [of rf])
    from 1(1) [OF True refl idx this] show ?thesis by auto
  qed
qed

section \<open>What a method does to term, vote, role and stable storage\<close>

definition raftdata :: "'c Raft \<Rightarrow> 'c gob list" where
  "raftdata rf = ReadRaftState (persister rf)"

definition saved :: "'c Raft \<Rightarrow> 'c gob list" where
  "saved rf = [GInt (CurrentTerm rf), GInt (VoteFor rf), GLog (Log rf)]"

lemma raftdata_persist [simp]: "raftdata (persist rf) = saved rf"
  by (simp add: raftdata_def saved_def persist_def Let_def)

lemma raftdata_update [simp]:
  "raftdata (rf\<lparr>State := x0\<rparr>) = raftdata rf"
  "raftdata (rf\<lparr>CurrentTerm := x1\<rparr>) = raftdata rf"
  "raftdata (rf\<lparr>VoteFor := x2\<rparr>) = raftdata rf"
  "raftdata (rf\<lparr>Log := x3\<rparr>) = raftdata rf"
  "raftdata (rf\<lparr>CommitIndex := x4\<rparr>) = raftdata rf"
  "raftdata (rf\<lparr>LastApplied := x5\<rparr>) = raftdata rf"
  "raftdata (rf\<lparr>NextIndex := x6\<rparr>) = raftdata rf"
  "raftdata (rf\<lparr>MatchIndex := x7\<rparr>) = raftdata rf"
  "raftdata (rf\<lparr>appendLogCh := x8\<rparr>) = raftdata rf"
  "raftdata (rf\<lparr>voteCh := x9\<rparr>) = raftdata rf"
  "raftdata (rf\<lparr>applyCh := x10\<rparr>) = raftdata rf"
  by (simp_all add: raftdata_def)

lemma saved_update [simp]:
  "saved (rf\<lparr>State := x0\<rparr>) = saved rf"
  "saved (rf\<lparr>CommitIndex := x1\<rparr>) = saved rf"
  "saved (rf\<lparr>LastApplied := x2\<rparr>) = saved rf"
  "saved (rf\<lparr>NextIndex := x3\<rparr>) = saved rf"
  "saved (rf\<lparr>MatchIndex := x4\<rparr>) = saved rf"
  "saved (rf\<lparr>appendLogCh := x5\<rparr>) = saved rf"
  "saved (rf\<lparr>voteCh := x6\<rparr>) = saved rf"
  "saved (rf\<lparr>applyCh := x7\<rparr>) = saved rf"
  by (simp_all add: saved_def)

lemma persist_frame [simp]:
  "peers (persist rf) = peers rf" "me (persist rf) = me rf" "State (persist rf) = State rf"
  "CurrentTerm (persist rf) = CurrentTerm rf" "VoteFor (persist rf) = VoteFor rf"
  "Log (persist rf) = Log rf" "CommitIndex (persist rf) = CommitIndex rf"
  "LastApplied (persist rf) = LastApplied rf" "NextIndex (persist rf) = NextIndex rf"
  "MatchIndex (persist rf) = MatchIndex rf" "appendLogCh (persist rf) = appendLogCh rf"
  "voteCh (persist rf) = voteCh rf" "applyCh (persist rf) = applyCh rf"
  "saved (persist rf) = saved rf"
  by (simp_all add: persist_def Let_def saved_def)

lemma BeFollower_frame [simp]:
  "peers (BeFollower t rf) = peers rf" "me (BeFollower t rf) = me rf"
  "State (BeFollower t rf) = Follower" "CurrentTerm (BeFollower t rf) = t"
  "VoteFor (BeFollower t rf) = -1" "Log (BeFollower t rf) = Log rf"
  "CommitIndex (BeFollower t rf) = CommitIndex rf" "LastApplied (BeFollower t rf) = LastApplied rf"
  "NextIndex (BeFollower t rf) = NextIndex rf" "MatchIndex (BeFollower t rf) = MatchIndex rf"
  "appendLogCh (BeFollower t rf) = appendLogCh rf" "voteCh (BeFollower t rf) = voteCh rf"
  "applyCh (BeFollower t rf) = applyCh rf" "raftdata (BeFollower t rf) = raftdata rf"
  by (simp_all add: BeFollower_def raftdata_def)

lemma BeCandidate_frame [simp]:
  "peers (BeCandidate rf) = peers rf" "me (BeCandidate rf) = me rf"
  "State (BeCandidate rf) = Candidate" "CurrentTerm (BeCandidate rf) = CurrentTerm rf + 1"
  "VoteFor (BeCandidate rf) = me rf" "Log (BeCandidate rf) = Log rf"
  "CommitIndex (BeCandidate rf) = CommitIndex rf" "LastApplied (BeCandidate rf) = LastApplied rf"
  "NextIndex (BeCandidate rf) = NextIndex rf" "MatchIndex (BeCandidate rf) = MatchIndex rf"
  "appendLogCh (BeCandidate rf) = appendLogCh rf" "voteCh (BeCandidate rf) = voteCh rf"
  "applyCh (BeCandidate rf) = applyCh rf" "raftdata (BeCandidate rf) = raftdata rf"
  by (simp_all add: BeCandidate_def raftdata_def)

lemma BeLeader_frame [simp]:
  "peers (BeLeader rf) = peers rf" "me (BeLeader rf) = me rf"
  "State (BeLeader rf) = Leader" "CurrentTerm (BeLeader rf) = CurrentTerm rf"
  "VoteFor (BeLeader rf) = VoteFor rf" "Log (BeLeader rf) = Log rf"
  "CommitIndex (BeLeader rf) = CommitIndex rf" "LastApplied (BeLeader rf) = LastApplied rf"
  "appendLogCh (BeLeader rf) = appendLogCh rf" "voteCh (BeLeader rf) = voteCh rf"
  "applyCh (BeLeader rf) = applyCh rf" "raftdata (BeLeader rf) = raftdata rf"
  by (simp_all add: BeLeader_def raftdata_def)

text \<open>A method is quiet when it casts no vote and takes no new role but that of a follower in
  a later term; what it leaves on disk is what was there or its own new state.\<close>

definition quiet :: "'c Raft \<Rightarrow> 'c Raft \<Rightarrow> bool" where
  "quiet rf rf' \<longleftrightarrow> me rf' = me rf \<and> peers rf' = peers rf \<and>
     (CurrentTerm rf' = CurrentTerm rf \<and> VoteFor rf' = VoteFor rf \<and> State rf' = State rf \<or>
      CurrentTerm rf < CurrentTerm rf' \<and> VoteFor rf' = -1 \<and> State rf' = Follower) \<and>
     (raftdata rf' = raftdata rf \<or> raftdata rf' = saved rf')"

lemma quiet_refl [simp]: "quiet rf rf"
  by (simp add: quiet_def)

lemma quiet_BeFollower: "CurrentTerm rf < t \<Longrightarrow> quiet rf (BeFollower t rf)"
  by (simp add: quiet_def)

lemma quiet_term_le: "quiet rf rf' \<Longrightarrow> CurrentTerm rf \<le> CurrentTerm rf'"
  by (auto simp: quiet_def)

lemma InstallSnapshot_quiet: "InstallSnapshot args rf = (rf', reply) \<Longrightarrow> quiet rf rf'"
  by (auto simp: InstallSnapshot_def Let_def quiet_BeFollower split: if_splits)

lemma Start_quiet: "Start c rf = (rf', r) \<Longrightarrow> quiet rf rf'"
  by (auto simp: Start_def Let_def quiet_def split: if_splits)

lemma Start_log:
  assumes "Start c rf = (rf', r)"
  shows "Log rf' = (if State rf = Leader
                    then Log rf @ [\<lparr>Log_Term = CurrentTerm rf, Log_Command = Some c\<rparr>] else Log rf)"
  using assms by (auto simp: Start_def Let_def split: if_splits)

lemma updateLastApplied_fields:
  assumes "updateLastApplied rf = Inr rf'"
  shows "peers rf' = peers rf" "me rf' = me rf" "State rf' = State rf"
    "CurrentTerm rf' = CurrentTerm rf" "VoteFor rf' = VoteFor rf" "Log rf' = Log rf"
    "CommitIndex rf' = CommitIndex rf" "NextIndex rf' = NextIndex rf"
    "MatchIndex rf' = MatchIndex rf" "appendLogCh rf' = appendLogCh rf"
    "voteCh rf' = voteCh rf" "raftdata rf' = raftdata rf"
  using updateLastApplied_frame [OF assms] by (auto simp: raftdata_def)

text \<open>The common first step of the two RPC handlers.\<close>

definition step_down :: "int \<Rightarrow> 'c Raft \<Rightarrow> 'c Raft" where
  "step_down t rf = (if CurrentTerm rf < t then BeFollower t rf else rf)"

lemma step_down_frame [simp]:
  "peers (step_down t rf) = peers rf" "me (step_down t rf) = me rf"
  "Log (step_down t rf) = Log rf"
  "CommitIndex (step_down t rf) = CommitIndex rf" "LastApplied (step_down t rf) = LastApplied rf"
  "NextIndex (step_down t rf) = NextIndex rf" "MatchIndex (step_down t rf) = MatchIndex rf"
  "appendLogCh (step_down t rf) = appendLogCh rf" "voteCh (step_down t rf) = voteCh rf"
  "applyCh (step_down t rf) = applyCh rf" "raftdata (step_down t rf) = raftdata rf"
  "CurrentTerm (step_down t rf) = max t (CurrentTerm rf)"
  by (simp_all add: step_down_def)

lemma quiet_step_down: "quiet rf (step_down t rf)"
  by (simp add: step_down_def quiet_BeFollower)

text \<open>Changes to fields other than the ones \<^const>\<open>quiet\<close> speaks of, and saving the state,
  keep it quiet.\<close>

lemma quiet_frame:
  assumes "quiet rf r" and "me r' = me r" "peers r' = peers r" "CurrentTerm r' = CurrentTerm r"
    "VoteFor r' = VoteFor r" "State r' = State r"
    "raftdata r' = saved r' \<or> raftdata r' = raftdata r \<and> (raftdata r = raftdata rf \<or> Log r' = Log r)"
  shows "quiet rf r'"
  using assms by (auto simp: quiet_def saved_def)

text \<open>The two outcomes of \<open>AppendEntries\<close>: refused, with nothing but term and timer
  changed, or accepted, with the log cut after the matching entry and extended.\<close>

definition ae_accepts :: "'c AppendEntriesArgs \<Rightarrow> 'c Raft \<Rightarrow> bool" where
  "ae_accepts args rf \<longleftrightarrow> CurrentTerm rf \<le> AEA_Term args \<and>
     0 \<le> AEA_PrevLogIndex args \<and> AEA_PrevLogIndex args < int (length (Log rf)) \<and>
     Log_Term (Log rf ! nat (AEA_PrevLogIndex args)) = AEA_PrevLogTerm args"

definition ae_log :: "'c AppendEntriesArgs \<Rightarrow> 'c Raft \<Rightarrow> 'c Log list" where
  "ae_log args rf = take (nat (AEA_PrevLogIndex args + 1)) (Log rf) @ AEA_Entries args"

lemma AppendEntries_outcome:
  assumes "AppendEntries args rf = Inr (rf', reply)"
  defines "rf1 \<equiv> (step_down (AEA_Term args) rf)\<lparr>appendLogCh := [True]\<rparr>"
  shows "\<not> ae_accepts args rf \<and> rf' = rf1 \<and>
           reply = \<lparr>AER_Term = CurrentTerm rf1, AER_Success = False\<rparr> \<or>
         ae_accepts args rf \<and> reply = \<lparr>AER_Term = CurrentTerm rf1, AER_Success = True\<rparr> \<and>
           (\<exists>rf2. rf' = persist rf2 \<and>
             (if CommitIndex rf < AEA_LeaderCommit args
              then updateLastApplied (rf1\<lparr>Log := ae_log args rf,
                     CommitIndex := go_min (AEA_LeaderCommit args)
                       (int (length (ae_log args rf)) - 1)\<rparr>) = Inr rf2
              else rf2 = rf1\<lparr>Log := ae_log args rf\<rparr>))"
proof -
  have sd: "(if AEA_Term args > CurrentTerm rf then BeFollower (AEA_Term args) rf else rf)
    = step_down (AEA_Term args) rf" by (simp add: step_down_def)
  from assms(1) obtain ch where "send (appendLogCh rf) = Inr ch"
    by (auto simp: AppendEntries_def sd Let_def gbind_eq_Inr)
  then have "send (appendLogCh rf) = Inr [True]" using send_Inr by blast
  with assms(1) show ?thesis
    by (auto simp: AppendEntries_def sd Let_def go_simps rf1_def ae_accepts_def ae_log_def
        split: if_splits)
qed

lemma AppendEntries_log:
  assumes "AppendEntries args rf = Inr (rf', reply)"
  shows "Log rf' = (if ae_accepts args rf then ae_log args rf else Log rf)"
    and "AER_Success reply = ae_accepts args rf"
    and "CurrentTerm rf' = max (AEA_Term args) (CurrentTerm rf)"
    and "AER_Term reply = CurrentTerm rf'"
  using AppendEntries_outcome [OF assms]
  by (auto simp: updateLastApplied_fields split: if_splits)

lemma AppendEntries_quiet:
  assumes "AppendEntries args rf = Inr (rf', reply)"
  shows "quiet rf rf'"
  using AppendEntries_outcome [OF assms]
  by (auto intro!: quiet_frame [OF quiet_step_down] simp: updateLastApplied_fields
      split: if_splits)

text \<open>A vote is granted exactly when the candidate's term is not old, no other candidate has
  the vote of that term, and the candidate's log is at least as up to date as the voter's.\<close>

definition up_to_date :: "RequestVoteArgs \<Rightarrow> 'c Log list \<Rightarrow> bool" where
  "up_to_date args l \<longleftrightarrow> Log_Term (last l) < RVA_LastLogTerm args \<or>
     Log_Term (last l) = RVA_LastLogTerm args \<and> int (length l) - 1 \<le> RVA_LastLogIndex args"

definition rv_grants :: "RequestVoteArgs \<Rightarrow> 'c Raft \<Rightarrow> bool" where
  "rv_grants args rf \<longleftrightarrow>
     (CurrentTerm rf < RVA_Term args \<or>
      CurrentTerm rf = RVA_Term args \<and> (VoteFor rf = -1 \<or> VoteFor rf = RVA_CandidateId args)) \<and>
     up_to_date args (Log rf)"

lemma RequestVote_outcome:
  assumes "RequestVote args rf = Inr (rf', reply)" and "Log rf \<noteq> []"
  defines "rf1 \<equiv> step_down (RVA_Term args) rf"
  shows "\<not> rv_grants args rf \<and> rf' = rf1 \<and>
           reply = \<lparr>RVR_Term = CurrentTerm rf1, RVR_VoteGranted = False\<rparr> \<or>
         rv_grants args rf \<and> reply = \<lparr>RVR_Term = CurrentTerm rf1, RVR_VoteGranted = True\<rparr> \<and>
           rf' = persist (rf1\<lparr>VoteFor := RVA_CandidateId args, voteCh := [True]\<rparr>)"
proof -
  have sd: "(if CurrentTerm rf < RVA_Term args then BeFollower (RVA_Term args) rf else rf)
    = step_down (RVA_Term args) rf" by (simp add: step_down_def)
  have lst: "go_idx (Log rf) (int (length (Log rf)) - 1) = Inr (last (Log rf))"
    using assms(2) by (cases "Log rf") (auto simp: go_idx_def last_conv_nth nat_diff_distrib')
  have vf: "VoteFor (step_down (RVA_Term args) rf) =
      (if CurrentTerm rf < RVA_Term args then -1 else VoteFor rf)"
    by (simp add: step_down_def)
  from assms(1) show ?thesis
    unfolding RequestVote_def sd Let_def
    by (auto simp: lst vf rf1_def rv_grants_def up_to_date_def gbind_eq_Inr
        dest: send_Inr split: if_splits)
qed

lemma RequestVote_refused_quiet:
  assumes "RequestVote args rf = Inr (rf', reply)" "Log rf \<noteq> []" "\<not> RVR_VoteGranted reply"
  shows "quiet rf rf'"
  using RequestVote_outcome [OF assms(1,2)] assms(3) by (auto simp: quiet_step_down)

lemma RequestVote_log:
  assumes "RequestVote args rf = Inr (rf', reply)" "Log rf \<noteq> []"
  shows "Log rf' = Log rf" "me rf' = me rf" "peers rf' = peers rf"
    "CurrentTerm rf' = max (RVA_Term args) (CurrentTerm rf)"
  using RequestVote_outcome [OF assms] by auto

lemma RequestVote_granted:
  assumes "RequestVote args rf = Inr (rf', reply)" "Log rf \<noteq> []" "RVR_VoteGranted reply"
  shows "CurrentTerm rf' = RVA_Term args" "CurrentTerm rf \<le> RVA_Term args"
    "VoteFor rf' = RVA_CandidateId args" "raftdata rf' = saved rf'"
    "CurrentTerm rf = RVA_Term args \<Longrightarrow> VoteFor rf = -1 \<or> VoteFor rf = RVA_CandidateId args"
    "State rf' = State rf \<and> CurrentTerm rf' = CurrentTerm rf \<or> State rf' = Follower"
    "RVR_Term reply = RVA_Term args"
  using RequestVote_outcome [OF assms(1,2)] assms(3)
  by (auto simp: rv_grants_def step_down_def)

lemma startElection_reply_outcome:
  assumes "startElection_reply arg reply rf cnt = Inr (rf', cnt')"
  shows "quiet rf rf' \<and> cnt' \<le> cnt + (if RVR_VoteGranted reply then 1 else 0) \<and> Log rf' = Log rf \<and>
           State rf' \<noteq> Leader \<or>
         quiet rf rf' \<and> cnt' = cnt \<and> rf' = rf \<or>
         State rf = Candidate \<and> CurrentTerm rf = RVA_Term arg \<and> rf' = (BeLeader rf)\<lparr>voteCh := [True]\<rparr> \<and>
           cnt' = cnt + (if RVR_VoteGranted reply then 1 else 0) \<and>
           int (length (peers rf) div 2) < cnt'"
proof (cases "RVR_Term reply > CurrentTerm rf")
  case True
  with assms show ?thesis
    by (auto simp: startElection_reply_def quiet_BeFollower)
next
  case False
  with assms show ?thesis
    by (auto simp: startElection_reply_def Let_def gbind_eq_Inr dest: send_Inr split: if_splits)
qed

lemma appendLog_reply_quiet:
  assumes "appendLog_reply i reply rf = Inr (rf', cont)"
  shows "quiet rf rf' \<and> Log rf' = Log rf"
proof (cases "AER_Term reply > CurrentTerm rf")
  case True
  with assms show ?thesis by (auto simp: appendLog_reply_def quiet_BeFollower)
next
  case False
  with assms show ?thesis
    by (auto intro!: quiet_frame [OF quiet_refl]
        simp: appendLog_reply_def Let_def gbind_eq_Inr updateLastApplied_fields split: if_splits)
qed

lemma appendLog_send_some:
  assumes "appendLog_send i rf = Inr (Some args)"
  shows "State rf = Leader" "AEA_Term args = CurrentTerm rf" "AEA_LeaderId args = me rf"
    "0 \<le> AEA_PrevLogIndex args" "AEA_PrevLogIndex args < int (length (Log rf))"
    "AEA_PrevLogTerm args = Log_Term (Log rf ! nat (AEA_PrevLogIndex args))"
    "AEA_Entries args = drop (nat (AEA_PrevLogIndex args + 1)) (Log rf)"
    "AEA_LeaderCommit args = CommitIndex rf"
  using assms
  by (auto simp: appendLog_send_def go_simps split: if_splits)

lemma startElection_arg_fields:
  assumes "startElection_arg rf = Inr a"
  shows "RVA_Term a = CurrentTerm rf" "RVA_CandidateId a = me rf"
    "RVA_LastLogIndex a = int (length (Log rf)) - 1"
    "RVA_LastLogTerm a = Log_Term (last (Log rf))"
  using assms
  by (auto simp: startElection_arg_def go_simps last_conv_nth nat_diff_distrib')

end
