(* ===== verification/Raft_System.thy ===== *)
theory Raft_System
  imports Raft
begin

text \<open>
  A cluster of Raft peers: the goroutines of \<^verbatim>\<open>src/raft/raft.go\<close>, the calls they have made
  over the network of \<^verbatim>\<open>src/labrpc/labrpc.go\<close>, clients, and crashes followed by a
  restart as the tester does them (\<^verbatim>\<open>src/raft/config.go\<close>). A step is one critical
  section of one goroutine (the code between \<open>raft.mu.Lock()\<close> and its unlock); which step
  is next is the event, so a run is a list of events and the state after it can be computed.

  The network may delay, lose or reorder requests and replies without bound: a call stays
  in the table; its request may be handled at any time or never, at most once, and the
  caller's continuation runs at most once, with the reply if there is one or with a failure
  at any time. A request may still be handled after its caller has been told that the call
  failed, as in the code (\<open>ProcessReq\<close> stops waiting for a handler that still runs).
\<close>

section \<open>State\<close>

datatype main_pc = LoopTop | InSelect | InLeader

datatype goroutine = GElect | GAppend nat | GDone

record election =
  e_srv :: nat
  e_arg :: RequestVoteArgs
  e_count :: int

datatype 'c request = VoteReq RequestVoteArgs nat | AppendReq "'c AppendEntriesArgs"

datatype response = VoteRep RequestVoteReply | AppendRep AppendEntriesReply

record 'c call =
  c_from :: nat
  c_to :: nat
  c_req :: "'c request"
  c_rep :: "response option"
  c_returned :: bool

record 'c cluster =
  servers :: "'c Raft list"
  mains :: "main_pc list"
  gors :: "(nat \<times> goroutine) list"
  elections :: "election list"
  calls :: "'c call list"

definition new_call :: "nat \<Rightarrow> nat \<Rightarrow> 'c request \<Rightarrow> 'c call" where
  "new_call i j r = \<lparr>c_from = i, c_to = j, c_req = r, c_rep = None, c_returned = False\<rparr>"

definition init_cluster :: "nat \<Rightarrow> 'c cluster" where
  "init_cluster n =
     \<lparr>servers = map (\<lambda>i. Make [0..<n] (int i) MakePersister) [0..<n],
      mains = replicate n LoopTop, gors = [], elections = [], calls = []\<rparr>"

section \<open>The main loop of a peer\<close>

text \<open>\<open>Make\<close>'s goroutine: read the role under the lock, then either wait in the
  \<open>select\<close> (a vote, an append, or the election timeout) or replicate as leader.\<close>

definition main_read :: "nat \<Rightarrow> 'c cluster \<Rightarrow> 'c cluster" where
  "main_read i s =
     (if mains s ! i = LoopTop
      then s\<lparr>mains := (mains s)[i := (case State (servers s ! i) of
               Follower \<Rightarrow> InSelect | Candidate \<Rightarrow> InSelect | Leader \<Rightarrow> InLeader)]\<rparr>
      else s)"

definition main_vote :: "nat \<Rightarrow> 'c cluster \<Rightarrow> 'c cluster" where
  "main_vote i s =
     (let rf = servers s ! i in
      if mains s ! i = InSelect \<and> voteCh rf \<noteq> []
      then s\<lparr>servers := (servers s)[i := rf\<lparr>voteCh := tl (voteCh rf)\<rparr>],
             mains := (mains s)[i := LoopTop]\<rparr>
      else s)"

definition main_append :: "nat \<Rightarrow> 'c cluster \<Rightarrow> 'c cluster" where
  "main_append i s =
     (let rf = servers s ! i in
      if mains s ! i = InSelect \<and> appendLogCh rf \<noteq> []
      then s\<lparr>servers := (servers s)[i := rf\<lparr>appendLogCh := tl (appendLogCh rf)\<rparr>],
             mains := (mains s)[i := LoopTop]\<rparr>
      else s)"

definition main_timeout :: "nat \<Rightarrow> 'c cluster \<Rightarrow> 'c cluster" where
  "main_timeout i s =
     (if mains s ! i = InSelect
      then s\<lparr>servers := (servers s)[i := BeCandidate (servers s ! i)],
             gors := gors s @ [(i, GElect)],
             mains := (mains s)[i := LoopTop]\<rparr>
      else s)"

definition StartAppendLog_peers :: "'c Raft \<Rightarrow> nat list" where
  "StartAppendLog_peers raft = filter (\<lambda>i. int i \<noteq> me raft) [0..<length (peers raft)]"

definition main_leader :: "nat \<Rightarrow> 'c cluster \<Rightarrow> 'c cluster" where
  "main_leader i s =
     (if mains s ! i = InLeader
      then s\<lparr>gors := gors s @ map (\<lambda>j. (i, GAppend j)) (StartAppendLog_peers (servers s ! i)),
             mains := (mains s)[i := LoopTop]\<rparr>
      else s)"

section \<open>Goroutines, calls, clients, crashes\<close>

definition run_goroutine :: "nat \<Rightarrow> 'c cluster \<Rightarrow> 'c cluster go" where
  "run_goroutine k s =
     (case gors s ! k of
        (i, GElect) \<Rightarrow>
          gbind (startElection_arg (servers s ! i)) (\<lambda>arg.
          let e = length (elections s) in
          Inr (s\<lparr>gors := (gors s)[k := (i, GDone)],
                 elections := elections s @ [\<lparr>e_srv = i, e_arg = arg, e_count = 1\<rparr>],
                 calls := calls s @ map (\<lambda>j. new_call i j (VoteReq arg e))
                            (startElection_peers (servers s ! i))\<rparr>))
      | (i, GAppend j) \<Rightarrow>
          gbind (appendLog_send (int j) (servers s ! i)) (\<lambda>oa.
          Inr (case oa of
                 None \<Rightarrow> s\<lparr>gors := (gors s)[k := (i, GDone)]\<rparr>
               | Some args \<Rightarrow> s\<lparr>gors := (gors s)[k := (i, GDone)],
                                calls := calls s @ [new_call i j (AppendReq args)]\<rparr>))
      | (i, GDone) \<Rightarrow> Inr s)"

definition deliver :: "nat \<Rightarrow> 'c cluster \<Rightarrow> 'c cluster go" where
  "deliver k s =
     (let c = calls s ! k; rf = servers s ! c_to c in
      if c_rep c \<noteq> None then Inr s
      else case c_req c of
        VoteReq a e \<Rightarrow>
          gbind (RequestVote a rf) (\<lambda>(rf', reply).
          Inr (s\<lparr>servers := (servers s)[c_to c := rf'],
                 calls := (calls s)[k := c\<lparr>c_rep := Some (VoteRep reply)\<rparr>]\<rparr>))
      | AppendReq a \<Rightarrow>
          gbind (AppendEntries a rf) (\<lambda>(rf', reply).
          Inr (s\<lparr>servers := (servers s)[c_to c := rf'],
                 calls := (calls s)[k := c\<lparr>c_rep := Some (AppendRep reply)\<rparr>]\<rparr>)))"

definition return_failed :: "nat \<Rightarrow> 'c cluster \<Rightarrow> 'c cluster" where
  "return_failed k s = s\<lparr>calls := (calls s)[k := (calls s ! k)\<lparr>c_returned := True\<rparr>]\<rparr>"

definition return_reply :: "nat \<Rightarrow> 'c cluster \<Rightarrow> 'c cluster go" where
  "return_reply k s =
     (let c = calls s ! k; i = c_from c; rf = servers s ! i in
      if c_returned c then Inr s
      else case (c_req c, c_rep c) of
        (VoteReq a e, Some (VoteRep r)) \<Rightarrow>
          gbind (startElection_reply a r rf (e_count (elections s ! e))) (\<lambda>(rf', count).
          Inr (s\<lparr>servers := (servers s)[i := rf'],
                 elections := (elections s)[e := (elections s ! e)\<lparr>e_count := count\<rparr>],
                 calls := (calls s)[k := c\<lparr>c_returned := True\<rparr>]\<rparr>))
      | (AppendReq a, Some (AppendRep r)) \<Rightarrow>
          gbind (appendLog_reply (int (c_to c)) r rf) (\<lambda>(rf', continue).
          Inr (s\<lparr>servers := (servers s)[i := rf'],
                 gors := (if continue then gors s @ [(i, GAppend (c_to c))] else gors s),
                 calls := (calls s)[k := c\<lparr>c_returned := True\<rparr>]\<rparr>))
      | _ \<Rightarrow> Inr s)"

definition client_start :: "nat \<Rightarrow> 'c \<Rightarrow> 'c cluster \<Rightarrow> 'c cluster" where
  "client_start i command s =
     s\<lparr>servers := (servers s)[i := fst (Start command (servers s ! i))]\<rparr>"

text \<open>\<open>crash1\<close> keeps of the persister only the Raft state, and \<open>start1\<close> hands a copy of
  it to the new instance. The goroutines and pending calls of the old instance can no longer
  reach the new one.\<close>

definition crash1_saved :: "'b Persister \<Rightarrow> 'b Persister" where
  "crash1_saved ps =
     (let saved = Copy ps; raftlog = ReadRaftState saved
      in SaveRaftState raftlog MakePersister)"

definition crash_restart :: "nat \<Rightarrow> 'c cluster \<Rightarrow> 'c cluster" where
  "crash_restart i s =
     (let rf = servers s ! i in
      s\<lparr>servers := (servers s)[i := Make (peers rf) (me rf) (Copy (crash1_saved (persister rf)))],
        mains := (mains s)[i := LoopTop],
        gors := map (\<lambda>(j, g). if j = i then (j, GDone) else (j, g)) (gors s),
        calls := map (\<lambda>c. if c_from c = i then c\<lparr>c_returned := True\<rparr> else c) (calls s)\<rparr>)"

section \<open>Runs\<close>

datatype 'c event =
    MainRead nat
  | MainVote nat
  | MainAppend nat
  | MainTimeout nat
  | MainLeader nat
  | RunGoroutine nat
  | Deliver nat
  | Fail nat
  | Reply nat
  | Client nat 'c
  | Crash nat

fun step :: "'c event \<Rightarrow> 'c cluster \<Rightarrow> 'c cluster go" where
  "step (MainRead i) s = Inr (if i < length (servers s) then main_read i s else s)"
| "step (MainVote i) s = Inr (if i < length (servers s) then main_vote i s else s)"
| "step (MainAppend i) s = Inr (if i < length (servers s) then main_append i s else s)"
| "step (MainTimeout i) s = Inr (if i < length (servers s) then main_timeout i s else s)"
| "step (MainLeader i) s = Inr (if i < length (servers s) then main_leader i s else s)"
| "step (RunGoroutine k) s = (if k < length (gors s) then run_goroutine k s else Inr s)"
| "step (Deliver k) s = (if k < length (calls s) then deliver k s else Inr s)"
| "step (Fail k) s = Inr (if k < length (calls s) then return_failed k s else s)"
| "step (Reply k) s = (if k < length (calls s) then return_reply k s else Inr s)"
| "step (Client i c) s = Inr (if i < length (servers s) then client_start i c s else s)"
| "step (Crash i) s = Inr (if i < length (servers s) then crash_restart i s else s)"

fun run :: "'c event list \<Rightarrow> 'c cluster \<Rightarrow> 'c cluster go" where
  "run [] s = Inr s"
| "run (e # es) s = gbind (step e s) (run es)"

definition cluster_step :: "'c cluster \<Rightarrow> 'c cluster \<Rightarrow> bool" where
  "cluster_step s t \<longleftrightarrow> (\<exists>e. step e s = Inr t)"

fun is_crash :: "'c event \<Rightarrow> bool" where
  "is_crash (Crash i) = True"
| "is_crash _ = False"

definition stable_step :: "'c cluster \<Rightarrow> 'c cluster \<Rightarrow> bool" where
  "stable_step s t \<longleftrightarrow> (\<exists>e. \<not> is_crash e \<and> step e s = Inr t)"

definition starts :: "nat \<Rightarrow> 'c cluster \<Rightarrow> bool" where
  "starts n s \<longleftrightarrow> s = init_cluster n"

text \<open>States a cluster of \<open>n\<close> peers can be in: with crashes and restarts, and without.\<close>

abbreviation reachable :: "nat \<Rightarrow> 'c cluster \<Rightarrow> bool" where
  "reachable n \<equiv> reach (starts n) cluster_step"

abbreviation stable_reachable :: "nat \<Rightarrow> 'c cluster \<Rightarrow> bool" where
  "stable_reachable n \<equiv> reach (starts n) stable_step"

lemma stable_reachable_reachable: "stable_reachable n s \<Longrightarrow> reachable n s"
  by (erule reach_mono) (auto simp: stable_step_def cluster_step_def)

lemma run_reachable:
  assumes "run es s = Inr t" and "reachable n s"
  shows "reachable n t"
  using assms
proof (induction es arbitrary: s)
  case (Cons e es)
  from Cons.prems(1) obtain u where u: "step e s = Inr u" "run es u = Inr t"
    by (auto simp: gbind_eq_Inr)
  then have "cluster_step s u" by (auto simp: cluster_step_def)
  with Cons.prems(2) have "reachable n u" by (rule reach_step)
  with u(2) show ?case by (rule Cons.IH)
qed simp

lemma run_stable_reachable:
  assumes "run es s = Inr t" and "stable_reachable n s" and "list_all (\<lambda>e. \<not> is_crash e) es"
  shows "stable_reachable n t"
  using assms
proof (induction es arbitrary: s)
  case (Cons e es)
  from Cons.prems(1) obtain u where u: "step e s = Inr u" "run es u = Inr t"
    by (auto simp: gbind_eq_Inr)
  with Cons.prems(3) have "stable_step s u" by (auto simp: stable_step_def)
  with Cons.prems(2) have "stable_reachable n u" by (rule reach_step)
  with u(2) Cons.prems(3) show ?case using Cons.IH by auto
qed simp

lemma init_reachable: "reachable n (init_cluster n)" "stable_reachable n (init_cluster n)"
  by (auto intro: reach_init simp: starts_def)

end
