(* ===== verification/Raft_Wellformed.thy ===== *)
theory Raft_Wellformed
  imports Raft_System
begin

text \<open>
  The type invariant of a peer and of a cluster, and that every step keeps it: logs start
  with the sentinel entry, the two notification channels never hold more than one value,
  what is on disk can be read back, the service has received the messages \<open>1, 2, ...,
  LastApplied\<close> in this order, and every append request in flight names a non-negative
  previous index. It follows that no RPC handler ever panics or blocks.
\<close>

section \<open>The invariant of a peer\<close>

definition sentinel :: "'c Log" where
  "sentinel = \<lparr>Log_Term = -1, Log_Command = None\<rparr>"

definition log_ok :: "'c Log list \<Rightarrow> bool" where
  "log_ok l \<longleftrightarrow> l \<noteq> [] \<and> hd l = sentinel"

definition disk_ok :: "'c gob list \<Rightarrow> bool" where
  "disk_ok d \<longleftrightarrow> d = [] \<or> (\<exists>t v l. d = [GInt t, GInt v, GLog l] \<and> 1 \<le> t \<and> log_ok l)"

definition peer_ok :: "nat \<Rightarrow> nat \<Rightarrow> 'c Raft \<Rightarrow> bool" where
  "peer_ok n i rf \<longleftrightarrow> me rf = int i \<and> peers rf = [0..<n] \<and> 1 \<le> CurrentTerm rf \<and>
     log_ok (Log rf) \<and> disk_ok (raftdata rf) \<and>
     length (voteCh rf) \<le> 1 \<and> length (appendLogCh rf) \<le> 1 \<and>
     0 \<le> LastApplied rf \<and> map AM_Index (applyCh rf) = [1..LastApplied rf]"

lemma log_ok_nonempty: "log_ok l \<Longrightarrow> l \<noteq> []"
  by (simp add: log_ok_def)

lemma disk_ok_saved: "1 \<le> CurrentTerm rf \<Longrightarrow> log_ok (Log rf) \<Longrightarrow> disk_ok (saved rf)"
  by (simp add: disk_ok_def saved_def)

lemma log_ok_ae_log:
  "log_ok (Log rf) \<Longrightarrow> 0 \<le> AEA_PrevLogIndex args \<Longrightarrow> log_ok (ae_log args rf)"
  by (cases "Log rf") (auto simp: log_ok_def ae_log_def take_Cons' nat_add_distrib)

lemma applied_extend:
  "0 \<le> a \<Longrightarrow> [1..a] @ map (AM_Index \<circ> apply_msg l) [a + 1..b] = [1..max a b]"
  using upto_split2 [of 1 a b]
  by (cases "a = 0") (auto simp: max_def comp_def)

subsection \<open>Every method keeps it\<close>

lemma peer_ok_quiet_update:
  assumes "peer_ok n i rf" and "me rf' = me rf" "peers rf' = peers rf"
    "CurrentTerm rf \<le> CurrentTerm rf'" "Log rf' = Log rf"
    "raftdata rf' = raftdata rf \<or> raftdata rf' = saved rf'"
    "length (voteCh rf') \<le> 1" "length (appendLogCh rf') \<le> 1"
    "LastApplied rf' = LastApplied rf" "applyCh rf' = applyCh rf"
  shows "peer_ok n i rf'"
  using assms disk_ok_saved [of rf'] by (auto simp: peer_ok_def)

lemma peer_ok_chans: "peer_ok n i rf \<Longrightarrow> length (voteCh rf) \<le> Suc 0 \<and> length (appendLogCh rf) \<le> Suc 0"
  by (simp add: peer_ok_def)

lemma peer_ok_log: "peer_ok n i rf \<Longrightarrow> Log rf \<noteq> []"
  by (simp add: peer_ok_def log_ok_def)

lemma peer_ok_applied:
  assumes "peer_ok n i rf" and "log_ok l" and "c < int (length l)"
    and "rf' = rf\<lparr>Log := l, CommitIndex := c\<rparr>"
  shows "\<exists>rf''. updateLastApplied rf' = Inr rf'' \<and> peer_ok n i (persist rf'') \<and>
    (raftdata rf' = raftdata rf \<longrightarrow> peer_ok n i rf'')"
proof -
  have "0 \<le> LastApplied rf'" "CommitIndex rf' < int (length (Log rf'))"
    using assms by (auto simp: peer_ok_def)
  from updateLastApplied_result [OF this] show ?thesis
    using assms disk_ok_saved [of rf']
    by (auto simp: peer_ok_def applied_extend)
qed

lemma AppendEntries_ok:
  assumes ok: "peer_ok n i rf" and prev: "0 \<le> AEA_PrevLogIndex args"
  shows "\<exists>rf' reply. AppendEntries args rf = Inr (rf', reply) \<and> peer_ok n i rf'"
proof -
  let ?rf1 = "(step_down (AEA_Term args) rf)\<lparr>appendLogCh := [True]\<rparr>"
  have ok1: "peer_ok n i ?rf1"
    by (rule peer_ok_quiet_update [OF ok]) (use peer_ok_chans [OF ok] in auto)
  have sd: "(if AEA_Term args > CurrentTerm rf then BeFollower (AEA_Term args) rf else rf)
    = step_down (AEA_Term args) rf" by (simp add: step_down_def)
  have snd: "send (appendLogCh (step_down (AEA_Term args) rf)) = Inr [True]"
    using peer_ok_chans [OF ok] by (simp add: send_ok)
  have lg: "log_ok (ae_log args rf)"
    using ok prev by (auto intro: log_ok_ae_log simp: peer_ok_def)
  let ?c = "go_min (AEA_LeaderCommit args) (int (length (ae_log args rf)) - 1)"
  have "?c < int (length (ae_log args rf))" by (simp add: go_min_def)
  from peer_ok_applied [OF ok1 lg this refl] obtain rf2 where
    rf2: "updateLastApplied (?rf1\<lparr>Log := ae_log args rf, CommitIndex := ?c\<rparr>) = Inr rf2"
      "peer_ok n i (persist rf2)" by blast
  have rf3: "peer_ok n i (persist (?rf1\<lparr>Log := ae_log args rf\<rparr>))"
    using ok1 lg disk_ok_saved [of "?rf1\<lparr>Log := ae_log args rf\<rparr>"] by (auto simp: peer_ok_def)
  show ?thesis
    unfolding AppendEntries_def sd Let_def snd
    using ok1 rf2 rf3 prev
    by (auto simp: go_access_defs ae_log_def)
qed

lemma RequestVote_ok:
  assumes ok: "peer_ok n i rf"
  shows "\<exists>rf' reply. RequestVote args rf = Inr (rf', reply) \<and> peer_ok n i rf'"
proof -
  let ?rf1 = "step_down (RVA_Term args) rf"
  have ok1: "peer_ok n i ?rf1"
    by (rule peer_ok_quiet_update [OF ok]) (use peer_ok_chans [OF ok] in auto)
  have ok2: "peer_ok n i (persist (?rf1\<lparr>VoteFor := v, voteCh := [True]\<rparr>))" for v
    by (rule peer_ok_quiet_update [OF ok1]) (use peer_ok_chans [OF ok] in auto)
  have sd: "(if CurrentTerm rf < RVA_Term args then BeFollower (RVA_Term args) rf else rf)
    = step_down (RVA_Term args) rf" by (simp add: step_down_def)
  have lst: "go_idx (Log rf) (int (length (Log rf)) - 1) = Inr (last (Log rf))"
    using peer_ok_log [OF ok]
    by (cases "Log rf") (auto simp: go_idx_def last_conv_nth nat_diff_distrib')
  have snd: "send (voteCh rf) = Inr [True]"
    using peer_ok_chans [OF ok] by (simp add: send_ok)
  show ?thesis
    unfolding RequestVote_def sd Let_def
    using ok1 ok2 by (auto simp: lst snd)
qed

lemma BeFollower_ok: "peer_ok n i rf \<Longrightarrow> CurrentTerm rf < t \<Longrightarrow> peer_ok n i (BeFollower t rf)"
  by (rule peer_ok_quiet_update) (simp_all add: peer_ok_chans)

lemma InstallSnapshot_ok:
  "peer_ok n i rf \<Longrightarrow> InstallSnapshot args rf = (rf', reply) \<Longrightarrow> peer_ok n i rf'"
  by (auto simp: InstallSnapshot_def Let_def BeFollower_ok split: if_splits)

lemma Start_ok: "peer_ok n i rf \<Longrightarrow> peer_ok n i (fst (Start c rf))"
proof (cases "State rf = Leader")
  case True
  assume ok: "peer_ok n i rf"
  let ?r = "rf\<lparr>Log := Log rf @ [\<lparr>Log_Term = CurrentTerm rf, Log_Command = Some c\<rparr>]\<rparr>"
  have "fst (Start c rf) = persist ?r" using True by (simp add: Start_def Let_def)
  moreover have "peer_ok n i (persist ?r)"
    using ok disk_ok_saved [of ?r] by (auto simp: peer_ok_def log_ok_def)
  ultimately show ?thesis by simp
qed (simp add: Start_def)

lemma BeCandidate_ok: "peer_ok n i rf \<Longrightarrow> peer_ok n i (BeCandidate rf)"
  by (rule peer_ok_quiet_update) (simp_all add: peer_ok_chans)

lemma startElection_arg_ok: "peer_ok n i rf \<Longrightarrow> \<exists>a. startElection_arg rf = Inr a"
  by (auto simp: startElection_arg_def go_idx_def dest: peer_ok_log)

lemma startElection_reply_ok:
  assumes ok: "peer_ok n i rf"
  shows "\<exists>rf' c'. startElection_reply arg reply rf c = Inr (rf', c') \<and> peer_ok n i rf'"
proof -
  have snd: "send (voteCh rf) = Inr [True]"
    using peer_ok_chans [OF ok] by (simp add: send_ok)
  have "peer_ok n i ((BeLeader rf)\<lparr>voteCh := [True]\<rparr>)"
    by (rule peer_ok_quiet_update [OF ok]) (use peer_ok_chans [OF ok] in auto)
  then show ?thesis
    using ok snd by (auto simp: startElection_reply_def Let_def BeFollower_ok)
qed

lemma appendLog_reply_ok:
  assumes ok: "peer_ok n i rf" and res: "appendLog_reply j reply rf = Inr (rf', cont)"
  shows "peer_ok n i rf'"
proof -
  have upd: "peer_ok n i (rf\<lparr>MatchIndex := m, NextIndex := x\<rparr>)" "peer_ok n i (rf\<lparr>NextIndex := x\<rparr>)" for m x
    by (rule peer_ok_quiet_update [OF ok]; use peer_ok_chans [OF ok] in auto)+
  have app: "peer_ok n i rf''"
    if "updateLastApplied (rf\<lparr>MatchIndex := m, NextIndex := x, CommitIndex := N\<rparr>) = Inr rf''"
      and "N < int (length (Log rf))" for m x N rf''
  proof -
    have "log_ok (Log rf)" using ok by (simp add: peer_ok_def)
    from peer_ok_applied [OF upd(1) this that(2) refl, of x m] that(1) show ?thesis by auto
  qed
  show ?thesis
  proof (cases "AER_Term reply > CurrentTerm rf")
    case True
    then have "rf' = BeFollower (AER_Term reply) rf"
      using res by (simp add: appendLog_reply_def)
    then show ?thesis using True ok by (simp add: BeFollower_ok)
  next
    case False
    with res show ?thesis
      by (auto simp: appendLog_reply_def Let_def go_simps upd dest: app split: if_splits)
  qed
qed

lemma raftdata_crash1 [simp]: "ReadRaftState (crash1_saved ps) = ReadRaftState ps"
  by (simp add: crash1_saved_def Let_def)

text \<open>A restarted peer has on disk what it had, and in memory what the disk says.\<close>

lemma Make_fields:
  "peers (Make p i ps) = p" "me (Make p i ps) = i" "State (Make p i ps) = Follower"
  "CommitIndex (Make p i ps) = 0" "LastApplied (Make p i ps) = 0"
  "voteCh (Make p i ps) = []" "appendLogCh (Make p i ps) = []" "applyCh (Make p i ps) = []"
  "raftdata (Make p i ps) = ReadRaftState ps"
  by (simp_all add: Make_def zero_raft_def readPersist_def raftdata_def Let_def split: prod.splits)

lemma Make_empty:
  assumes "ReadRaftState ps = []"
  shows "CurrentTerm (Make p i ps) = 1" "VoteFor (Make p i ps) = -1" "Log (Make p i ps) = [sentinel]"
  using assms by (simp_all add: Make_def readPersist_def sentinel_def Let_def split: prod.splits)

lemma Make_saved:
  assumes "ReadRaftState ps = [GInt t, GInt v, GLog l]"
  shows "CurrentTerm (Make p i ps) = t" "VoteFor (Make p i ps) = v" "Log (Make p i ps) = l"
  using assms by (simp_all add: Make_def readPersist_def Let_def split: prod.splits)

lemma Make_ok:
  assumes "disk_ok (ReadRaftState ps)"
  shows "peer_ok n i (Make [0..<n] (int i) ps)"
  using assms
  by (auto simp: disk_ok_def peer_ok_def Make_fields Make_empty Make_saved log_ok_def)

section \<open>The invariant of a cluster\<close>

definition peers_ok :: "nat \<Rightarrow> 'c Raft list \<Rightarrow> bool" where
  "peers_ok n ss \<longleftrightarrow> length ss = n \<and> (\<forall>i<n. peer_ok n i (ss ! i))"

fun gor_ok :: "nat \<Rightarrow> nat \<times> goroutine \<Rightarrow> bool" where
  "gor_ok n (i, GAppend j) \<longleftrightarrow> i < n \<and> j < n \<and> j \<noteq> i"
| "gor_ok n (i, _) \<longleftrightarrow> i < n"

definition call_ok :: "nat \<Rightarrow> nat \<Rightarrow> 'c call \<Rightarrow> bool" where
  "call_ok n m c \<longleftrightarrow> c_from c < n \<and> c_to c < n \<and> c_to c \<noteq> c_from c \<and>
     (case c_req c of
        VoteReq a e \<Rightarrow> e < m \<and> (\<forall>r. c_rep c \<noteq> Some (AppendRep r))
      | AppendReq a \<Rightarrow> 0 \<le> AEA_PrevLogIndex a \<and> (\<forall>r. c_rep c \<noteq> Some (VoteRep r)))"

definition cluster_ok :: "nat \<Rightarrow> 'c cluster \<Rightarrow> bool" where
  "cluster_ok n s \<longleftrightarrow> peers_ok n (servers s) \<and> length (mains s) = n \<and>
     list_all (gor_ok n) (gors s) \<and> list_all (call_ok n (length (elections s))) (calls s)"

lemma peers_ok_nth: "peers_ok n ss \<Longrightarrow> i < n \<Longrightarrow> peer_ok n i (ss ! i)"
  by (simp add: peers_ok_def)

lemma peers_ok_upd: "peers_ok n ss \<Longrightarrow> peer_ok n i rf \<Longrightarrow> peers_ok n (ss[i := rf])"
  by (auto simp: peers_ok_def nth_list_update_cases)

lemma call_ok_mono: "call_ok n m c \<Longrightarrow> m \<le> m' \<Longrightarrow> call_ok n m' c"
  by (auto simp: call_ok_def split: request.splits)

lemma call_ok_returned [simp]: "call_ok n m (c\<lparr>c_returned := b\<rparr>) = call_ok n m c"
  by (cases "c_req c") (simp_all add: call_ok_def)

lemma gor_ok_fst: "gor_ok n (i, g) \<Longrightarrow> i < n"
  by (cases g) auto

lemma gor_ok_done: "gor_ok n (i, g) \<Longrightarrow> gor_ok n (i, GDone)"
  by (simp add: gor_ok_fst)

lemma cluster_okD:
  assumes "cluster_ok n s"
  shows "length (servers s) = n" "\<And>i. i < n \<Longrightarrow> peer_ok n i (servers s ! i)"
    "\<And>k. k < length (gors s) \<Longrightarrow> gor_ok n (gors s ! k)"
    "\<And>k. k < length (calls s) \<Longrightarrow> call_ok n (length (elections s)) (calls s ! k)"
  using assms by (auto simp: cluster_ok_def peers_ok_def list_all_nthD)

lemma cluster_ok_server:
  "cluster_ok n s \<Longrightarrow> peer_ok n i rf \<Longrightarrow> cluster_ok n (s\<lparr>servers := (servers s)[i := rf]\<rparr>)"
  by (simp add: cluster_ok_def peers_ok_upd)

lemma init_cluster_ok: "cluster_ok n (init_cluster n)"
  by (auto simp: cluster_ok_def init_cluster_def peers_ok_def disk_ok_def intro!: Make_ok)

subsection \<open>Every step keeps it\<close>

lemma peers_but_me:
  assumes "peer_ok n i rf" and "j \<in> set (StartAppendLog_peers rf)"
  shows "j < n" "j \<noteq> i"
  using assms by (auto simp: StartAppendLog_peers_def peer_ok_def)

lemma startElection_peers_eq: "startElection_peers rf = StartAppendLog_peers rf"
  by (simp add: startElection_peers_def StartAppendLog_peers_def)

lemma main_steps_ok:
  assumes ok: "cluster_ok n s" and i: "i < n"
  shows "cluster_ok n (main_read i s)" "cluster_ok n (main_vote i s)"
    "cluster_ok n (main_append i s)" "cluster_ok n (main_timeout i s)"
    "cluster_ok n (main_leader i s)"
proof -
  have p: "peer_ok n i (servers s ! i)" using cluster_okD(2) [OF ok i] .
  have ch: "length (tl (voteCh (servers s ! i))) \<le> 1" "length (tl (appendLogCh (servers s ! i))) \<le> 1"
    using peer_ok_chans [OF p] by auto
  have "peer_ok n i ((servers s ! i)\<lparr>voteCh := tl (voteCh (servers s ! i))\<rparr>)"
    "peer_ok n i ((servers s ! i)\<lparr>appendLogCh := tl (appendLogCh (servers s ! i))\<rparr>)"
    by (rule peer_ok_quiet_update [OF p]; use ch peer_ok_chans [OF p] in simp)+
  then show "cluster_ok n (main_read i s)" "cluster_ok n (main_vote i s)"
    "cluster_ok n (main_append i s)" "cluster_ok n (main_timeout i s)"
    using ok i p
    by (auto simp: cluster_ok_def main_read_def main_vote_def main_append_def main_timeout_def
        Let_def peers_ok_upd BeCandidate_ok)
  show "cluster_ok n (main_leader i s)"
    using ok i peers_but_me [OF p]
    by (auto simp: cluster_ok_def main_leader_def list_all_iff)
qed

lemma run_goroutine_ok:
  assumes ok: "cluster_ok n s" and k: "k < length (gors s)" and res: "run_goroutine k s = Inr t"
  shows "cluster_ok n t"
proof -
  obtain i g where g: "gors s ! k = (i, g)" by (cases "gors s ! k")
  with cluster_okD(3) [OF ok k] have gok: "gor_ok n (i, g)" by simp
  then have i: "i < n" by (rule gor_ok_fst)
  have p: "peer_ok n i (servers s ! i)" using cluster_okD(2) [OF ok i] .
  have gs: "list_all (gor_ok n) ((gors s)[k := (i, GDone)])"
    using ok gor_ok_done [OF gok] by (auto intro: list_all_upd simp: cluster_ok_def)
  show ?thesis
  proof (cases g)
    case GElect
    then obtain arg where t: "t = s\<lparr>gors := (gors s)[k := (i, GDone)],
        elections := elections s @ [\<lparr>e_srv = i, e_arg = arg, e_count = 1\<rparr>],
        calls := calls s @ map (\<lambda>j. new_call i j (VoteReq arg (length (elections s))))
                   (startElection_peers (servers s ! i))\<rparr>"
      using res g by (auto simp: run_goroutine_def gbind_eq_Inr Let_def)
    have "list_all (call_ok n (Suc (length (elections s)))) (calls s)"
      using ok by (auto simp: cluster_ok_def list_all_iff intro: call_ok_mono)
    then show ?thesis
      using ok gs i peers_but_me [OF p]
      by (auto simp: t cluster_ok_def list_all_iff new_call_def call_ok_def startElection_peers_eq)
  next
    case (GAppend j)
    then obtain oa where oa: "appendLog_send (int j) (servers s ! i) = Inr oa"
      and t: "t = (case oa of None \<Rightarrow> s\<lparr>gors := (gors s)[k := (i, GDone)]\<rparr>
        | Some args \<Rightarrow> s\<lparr>gors := (gors s)[k := (i, GDone)],
                         calls := calls s @ [new_call i j (AppendReq args)]\<rparr>)"
      using res g by (auto simp: run_goroutine_def gbind_eq_Inr)
    show ?thesis
    proof (cases oa)
      case None
      with ok gs show ?thesis by (simp add: t cluster_ok_def)
    next
      case (Some args)
      with oa have "0 \<le> AEA_PrevLogIndex args" using appendLog_send_some(4) by blast
      with ok gs gok GAppend Some show ?thesis
        by (auto simp: t cluster_ok_def new_call_def call_ok_def)
    qed
  next
    case GDone
    with res g ok show ?thesis by (simp add: run_goroutine_def)
  qed
qed

lemma deliver_ok:
  assumes ok: "cluster_ok n s" and k: "k < length (calls s)"
  shows "\<exists>t. deliver k s = Inr t \<and> cluster_ok n t"
proof -
  let ?c = "calls s ! k"
  have c: "call_ok n (length (elections s)) ?c" using cluster_okD(4) [OF ok k] .
  then have to: "c_to ?c < n" by (simp add: call_ok_def)
  have p: "peer_ok n (c_to ?c) (servers s ! c_to ?c)" using cluster_okD(2) [OF ok to] .
  have upd: "cluster_ok n (s\<lparr>servers := (servers s)[c_to ?c := rf],
      calls := (calls s)[k := ?c\<lparr>c_rep := Some r\<rparr>]\<rparr>)"
    if "peer_ok n (c_to ?c) rf" and "call_ok n (length (elections s)) (?c\<lparr>c_rep := Some r\<rparr>)" for rf r
    using ok that by (auto simp: cluster_ok_def peers_ok_upd intro: list_all_upd)
  show ?thesis
  proof (cases "c_req ?c")
    case (VoteReq a e)
    from RequestVote_ok [OF p] obtain rf reply where
      "RequestVote a (servers s ! c_to ?c) = Inr (rf, reply)" "peer_ok n (c_to ?c) rf" by blast
    moreover have "call_ok n (length (elections s)) (?c\<lparr>c_rep := Some (VoteRep reply)\<rparr>)"
      using c VoteReq by (simp add: call_ok_def)
    ultimately show ?thesis
      using ok VoteReq upd by (auto simp: deliver_def Let_def)
  next
    case (AppendReq a)
    with c have "0 \<le> AEA_PrevLogIndex a" by (simp add: call_ok_def)
    from AppendEntries_ok [OF p this] obtain rf reply where
      "AppendEntries a (servers s ! c_to ?c) = Inr (rf, reply)" "peer_ok n (c_to ?c) rf" by blast
    moreover have "call_ok n (length (elections s)) (?c\<lparr>c_rep := Some (AppendRep reply)\<rparr>)"
      using c AppendReq by (simp add: call_ok_def)
    ultimately show ?thesis
      using ok AppendReq upd by (auto simp: deliver_def Let_def)
  qed
qed

lemma return_failed_ok: "cluster_ok n s \<Longrightarrow> k < length (calls s) \<Longrightarrow> cluster_ok n (return_failed k s)"
  by (auto simp: return_failed_def cluster_ok_def list_all_nthD intro: list_all_upd)

lemma return_reply_ok:
  assumes ok: "cluster_ok n s" and k: "k < length (calls s)" and res: "return_reply k s = Inr t"
  shows "cluster_ok n t"
proof -
  let ?c = "calls s ! k"
  have c: "call_ok n (length (elections s)) ?c" using cluster_okD(4) [OF ok k] .
  then have from_n: "c_from ?c < n" by (simp add: call_ok_def)
  have p: "peer_ok n (c_from ?c) (servers s ! c_from ?c)" using cluster_okD(2) [OF ok from_n] .
  have cs: "list_all (call_ok n (length (elections s))) ((calls s)[k := ?c\<lparr>c_returned := True\<rparr>])"
    using ok c by (auto simp: cluster_ok_def intro: list_all_upd)
  show ?thesis
  proof (cases "c_returned ?c \<or> c_rep ?c = None")
    case True
    with res ok show ?thesis
      by (auto simp: return_reply_def Let_def split: request.splits response.splits if_splits)
  next
    case False
    then obtain r where r: "c_rep ?c = Some r" and nr: "\<not> c_returned ?c" by auto
    show ?thesis
    proof (cases "c_req ?c")
      case (VoteReq a e)
      with c r obtain v where v: "r = VoteRep v" by (cases r) (auto simp: call_ok_def)
      with res r nr VoteReq obtain rf cnt where
        se: "startElection_reply a v (servers s ! c_from ?c) (e_count (elections s ! e)) = Inr (rf, cnt)"
        and t: "t = s\<lparr>servers := (servers s)[c_from ?c := rf],
                 elections := (elections s)[e := (elections s ! e)\<lparr>e_count := cnt\<rparr>],
                 calls := (calls s)[k := ?c\<lparr>c_returned := True\<rparr>]\<rparr>"
        by (auto simp: return_reply_def Let_def gbind_eq_Inr split: if_splits)
      from startElection_reply_ok [OF p, of a v "e_count (elections s ! e)"] se
      have "peer_ok n (c_from ?c) rf" by auto
      with ok cs show ?thesis by (simp add: t cluster_ok_def peers_ok_upd)
    next
      case (AppendReq a)
      with c r obtain v where v: "r = AppendRep v" by (cases r) (auto simp: call_ok_def)
      with res r nr AppendReq obtain rf cont where
        al: "appendLog_reply (int (c_to ?c)) v (servers s ! c_from ?c) = Inr (rf, cont)"
        and t: "t = s\<lparr>servers := (servers s)[c_from ?c := rf],
                 gors := (if cont then gors s @ [(c_from ?c, GAppend (c_to ?c))] else gors s),
                 calls := (calls s)[k := ?c\<lparr>c_returned := True\<rparr>]\<rparr>"
        by (auto simp: return_reply_def Let_def gbind_eq_Inr split: if_splits)
      have "peer_ok n (c_from ?c) rf" using appendLog_reply_ok [OF p al] .
      with ok cs c show ?thesis by (auto simp: t cluster_ok_def peers_ok_upd call_ok_def)
    qed
  qed
qed

lemma crash_restart_ok:
  assumes ok: "cluster_ok n s" and i: "i < n"
  shows "cluster_ok n (crash_restart i s)"
proof -
  have p: "peer_ok n i (servers s ! i)" using cluster_okD(2) [OF ok i] .
  let ?ps = "persister (servers s ! i)"
  have "disk_ok (ReadRaftState (Copy (crash1_saved ?ps)))"
    using p by (simp add: peer_ok_def raftdata_def)
  from Make_ok [OF this] p have "peer_ok n i (Make (peers (servers s ! i)) (me (servers s ! i))
      (Copy (crash1_saved ?ps)))" by (simp add: peer_ok_def)
  then show ?thesis
    using ok i by (auto simp: crash_restart_def Let_def cluster_ok_def peers_ok_upd list_all_iff
        intro: gor_ok_done)
qed

lemma step_ok:
  assumes ok: "cluster_ok n s" and "step e s = Inr t"
  shows "cluster_ok n t"
proof -
  have [simp]: "length (servers s) = n" using cluster_okD(1) [OF ok] .
  show ?thesis
  proof (cases e)
    case (Deliver k)
    with assms show ?thesis using deliver_ok [OF ok, of k] by (auto split: if_splits)
  next
    case (Client i c)
    with assms show ?thesis
      using cluster_okD(2) [OF ok] by (auto simp: client_start_def cluster_ok_server Start_ok)
  qed (use assms in \<open>auto simp: main_steps_ok return_failed_ok crash_restart_ok
         dest: run_goroutine_ok return_reply_ok split: if_splits\<close>)
qed

interpretation wf_cluster: inductive_invariant "starts n" cluster_step "cluster_ok n" for n
  by unfold_locales (auto simp: starts_def cluster_step_def init_cluster_ok dest: step_ok)

section \<open>Terms, and where a run-time panic can come from\<close>

lemma quiet_RequestVote_term:
  "RequestVote a rf = Inr (rf', r) \<Longrightarrow> Log rf \<noteq> [] \<Longrightarrow> CurrentTerm rf \<le> CurrentTerm rf'"
  using RequestVote_log(4) by fastforce

definition terms_le :: "nat \<Rightarrow> 'c Raft list \<Rightarrow> 'c Raft list \<Rightarrow> bool" where
  "terms_le n ss ss' \<longleftrightarrow> (\<forall>j<n. CurrentTerm (ss ! j) \<le> CurrentTerm (ss' ! j))"

lemma terms_le_refl [simp]: "terms_le n ss ss"
  by (simp add: terms_le_def)

lemma terms_le_upd:
  "length ss = n \<Longrightarrow> CurrentTerm (ss ! i) \<le> CurrentTerm rf \<Longrightarrow> terms_le n ss (ss[i := rf])"
  by (simp add: terms_le_def nth_list_update_cases)

lemma terms_le_deliver:
  assumes "deliver k s = Inr t" and "length (servers s) = n"
    and "Log (servers s ! c_to (calls s ! k)) \<noteq> []"
  shows "terms_le n (servers s) (servers t)"
  using assms
  by (auto simp: deliver_def Let_def gbind_eq_Inr
      intro!: terms_le_upd intro: quiet_RequestVote_term quiet_term_le [OF AppendEntries_quiet]
      split: if_splits request.splits)

lemma reply_terms:
  "appendLog_reply j v rf = Inr (rf', x) \<Longrightarrow> CurrentTerm rf \<le> CurrentTerm rf'"
  "startElection_reply a w rf m = Inr (rf', y) \<Longrightarrow> CurrentTerm rf \<le> CurrentTerm rf'"
proof -
  assume "appendLog_reply j v rf = Inr (rf', x)"
  then show "CurrentTerm rf \<le> CurrentTerm rf'" using appendLog_reply_quiet quiet_term_le by blast
next
  assume "startElection_reply a w rf m = Inr (rf', y)"
  from startElection_reply_outcome [OF this] show "CurrentTerm rf \<le> CurrentTerm rf'"
    by (auto dest: quiet_term_le)
qed

lemma terms_le_reply:
  assumes "return_reply k s = Inr t" and "length (servers s) = n"
  shows "terms_le n (servers s) (servers t)"
  using assms
  by (auto simp: return_reply_def Let_def gbind_eq_Inr intro!: terms_le_upd intro: reply_terms
      split: if_splits request.splits response.splits option.splits)

lemma stable_step_terms:
  assumes ok: "cluster_ok n s" and st: "stable_step s t"
  shows "terms_le n (servers s) (servers t)"
proof -
  have len: "length (servers s) = n" using cluster_okD(1) [OF ok] .
  from st obtain e where nc: "\<not> is_crash e" and res: "step e s = Inr t"
    by (auto simp: stable_step_def)
  show ?thesis
  proof (cases e)
    case (Deliver k)
    have "Log (servers s ! c_to (calls s ! k)) \<noteq> []" if "k < length (calls s)"
      using cluster_okD(4) [OF ok that] cluster_okD(2) [OF ok] peer_ok_log by (auto simp: call_ok_def)
    with Deliver res len show ?thesis by (auto intro: terms_le_deliver split: if_splits)
  next
    case (Reply k)
    with res len show ?thesis by (auto intro: terms_le_reply split: if_splits)
  next
    case (RunGoroutine k)
    with res show ?thesis
      by (auto simp: run_goroutine_def gbind_eq_Inr Let_def
          split: if_splits prod.splits goroutine.splits option.splits)
  next
    case (Client i c)
    have "CurrentTerm (servers s ! i) \<le> CurrentTerm (fst (Start c (servers s ! i)))"
      by (auto simp: Start_def Let_def)
    with Client res len show ?thesis by (auto simp: client_start_def intro: terms_le_upd split: if_splits)
  qed (use res nc len in \<open>auto simp: main_read_def main_vote_def main_append_def main_timeout_def
        main_leader_def return_failed_def Let_def intro!: terms_le_upd split: if_splits\<close>)
qed

text \<open>The goroutines that replicate the log are the only ones that can panic.\<close>

fun replicates :: "'c event \<Rightarrow> 'c cluster \<Rightarrow> bool" where
  "replicates (RunGoroutine k) s = (\<exists>i j. gors s ! k = (i, GAppend j))"
| "replicates (Reply k) s = (\<exists>a. c_req (calls s ! k) = AppendReq a)"
| "replicates _ s = False"

lemma step_no_panic:
  assumes ok: "cluster_ok n s" and nr: "\<not> replicates e s"
  shows "\<exists>t. step e s = Inr t"
proof (cases e)
  case (RunGoroutine k)
  show ?thesis
  proof (cases "k < length (gors s)")
    case True
    obtain i g where g: "gors s ! k = (i, g)" by (cases "gors s ! k")
    have "i < n" using cluster_okD(3) [OF ok True] g by (auto intro: gor_ok_fst)
    then obtain a where "startElection_arg (servers s ! i) = Inr a"
      using startElection_arg_ok [OF cluster_okD(2) [OF ok]] by blast
    with g nr RunGoroutine True show ?thesis
      by (cases g) (auto simp: run_goroutine_def Let_def)
  qed (simp add: RunGoroutine)
next
  case (Deliver k)
  with deliver_ok [OF ok] show ?thesis by (auto split: if_splits)
next
  case (Reply k)
  show ?thesis
  proof (cases "k < length (calls s)")
    case True
    let ?c = "calls s ! k"
    have co: "call_ok n (length (elections s)) ?c" using cluster_okD(4) [OF ok True] .
    then have fr: "c_from ?c < n" by (simp add: call_ok_def)
    from nr Reply obtain a el where rq: "c_req ?c = VoteReq a el" by (cases "c_req ?c") auto
    show ?thesis
    proof (cases "c_returned ?c \<or> c_rep ?c = None")
      case True
      then show ?thesis using Reply rq by (auto simp: return_reply_def Let_def)
    next
      case False
      with co rq obtain v where "c_rep ?c = Some (VoteRep v)"
        by (auto simp: call_ok_def) (metis response.exhaust)
      with startElection_reply_ok [OF cluster_okD(2) [OF ok fr], of a v "e_count (elections s ! el)"]
        False rq Reply True show ?thesis by (auto simp: return_reply_def Let_def)
    qed
  qed (simp add: Reply)
qed simp_all

end
