(* ===== verification/Raft_Election.thy ===== *)
theory Raft_Election
  imports Raft_Wellformed
begin

text \<open>
  Elections: in every reachable state of a cluster, crashes and restarts included, two
  leaders of the same term are the same peer. The argument is the one of the protocol: a
  granted vote is on disk before the reply leaves, so a peer never grants its vote of a
  term twice, and a leader has the votes of a majority (its own included). A peer's vote for
  itself is not on disk (\<open>BeCandidate\<close> does not persist); the proof accounts for it by the
  peer's present role, which a crash resets.
\<close>

section \<open>Votes that have been granted\<close>

definition grant_of :: "'c call \<Rightarrow> (nat \<times> int \<times> nat) option" where
  "grant_of c = (case (c_req c, c_rep c) of
     (VoteReq a e, Some (VoteRep r)) \<Rightarrow>
       if RVR_VoteGranted r then Some (c_to c, RVA_Term a, c_from c) else None
   | _ \<Rightarrow> None)"

definition granted :: "'c call list \<Rightarrow> (nat \<times> int \<times> nat) set" where
  "granted cs = {g. \<exists>c \<in> set cs. grant_of c = Some g}"

definition counted :: "'c call list \<Rightarrow> nat \<Rightarrow> nat set" where
  "counted cs e = {c_to c |c. c \<in> set cs \<and> c_returned c \<and> grant_of c \<noteq> None \<and>
                              (\<exists>a. c_req c = VoteReq a e)}"

definition vote_key :: "'c call \<Rightarrow> (nat \<times> nat) option" where
  "vote_key c = (case c_req c of VoteReq a e \<Rightarrow> Some (e, c_to c) | AppendReq a \<Rightarrow> None)"

lemma granted_append [simp]: "granted (cs @ ds) = granted cs \<union> granted ds"
  by (auto simp: granted_def)

lemma granted_upd:
  assumes "k < length cs" and "grant_of (cs ! k) = None \<or> grant_of (cs ! k) = grant_of c"
  shows "granted (cs[k := c]) = granted cs \<union> granted [c]"
proof -
  have nth: "g \<in> granted cs \<longleftrightarrow> (\<exists>i<length cs. grant_of (cs ! i) = Some g)" for g and cs :: "'a call list"
    using bex_set_nth [of cs "\<lambda>c. grant_of c = Some g"] by (simp add: granted_def)
  have "g \<in> granted (cs[k := c]) \<longleftrightarrow> g \<in> granted cs \<or> grant_of c = Some g" for g
  proof
    assume "g \<in> granted (cs[k := c])"
    then obtain i where "i < length cs" "grant_of (cs[k := c] ! i) = Some g" by (auto simp: nth)
    then show "g \<in> granted cs \<or> grant_of c = Some g"
      by (cases "i = k") (auto simp: nth)
  next
    assume "g \<in> granted cs \<or> grant_of c = Some g"
    then show "g \<in> granted (cs[k := c])"
    proof
      assume "g \<in> granted cs"
      then obtain i where i: "i < length cs" "grant_of (cs ! i) = Some g" by (auto simp: nth)
      then have "grant_of (cs[k := c] ! i) = Some g" using assms by (cases "i = k") auto
      with i(1) show ?thesis unfolding nth by auto
    next
      assume "grant_of c = Some g"
      with assms(1) show ?thesis unfolding nth by (intro exI [of _ k]) simp
    qed
  qed
  then show ?thesis by (auto simp: granted_def)
qed

lemma granted_map:
  assumes "\<And>c. grant_of (f c) = grant_of c"
  shows "granted (map f cs) = granted cs"
  by (simp add: granted_def assms)

lemma grant_of_new_call [simp]: "grant_of (new_call i j r) = None"
  by (simp add: grant_of_def new_call_def split: request.splits)

lemma grant_of_returned [simp]: "grant_of (c\<lparr>c_returned := b\<rparr>) = grant_of c"
  by (simp add: grant_of_def split: request.split option.split response.split)

lemma vote_key_simps [simp]:
  "vote_key (c\<lparr>c_returned := b\<rparr>) = vote_key c" "vote_key (c\<lparr>c_rep := r\<rparr>) = vote_key c"
  by (simp_all add: vote_key_def split: request.split)

lemma counted_finite [simp]: "finite (counted cs e)"
  by (rule finite_subset [of _ "c_to ` set cs"]) (auto simp: counted_def)

lemma counted_append_new: "counted cs e \<subseteq> counted (cs @ ds) e"
  by (auto simp: counted_def)

lemma counted_upd:
  assumes "k < length cs" and "c_to c = c_to (cs ! k)" "c_req c = c_req (cs ! k)"
    and "c_returned (cs ! k) \<Longrightarrow> c_returned c" "grant_of (cs ! k) \<noteq> None \<Longrightarrow> grant_of c \<noteq> None"
  shows "counted cs e \<subseteq> counted (cs[k := c]) e"
proof
  fix v assume "v \<in> counted cs e"
  then obtain i where i: "i < length cs" "v = c_to (cs ! i)" "c_returned (cs ! i)"
    "grant_of (cs ! i) \<noteq> None" "\<exists>a. c_req (cs ! i) = VoteReq a e"
    by (auto simp: counted_def in_set_conv_nth)
  let ?d = "cs[k := c] ! i"
  have "?d \<in> set (cs[k := c])" using i(1) by (simp add: nth_mem)
  moreover have "c_to ?d = v" "c_returned ?d" "grant_of ?d \<noteq> None" "\<exists>a. c_req ?d = VoteReq a e"
    using i assms by (auto simp: nth_list_update_cases)
  ultimately show "v \<in> counted (cs[k := c]) e" by (auto simp: counted_def)
qed

lemma distinct_filter_nth:
  "distinct (filter P xs) \<Longrightarrow> i < length xs \<Longrightarrow> j < length xs \<Longrightarrow> xs ! i = xs ! j \<Longrightarrow> P (xs ! i) \<Longrightarrow> i = j"
proof (induction xs arbitrary: i j)
  case (Cons x xs)
  show ?case
  proof (cases i; cases j)
    fix i' j' assume "i = Suc i'" "j = Suc j'"
    with Cons show ?thesis by (auto split: if_splits)
  next
    fix j' assume "i = 0" "j = Suc j'"
    with Cons.prems show ?thesis by (auto split: if_splits)
  next
    fix i' assume "i = Suc i'" "j = 0"
    with Cons.prems show ?thesis by (auto split: if_splits)
  qed simp
qed simp

section \<open>The invariant\<close>

subsection \<open>Peers and granted votes\<close>

definition disk_bound :: "'c gob list \<Rightarrow> int \<Rightarrow> nat \<Rightarrow> bool" where
  "disk_bound d T c \<longleftrightarrow> (\<exists>t v l. d = [GInt t, GInt v, GLog l] \<and> T \<le> t \<and> (t = T \<longrightarrow> v = int c))"

definition vote_bound :: "'c Raft \<Rightarrow> int \<Rightarrow> nat \<Rightarrow> bool" where
  "vote_bound rf T c \<longleftrightarrow> T \<le> CurrentTerm rf \<and> (CurrentTerm rf = T \<longrightarrow> VoteFor rf = int c) \<and>
     disk_bound (raftdata rf) T c"

definition votes_for :: "(nat \<times> int \<times> nat) set \<Rightarrow> int \<Rightarrow> nat \<Rightarrow> nat set" where
  "votes_for G T c = insert c {v. (v, T, c) \<in> G}"

definition ginv :: "nat \<Rightarrow> 'c Raft list \<Rightarrow> (nat \<times> int \<times> nat) set \<Rightarrow> bool" where
  "ginv n ss G \<longleftrightarrow>
     (\<forall>v T c. (v, T, c) \<in> G \<longrightarrow> v < n \<and> c < n \<and> vote_bound (ss ! v) T c) \<and>
     (\<forall>v T c d. (v, T, c) \<in> G \<longrightarrow> (v, T, d) \<in> G \<longrightarrow> c = d) \<and>
     (\<forall>i<n. State (ss ! i) \<noteq> Follower \<longrightarrow> VoteFor (ss ! i) = int i) \<and>
     (\<forall>i<n. State (ss ! i) = Leader \<longrightarrow> majority n (votes_for G (CurrentTerm (ss ! i)) i))"

text \<open>What a peer may do without touching any of this.\<close>

definition keeps :: "nat \<Rightarrow> 'c Raft \<Rightarrow> 'c Raft \<Rightarrow> bool" where
  "keeps i rf rf' \<longleftrightarrow> (\<forall>T c. vote_bound rf T c \<longrightarrow> vote_bound rf' T c) \<and>
     ((State rf \<noteq> Follower \<longrightarrow> VoteFor rf = int i) \<longrightarrow> State rf' \<noteq> Follower \<longrightarrow> VoteFor rf' = int i) \<and>
     (State rf' = Leader \<longrightarrow> State rf = Leader \<and> CurrentTerm rf' = CurrentTerm rf)"

lemma disk_bound_saved:
  "disk_bound (saved rf) T c \<longleftrightarrow> T \<le> CurrentTerm rf \<and> (CurrentTerm rf = T \<longrightarrow> VoteFor rf = int c)"
  by (auto simp: disk_bound_def saved_def)

lemma keeps_quiet: "quiet rf rf' \<Longrightarrow> keeps i rf rf'"
  by (auto simp: keeps_def quiet_def vote_bound_def disk_bound_saved)

lemma keeps_BeCandidate: "me rf = int i \<Longrightarrow> keeps i rf (BeCandidate rf)"
  by (auto simp: keeps_def vote_bound_def)

lemma keeps_restart:
  assumes "ReadRaftState ps = raftdata rf"
  shows "keeps i rf (Make p m ps)"
  using assms by (auto simp: keeps_def vote_bound_def disk_bound_def Make_fields Make_saved)

lemma ginv_keeps:
  assumes "ginv n ss G" and "i < n" and "length ss = n" and "keeps i (ss ! i) rf"
  shows "ginv n (ss[i := rf]) G"
  using assms by (auto simp: ginv_def keeps_def nth_list_update_cases)

lemma ginv_leader:
  assumes "ginv n ss G" and "i < n" and "length ss = n"
    and "majority n (votes_for G (CurrentTerm (ss ! i)) i)" and "State (ss ! i) = Candidate"
  shows "ginv n (ss[i := (BeLeader (ss ! i))\<lparr>voteCh := ch\<rparr>]) G"
  using assms by (auto simp: ginv_def nth_list_update_cases vote_bound_def)

lemma ginv_grant:
  assumes inv: "ginv n ss G" and v: "v < n" "length ss = n" and c: "c < n"
    and rv: "RequestVote args (ss ! v) = Inr (rf', reply)" "Log (ss ! v) \<noteq> []" "RVR_VoteGranted reply"
    and cand: "RVA_CandidateId args = int c"
  shows "ginv n (ss[v := rf']) (insert (v, RVA_Term args, c) G)"
proof -
  let ?rf = "ss ! v"
  note g = RequestVote_granted [OF rv]
  have new: "vote_bound rf' (RVA_Term args) c"
    using g by (simp add: vote_bound_def disk_bound_saved cand)
  have same: "d = c" if "(v, RVA_Term args, d) \<in> G" for d
  proof -
    from inv that have b: "vote_bound ?rf (RVA_Term args) d" by (auto simp: ginv_def)
    with g(2) have "CurrentTerm ?rf = RVA_Term args" "VoteFor ?rf = int d"
      by (auto simp: vote_bound_def)
    with g(5) cand show ?thesis by auto
  qed
  have old: "vote_bound rf' T d" if "(v, T, d) \<in> G" for T d
  proof (cases "T = RVA_Term args")
    case True
    with that same new show ?thesis by auto
  next
    case False
    from inv that have "vote_bound ?rf T d" by (auto simp: ginv_def)
    with False g(1,2,4) show ?thesis by (auto simp: vote_bound_def disk_bound_saved)
  qed
  have role: "State rf' \<noteq> Follower \<Longrightarrow> VoteFor rf' = int v \<and> State ?rf = State rf' \<and>
      CurrentTerm rf' = CurrentTerm ?rf"
    using inv v(1) g by (auto simp: ginv_def)
  have maj: "majority n (votes_for (insert (v, RVA_Term args, c) G) T i)"
    if "majority n (votes_for G T i)" for T i
    using that v(1) by (rule_tac majority_mono [OF that]) (auto simp: votes_for_def majority_def)
  show ?thesis
    using inv v c new old same role maj
    by (auto simp: ginv_def nth_list_update_cases)
qed

subsection \<open>Elections and their calls\<close>

definition vcall_ok :: "election list \<Rightarrow> 'c call \<Rightarrow> bool" where
  "vcall_ok els c \<longleftrightarrow> (\<forall>a e. c_req c = VoteReq a e \<longrightarrow> e < length els \<and> e_arg (els ! e) = a \<and>
     e_srv (els ! e) = c_from c \<and> RVA_CandidateId a = int (c_from c))"

definition cinv :: "election list \<Rightarrow> 'c call list \<Rightarrow> bool" where
  "cinv els cs \<longleftrightarrow>
     (\<forall>e<length els. e_count (els ! e) \<le> 1 + int (card (counted cs e))) \<and>
     list_all (vcall_ok els) cs \<and>
     distinct (filter (\<lambda>x. x \<noteq> None) (map vote_key cs))"

lemma cinv_upd:
  assumes inv: "cinv els cs" and k: "k < length cs"
    and c: "c_from c = c_from (cs ! k)" "c_to c = c_to (cs ! k)" "c_req c = c_req (cs ! k)"
      "c_returned (cs ! k) \<Longrightarrow> c_returned c" "grant_of (cs ! k) \<noteq> None \<Longrightarrow> grant_of c \<noteq> None"
  shows "cinv els (cs[k := c])"
proof -
  have "card (counted cs e) \<le> card (counted (cs[k := c]) e)" for e
    by (rule card_mono) (auto intro: counted_upd [OF k c(2-5), THEN subsetD])
  then have "\<forall>e<length els. e_count (els ! e) \<le> 1 + int (card (counted (cs[k := c]) e))"
    using inv by (fastforce simp: cinv_def intro: order_trans)
  moreover have "vote_key c = vote_key (cs ! k)" using c(2,3) by (simp add: vote_key_def split: request.split)
  then have "map vote_key (cs[k := c]) = map vote_key cs"
    using k by (simp add: map_update list_update_same_conv)
  moreover have "vcall_ok els (cs ! k)" using inv k by (simp add: cinv_def list_all_nthD)
  then have "vcall_ok els c" using c(1,3) by (simp add: vcall_ok_def)
  then have "list_all (vcall_ok els) (cs[k := c])" using inv by (simp add: cinv_def list_all_upd)
  ultimately show ?thesis using inv by (simp add: cinv_def)
qed

lemma cinv_append_other:
  assumes "cinv els cs" and "c = new_call i j (AppendReq a)"
  shows "cinv els (cs @ [c])"
proof -
  have "card (counted cs e) \<le> card (counted (cs @ [c]) e)" for e
    by (rule card_mono) (auto intro: counted_append_new [THEN subsetD])
  then have "\<forall>e<length els. e_count (els ! e) \<le> 1 + int (card (counted (cs @ [c]) e))"
    using assms(1) by (fastforce simp: cinv_def intro: order_trans)
  with assms show ?thesis
    by (simp add: cinv_def vcall_ok_def vote_key_def new_call_def)
qed

lemma cinv_new_election:
  assumes inv: "cinv els cs" and dist: "distinct js"
    and el: "el = \<lparr>e_srv = i, e_arg = arg, e_count = 1\<rparr>" and cand: "RVA_CandidateId arg = int i"
  shows "cinv (els @ [el]) (cs @ map (\<lambda>j. new_call i j (VoteReq arg (length els))) js)"
    (is "cinv _ (cs @ ?new)")
proof -
  have "card (counted cs e) \<le> card (counted (cs @ ?new) e)" for e
    by (rule card_mono) (auto intro: counted_append_new [THEN subsetD])
  then have "\<forall>e<length els. e_count (els ! e) \<le> 1 + int (card (counted (cs @ ?new) e))"
    using inv by (fastforce simp: cinv_def intro: order_trans)
  then have cnt: "\<forall>e<length (els @ [el]). e_count ((els @ [el]) ! e) \<le> 1 + int (card (counted (cs @ ?new) e))"
    by (auto simp: nth_append el)
  have old: "list_all (vcall_ok (els @ [el])) cs"
    using inv by (auto simp: cinv_def list_all_iff vcall_ok_def nth_append)
  have new: "list_all (vcall_ok (els @ [el])) ?new"
    by (simp add: list_all_iff vcall_ok_def new_call_def el cand)
  have lt: "fst k < length els" if "Some k \<in> set (map vote_key cs)" for k
    using that inv by (auto simp: cinv_def list_all_iff vcall_ok_def vote_key_def split: request.splits)
  have keys: "map vote_key ?new = map (\<lambda>j. Some (length els, j)) js"
    by (simp add: vote_key_def new_call_def)
  have "distinct (filter (\<lambda>x. x \<noteq> None) (map vote_key ?new))"
    using dist by (simp only: keys) (simp add: distinct_map inj_on_def)
  moreover have "set (filter (\<lambda>x. x \<noteq> None) (map vote_key cs)) \<inter> set (map vote_key ?new) = {}"
    unfolding keys using lt [of "(length els, j)" for j] by auto
  ultimately have "distinct (filter (\<lambda>x. x \<noteq> None) (map vote_key (cs @ ?new)))"
    using inv by (auto simp: cinv_def)
  with cnt old new show ?thesis by (simp add: cinv_def)
qed

text \<open>The counter of an election never exceeds the votes counted, and the votes counted are
  granted votes of its term for its candidate.\<close>

lemma counted_votes:
  assumes "cinv els cs" and "e < length els"
  shows "counted cs e \<subseteq> {v. (v, RVA_Term (e_arg (els ! e)), e_srv (els ! e)) \<in> granted cs}"
proof
  fix v assume "v \<in> counted cs e"
  then obtain c a where c: "c \<in> set cs" "v = c_to c" "grant_of c \<noteq> None" "c_req c = VoteReq a e"
    by (auto simp: counted_def)
  with assms have "e_arg (els ! e) = a" "e_srv (els ! e) = c_from c"
    by (auto simp: cinv_def list_all_iff vcall_ok_def)
  moreover from c(3,4) have "grant_of c = Some (c_to c, RVA_Term a, c_from c)"
    by (auto simp: grant_of_def split: option.splits response.splits if_splits)
  ultimately show "v \<in> {v. (v, RVA_Term (e_arg (els ! e)), e_srv (els ! e)) \<in> granted cs}"
    using c(1,2) by (auto simp: granted_def)
qed

lemma counted_not_self:
  assumes "cinv els cs" and "list_all (call_ok n m) cs"
  shows "e_srv (els ! e) \<notin> counted cs e"
proof
  assume "e_srv (els ! e) \<in> counted cs e"
  then obtain c a where "c \<in> set cs" "c_to c = e_srv (els ! e)" "c_req c = VoteReq a e"
    by (auto simp: counted_def)
  with assms show False by (auto simp: cinv_def list_all_iff vcall_ok_def call_ok_def)
qed

lemma cinv_count:
  assumes inv: "cinv els cs" and k: "k < length cs" and nr: "\<not> c_returned (cs ! k)"
    and req: "c_req (cs ! k) = VoteReq a e"
    and cnt: "cnt \<le> e_count (els ! e) + (if grant_of (cs ! k) = None then 0 else 1)"
  shows "cinv (els[e := (els ! e)\<lparr>e_count := cnt\<rparr>]) (cs[k := (cs ! k)\<lparr>c_returned := True\<rparr>])"
    (is "cinv ?els ?cs")
proof -
  let ?c = "(cs ! k)\<lparr>c_returned := True\<rparr>"
  have base: "cinv els ?cs" by (rule cinv_upd [OF inv k]) auto
  have "vcall_ok els (cs ! k)" using inv k by (simp add: cinv_def list_all_nthD)
  with req have e: "e < length els" by (simp add: vcall_ok_def)
  have mono: "counted cs e \<subseteq> counted ?cs e" by (rule counted_upd [OF k]) auto
  have "cnt \<le> 1 + int (card (counted ?cs e))"
  proof (cases "grant_of (cs ! k) = None")
    case True
    have "e_count (els ! e) \<le> 1 + int (card (counted ?cs e))" using base e by (simp add: cinv_def)
    with cnt True show ?thesis by simp
  next
    case False
    have "?c \<in> set ?cs" using k by (simp add: set_update_memI)
    with False req have mem: "c_to (cs ! k) \<in> counted ?cs e"
      unfolding counted_def mem_Collect_eq by (intro exI [of _ ?c]) simp
    have fresh: "c_to (cs ! k) \<notin> counted cs e"
    proof
      assume "c_to (cs ! k) \<in> counted cs e"
      then obtain j a' where j: "j < length cs" "c_to (cs ! j) = c_to (cs ! k)"
        "c_returned (cs ! j)" "c_req (cs ! j) = VoteReq a' e"
        by (auto simp: counted_def in_set_conv_nth)
      have "map vote_key cs ! j = map vote_key cs ! k" "map vote_key cs ! j \<noteq> None"
        using j k req by (simp_all add: vote_key_def)
      then have "j = k"
        using inv j(1) k by (intro distinct_filter_nth [of "\<lambda>x. x \<noteq> None" "map vote_key cs"])
          (auto simp: cinv_def)
      with j(3) nr show False by simp
    qed
    have "Suc (card (counted cs e)) = card (insert (c_to (cs ! k)) (counted cs e))"
      using fresh by simp
    also have "\<dots> \<le> card (counted ?cs e)" using mem mono by (intro card_mono) auto
    finally have "int (card (counted cs e)) + 1 \<le> int (card (counted ?cs e))" by simp
    moreover have "e_count (els ! e) \<le> 1 + int (card (counted cs e))" using inv e by (simp add: cinv_def)
    ultimately show ?thesis using cnt False by simp
  qed
  moreover have "e_arg (?els ! x) = e_arg (els ! x)" "e_srv (?els ! x) = e_srv (els ! x)" for x
    by (cases "x = e \<and> x < length els"; auto simp: list_update_beyond)+
  then have "vcall_ok ?els c = vcall_ok els c" for c :: "'a call"
    by (simp add: vcall_ok_def)
  ultimately show ?thesis
    using base e by (auto simp: cinv_def nth_list_update_cases list_all_iff)
qed

subsection \<open>Every step keeps it\<close>

definition einv :: "nat \<Rightarrow> 'c cluster \<Rightarrow> bool" where
  "einv n s \<longleftrightarrow> cluster_ok n s \<and> ginv n (servers s) (granted (calls s)) \<and> cinv (elections s) (calls s)"

lemma einv_init: "einv n (init_cluster n)"
proof -
  have "cluster_ok n (init_cluster n :: 'a cluster)" by (rule init_cluster_ok)
  then show ?thesis
    by (auto simp: einv_def ginv_def cinv_def init_cluster_def granted_def Make_fields)
qed

lemma einv_keeps:
  assumes inv: "einv n s" and ok: "cluster_ok n t" and i: "i < n"
    and k: "keeps i (servers s ! i) rf" and ss: "servers t = (servers s)[i := rf]"
    and g: "granted (calls t) = granted (calls s)" and c: "cinv (elections t) (calls t)"
  shows "einv n t"
proof -
  have "length (servers s) = n" using inv by (simp add: einv_def cluster_okD)
  with inv i k have "ginv n ((servers s)[i := rf]) (granted (calls s))"
    by (auto simp: einv_def intro: ginv_keeps)
  with ok c show ?thesis by (simp add: einv_def ss g)
qed

lemma einv_same:
  assumes "einv n s" and "cluster_ok n t" and "servers t = servers s"
    and "granted (calls t) = granted (calls s)" and "cinv (elections t) (calls t)"
  shows "einv n t"
  using assms by (simp add: einv_def)

lemma einv_main:
  assumes inv: "einv n s" and i: "i < n"
  shows "einv n (main_read i s)" "einv n (main_vote i s)" "einv n (main_append i s)"
    "einv n (main_timeout i s)" "einv n (main_leader i s)"
proof -
  have ok: "cluster_ok n s" and c: "cinv (elections s) (calls s)" using inv by (auto simp: einv_def)
  note m = main_steps_ok [OF ok i]
  have me: "me (servers s ! i) = int i" using cluster_okD(2) [OF ok i] by (simp add: peer_ok_def)
  have q: "quiet rf (rf\<lparr>voteCh := x\<rparr>)" "quiet rf (rf\<lparr>appendLogCh := x\<rparr>)" for rf :: "'a Raft" and x
    by (simp_all add: quiet_def)
  show "einv n (main_read i s)" "einv n (main_leader i s)"
    using c m by (auto intro!: einv_same [OF inv] simp: main_read_def main_leader_def)
  show "einv n (main_vote i s)"
  proof (cases "mains s ! i = InSelect \<and> voteCh (servers s ! i) \<noteq> []")
    case True
    then show ?thesis
      using c m(2) by (intro einv_keeps [OF inv m(2) i keeps_quiet [OF q(1)]]) (auto simp: main_vote_def Let_def)
  qed (use inv in \<open>auto simp: main_vote_def Let_def\<close>)
  show "einv n (main_append i s)"
  proof (cases "mains s ! i = InSelect \<and> appendLogCh (servers s ! i) \<noteq> []")
    case True
    then show ?thesis
      using c m(3) by (intro einv_keeps [OF inv m(3) i keeps_quiet [OF q(2)]]) (auto simp: main_append_def Let_def)
  qed (use inv in \<open>auto simp: main_append_def Let_def\<close>)
  show "einv n (main_timeout i s)"
  proof (cases "mains s ! i = InSelect")
    case True
    then show ?thesis
      using c m(4) by (intro einv_keeps [OF inv m(4) i keeps_BeCandidate [OF me]]) (auto simp: main_timeout_def)
  qed (use inv in \<open>auto simp: main_timeout_def\<close>)
qed

lemma einv_goroutine:
  assumes inv: "einv n s" and k: "k < length (gors s)" and res: "run_goroutine k s = Inr t"
  shows "einv n t"
proof -
  have ok: "cluster_ok n s" and c: "cinv (elections s) (calls s)" using inv by (auto simp: einv_def)
  note okt = run_goroutine_ok [OF ok k res]
  obtain i g where g: "gors s ! k = (i, g)" by (cases "gors s ! k")
  have i: "i < n" using cluster_okD(3) [OF ok k] g by (auto intro: gor_ok_fst)
  have me: "me (servers s ! i) = int i" using cluster_okD(2) [OF ok i] by (simp add: peer_ok_def)
  show ?thesis
  proof (cases g)
    case GElect
    with res g obtain arg where arg: "startElection_arg (servers s ! i) = Inr arg"
      and t: "t = s\<lparr>gors := (gors s)[k := (i, GDone)],
        elections := elections s @ [\<lparr>e_srv = i, e_arg = arg, e_count = 1\<rparr>],
        calls := calls s @ map (\<lambda>j. new_call i j (VoteReq arg (length (elections s))))
                   (startElection_peers (servers s ! i))\<rparr>"
      by (auto simp: run_goroutine_def gbind_eq_Inr Let_def)
    have "RVA_CandidateId arg = int i" using startElection_arg_fields(2) [OF arg] me by simp
    moreover have "distinct (startElection_peers (servers s ! i))" by (simp add: startElection_peers_def)
    ultimately have "cinv (elections t) (calls t)"
      unfolding t by (simp add: cinv_new_election [OF c])
    moreover have "granted (calls t) = granted (calls s)" by (simp add: t) (auto simp: granted_def)
    ultimately show ?thesis using okt by (intro einv_same [OF inv]) (auto simp: t)
  next
    case (GAppend j)
    with res g obtain oa where
      t: "t = (case oa of None \<Rightarrow> s\<lparr>gors := (gors s)[k := (i, GDone)]\<rparr>
        | Some args \<Rightarrow> s\<lparr>gors := (gors s)[k := (i, GDone)],
                         calls := calls s @ [new_call i j (AppendReq args)]\<rparr>)"
      by (auto simp: run_goroutine_def gbind_eq_Inr)
    have "granted (calls t) = granted (calls s)" by (cases oa) (auto simp: t granted_def)
    moreover have "cinv (elections t) (calls t)"
      using c by (cases oa) (simp_all add: t cinv_append_other)
    ultimately show ?thesis using okt by (intro einv_same [OF inv]) (auto simp: t split: option.splits)
  next
    case GDone
    with res g inv show ?thesis by (simp add: run_goroutine_def)
  qed
qed

lemma einv_vote_request:
  assumes inv: "einv n s" and k: "k < length (calls s)" and okt: "cluster_ok n t"
    and none: "c_rep (calls s ! k) = None" and req: "c_req (calls s ! k) = VoteReq a e"
    and rv: "RequestVote a (servers s ! c_to (calls s ! k)) = Inr (rf, reply)"
    and t: "t = s\<lparr>servers := (servers s)[c_to (calls s ! k) := rf],
                 calls := (calls s)[k := (calls s ! k)\<lparr>c_rep := Some (VoteRep reply)\<rparr>]\<rparr>"
    and cu: "cinv (elections t) (calls t)"
    and gu: "granted (calls t) = granted (calls s) \<union> granted [(calls s ! k)\<lparr>c_rep := Some (VoteRep reply)\<rparr>]"
  shows "einv n t"
proof -
  let ?c = "calls s ! k"
  have ok: "cluster_ok n s" and c: "cinv (elections s) (calls s)"
    and g: "ginv n (servers s) (granted (calls s))" and len: "length (servers s) = n"
    using inv by (auto simp: einv_def cluster_okD)
  have to: "c_to ?c < n" and fr: "c_from ?c < n" using cluster_okD(4) [OF ok k] by (auto simp: call_ok_def)
  have lg: "Log (servers s ! c_to ?c) \<noteq> []" using cluster_okD(2) [OF ok to] by (rule peer_ok_log)
  have "vcall_ok (elections s) ?c" using c k by (simp add: cinv_def list_all_nthD)
  with req have cand: "RVA_CandidateId a = int (c_from ?c)" by (simp add: vcall_ok_def)
  show ?thesis
  proof (cases "RVR_VoteGranted reply")
    case True
    then have "granted (calls t) = insert (c_to ?c, RVA_Term a, c_from ?c) (granted (calls s))"
      by (simp add: gu) (auto simp: granted_def grant_of_def req)
    with ginv_grant [OF g to len fr rv lg True cand] okt cu show ?thesis by (simp add: einv_def t)
  next
    case False
    then have "granted (calls t) = granted (calls s)"
      by (simp add: gu) (auto simp: granted_def grant_of_def req)
    moreover have "keeps (c_to ?c) (servers s ! c_to ?c) rf"
      using RequestVote_refused_quiet [OF rv lg False] by (rule keeps_quiet)
    ultimately show ?thesis using cu by (intro einv_keeps [OF inv okt to]) (auto simp: t)
  qed
qed

lemma einv_deliver:
  assumes inv: "einv n s" and k: "k < length (calls s)" and res: "deliver k s = Inr t"
  shows "einv n t"
proof (cases "c_rep (calls s ! k)")
  case (Some r)
  with res inv show ?thesis by (simp add: deliver_def Let_def)
next
  case None
  let ?c = "calls s ! k"
  have ok: "cluster_ok n s" and c: "cinv (elections s) (calls s)" using inv by (auto simp: einv_def)
  have okt: "cluster_ok n t" using deliver_ok [OF ok k] res by auto
  have to: "c_to ?c < n" using cluster_okD(4) [OF ok k] by (auto simp: call_ok_def)
  have ng: "grant_of ?c = None" using None by (simp add: grant_of_def split: request.split)
  have cu: "cinv (elections s) ((calls s)[k := ?c\<lparr>c_rep := r\<rparr>])" for r
    using ng by (intro cinv_upd [OF c k]) auto
  have gu: "granted ((calls s)[k := ?c\<lparr>c_rep := r\<rparr>]) = granted (calls s) \<union> granted [?c\<lparr>c_rep := r\<rparr>]" for r
    using ng by (intro granted_upd [OF k]) simp
  show ?thesis
  proof (cases "c_req ?c")
    case (VoteReq a e)
    with res None obtain rf reply where
      rv: "RequestVote a (servers s ! c_to ?c) = Inr (rf, reply)"
      and t: "t = s\<lparr>servers := (servers s)[c_to ?c := rf],
               calls := (calls s)[k := ?c\<lparr>c_rep := Some (VoteRep reply)\<rparr>]\<rparr>"
      by (auto simp: deliver_def Let_def gbind_eq_Inr)
    show ?thesis by (rule einv_vote_request [OF inv k okt None VoteReq rv t]) (simp_all add: t cu gu)
  next
    case (AppendReq a)
    with res None obtain rf reply where
      ae: "AppendEntries a (servers s ! c_to ?c) = Inr (rf, reply)"
      and t: "t = s\<lparr>servers := (servers s)[c_to ?c := rf],
               calls := (calls s)[k := ?c\<lparr>c_rep := Some (AppendRep reply)\<rparr>]\<rparr>"
      by (auto simp: deliver_def Let_def gbind_eq_Inr)
    have "granted (calls t) = granted (calls s)"
      by (simp add: t gu) (auto simp: granted_def grant_of_def AppendReq)
    then show ?thesis
      using cu by (intro einv_keeps [OF inv okt to keeps_quiet [OF AppendEntries_quiet [OF ae]]]) (auto simp: t)
  qed
qed

lemma einv_failed:
  assumes inv: "einv n s" and k: "k < length (calls s)"
  shows "einv n (return_failed k s)"
proof -
  have ok: "cluster_ok n s" and c: "cinv (elections s) (calls s)" using inv by (auto simp: einv_def)
  have "cinv (elections s) ((calls s)[k := (calls s ! k)\<lparr>c_returned := True\<rparr>])"
    by (rule cinv_upd [OF c k]) auto
  moreover have "granted ((calls s)[k := (calls s ! k)\<lparr>c_returned := True\<rparr>]) = granted (calls s)"
    using k by (subst granted_upd) (auto simp: granted_def dest: nth_mem)
  ultimately show ?thesis
    using return_failed_ok [OF ok k] by (intro einv_same [OF inv]) (auto simp: return_failed_def)
qed

text \<open>More counted votes than half of the cluster are, with the candidate's own, a majority.\<close>

lemma counted_majority:
  assumes ct: "cinv els cs" and calls: "list_all (call_ok n m) cs" and e: "e < length els"
    and big: "int (n div 2) < e_count (els ! e)"
    and vs: "votes_for (granted cs) (RVA_Term (e_arg (els ! e))) (e_srv (els ! e)) \<subseteq> {..<n}"
  shows "majority n (votes_for (granted cs) (RVA_Term (e_arg (els ! e))) (e_srv (els ! e)))"
proof -
  let ?S = "counted cs e" and ?i = "e_srv (els ! e)"
  have sub: "insert ?i ?S \<subseteq> votes_for (granted cs) (RVA_Term (e_arg (els ! e))) ?i"
    using counted_votes [OF ct e] by (auto simp: votes_for_def)
  have "finite ?S" using finite_subset [OF sub] finite_subset [OF vs] by simp
  moreover have "?i \<notin> ?S" by (rule counted_not_self [OF ct calls])
  ultimately have "card (insert ?i ?S) = Suc (card ?S)" by simp
  moreover have "e_count (els ! e) \<le> 1 + int (card ?S)" using ct e by (auto simp: cinv_def)
  ultimately have "majority n (insert ?i ?S)" using big sub vs by (auto simp: majority_def)
  then show ?thesis by (rule majority_mono [OF _ sub vs])
qed

lemma einv_vote_reply:
  assumes inv: "einv n s" and k: "k < length (calls s)" and okt: "cluster_ok n t"
    and req: "c_req (calls s ! k) = VoteReq a e" and rep: "c_rep (calls s ! k) = Some (VoteRep v)"
    and nr: "\<not> c_returned (calls s ! k)" and fr: "c_from (calls s ! k) < n"
    and se: "startElection_reply a v (servers s ! c_from (calls s ! k)) (e_count (elections s ! e)) = Inr (rf, cnt)"
    and t: "servers t = (servers s)[c_from (calls s ! k) := rf]"
      "calls t = (calls s)[k := (calls s ! k)\<lparr>c_returned := True\<rparr>]"
      "elections t = (elections s)[e := (elections s ! e)\<lparr>e_count := cnt\<rparr>]"
  shows "einv n t"
proof -
  let ?c = "calls s ! k" and ?rf = "servers s ! c_from (calls s ! k)"
  have ok: "cluster_ok n s" and c: "cinv (elections s) (calls s)"
    and g: "ginv n (servers s) (granted (calls s))" and len: "length (servers s) = n"
    using inv by (auto simp: einv_def cluster_okD)
  have gr: "granted (calls t) = granted (calls s)"
    unfolding t using k by (subst granted_upd) (auto simp: granted_def dest: nth_mem)
  note out = startElection_reply_outcome [OF se]
  have "cnt \<le> e_count (elections s ! e) + (if grant_of ?c = None then 0 else 1)"
    using out req rep by (auto simp: grant_of_def split: if_splits)
  then have ct: "cinv (elections t) (calls t)" unfolding t by (rule cinv_count [OF c k nr req])
  show ?thesis
  proof (cases "quiet ?rf rf")
    case True
    then show ?thesis using ct by (intro einv_keeps [OF inv okt fr keeps_quiet]) (auto simp: t(1) gr)
  next
    case False
    with out have cand: "State ?rf = Candidate" "CurrentTerm ?rf = RVA_Term a"
      and rf: "rf = (BeLeader ?rf)\<lparr>voteCh := [True]\<rparr>" and big: "int (length (peers ?rf) div 2) < cnt" by auto
    have "vcall_ok (elections s) ?c" using c k by (simp add: cinv_def list_all_nthD)
    with req have "e < length (elections s)" "e_arg (elections s ! e) = a" "e_srv (elections s ! e) = c_from ?c"
      by (auto simp: vcall_ok_def)
    then have e: "e < length (elections t)" "e_arg (elections t ! e) = a" "e_srv (elections t ! e) = c_from ?c"
      "e_count (elections t ! e) = cnt" by (simp_all add: t(3))
    have calls: "list_all (call_ok n (length (elections t))) (calls t)" using okt by (simp add: cluster_ok_def)
    have "int (n div 2) < cnt" using big cluster_okD(2) [OF ok fr] by (simp add: peer_ok_def)
    moreover have "votes_for (granted (calls s)) (RVA_Term a) (c_from ?c) \<subseteq> {..<n}"
      using g fr by (auto simp: votes_for_def ginv_def)
    ultimately have "majority n (votes_for (granted (calls s)) (CurrentTerm ?rf) (c_from ?c))"
      using counted_majority [OF ct calls e(1)] e cand by (simp add: gr)
    from ginv_leader [OF g fr len this cand(1)] okt ct show ?thesis by (simp add: einv_def t(1) rf gr)
  qed
qed

lemma einv_reply:
  assumes inv: "einv n s" and k: "k < length (calls s)" and res: "return_reply k s = Inr t"
  shows "einv n t"
proof -
  let ?c = "calls s ! k"
  have ok: "cluster_ok n s" and c: "cinv (elections s) (calls s)" using inv by (auto simp: einv_def)
  have okt: "cluster_ok n t" using return_reply_ok [OF ok k res] .
  have co: "call_ok n (length (elections s)) ?c" using cluster_okD(4) [OF ok k] .
  then have fr: "c_from ?c < n" by (auto simp: call_ok_def)
  let ?rf = "servers s ! c_from ?c" and ?cs = "(calls s)[k := ?c\<lparr>c_returned := True\<rparr>]"
  show ?thesis
  proof (cases "c_returned ?c \<or> c_rep ?c = None")
    case True
    then have "t = s"
      using res by (auto simp: return_reply_def Let_def split: request.splits response.splits if_splits)
    with inv show ?thesis by simp
  next
    case False
    then obtain r where r: "c_rep ?c = Some r" and nr: "\<not> c_returned ?c" by auto
    show ?thesis
    proof (cases "c_req ?c")
      case (AppendReq a)
      with co r obtain v where "r = AppendRep v" by (cases r) (auto simp: call_ok_def)
      with res r nr AppendReq obtain rf cont where
        al: "appendLog_reply (int (c_to ?c)) v ?rf = Inr (rf, cont)"
        and t: "servers t = (servers s)[c_from ?c := rf]" "elections t = elections s" "calls t = ?cs"
        by (auto simp: return_reply_def Let_def gbind_eq_Inr split: if_splits)
      have "granted ?cs = granted (calls s)"
        using k by (subst granted_upd) (auto simp: granted_def dest: nth_mem)
      moreover have "cinv (elections s) ?cs" by (rule cinv_upd [OF c k]) auto
      ultimately show ?thesis
        using appendLog_reply_quiet [OF al] by (intro einv_keeps [OF inv okt fr keeps_quiet]) (auto simp: t)
    next
      case (VoteReq a e)
      with co r obtain v where v: "r = VoteRep v" by (cases r) (auto simp: call_ok_def)
      with res r nr VoteReq obtain rf cnt where
        "startElection_reply a v ?rf (e_count (elections s ! e)) = Inr (rf, cnt)"
        "servers t = (servers s)[c_from ?c := rf]" "calls t = ?cs"
        "elections t = (elections s)[e := (elections s ! e)\<lparr>e_count := cnt\<rparr>]"
        by (auto simp: return_reply_def Let_def gbind_eq_Inr split: if_splits)
      with r v show ?thesis by (intro einv_vote_reply [OF inv k okt VoteReq _ nr fr]) simp_all
    qed
  qed
qed

lemma einv_crash:
  assumes inv: "einv n s" and i: "i < n"
  shows "einv n (crash_restart i s)"
proof -
  have ok: "cluster_ok n s" and c: "cinv (elections s) (calls s)" using inv by (auto simp: einv_def)
  let ?f = "\<lambda>c. if c_from c = i then c\<lparr>c_returned := True\<rparr> else c"
  let ?cs = "map ?f (calls s)"
  have gr: "granted ?cs = granted (calls s)" by (rule granted_map) simp
  have "counted (calls s) e \<subseteq> counted ?cs e" for e
  proof
    fix v assume "v \<in> counted (calls s) e"
    then obtain d where "d \<in> set (calls s)" "v = c_to d" "c_returned d" "grant_of d \<noteq> None"
      "\<exists>a. c_req d = VoteReq a e" by (auto simp: counted_def)
    then show "v \<in> counted ?cs e"
      unfolding counted_def mem_Collect_eq by (intro exI [of _ "?f d"]) auto
  qed
  then have "card (counted (calls s) e) \<le> card (counted ?cs e)" for e by (simp add: card_mono)
  then have "\<forall>e<length (elections s). e_count (elections s ! e) \<le> 1 + int (card (counted ?cs e))"
    using c by (fastforce simp: cinv_def intro: order_trans)
  moreover have "map vote_key ?cs = map vote_key (calls s)" by simp
  moreover have "list_all (vcall_ok (elections s)) ?cs"
    using c by (auto simp: cinv_def list_all_iff vcall_ok_def)
  ultimately have "cinv (elections s) ?cs" using c by (simp only: cinv_def)
  then show ?thesis
    using crash_restart_ok [OF ok i]
    by (intro einv_keeps [OF inv _ i keeps_restart
          [of "Copy (crash1_saved (persister (servers s ! i)))"]])
      (auto simp: crash_restart_def Let_def gr raftdata_def)
qed

lemma step_einv:
  assumes inv: "einv n s" and st: "step e s = Inr t"
  shows "einv n t"
proof -
  have [simp]: "length (servers s) = n" using inv by (simp add: einv_def cluster_okD)
  show ?thesis
  proof (cases e)
    case (Client i c)
    show ?thesis
    proof (cases "i < n")
      case True
      obtain rf r where s: "Start c (servers s ! i) = (rf, r)" by (cases "Start c (servers s ! i)")
      have "cluster_ok n t" using step_ok inv st by (auto simp: einv_def)
      moreover have "t = s\<lparr>servers := (servers s)[i := rf]\<rparr>"
        using st Client True s by (simp add: client_start_def)
      ultimately show ?thesis
        using inv True by (intro einv_keeps [OF inv _ True keeps_quiet [OF Start_quiet [OF s]]]) (auto simp: einv_def)
    qed (use inv st Client in simp)
  qed (use assms in \<open>auto simp: einv_main einv_failed einv_crash
         dest: einv_goroutine einv_reply einv_deliver split: if_splits\<close>)
qed

interpretation election_inv: inductive_invariant "starts n" cluster_step "einv n" for n
  by unfold_locales (auto simp: starts_def cluster_step_def einv_init dest: step_einv)

section \<open>At most one leader in a term\<close>

lemma ginv_one_leader:
  assumes g: "ginv n ss G" and ij: "i < n" "j < n"
    and li: "State (ss ! i) = Leader" and lj: "State (ss ! j) = Leader"
    and t: "CurrentTerm (ss ! i) = CurrentTerm (ss ! j)"
  shows "i = j"
proof (rule ccontr)
  assume ne: "i \<noteq> j"
  let ?T = "CurrentTerm (ss ! i)"
  have "majority n (votes_for G ?T i)" "majority n (votes_for G ?T j)"
    using g ij li lj by (auto simp: ginv_def t)
  from maj.quorum_meet [OF this] obtain v where v: "v \<in> votes_for G ?T i" "v \<in> votes_for G ?T j"
    by blast
  have own: "VoteFor (ss ! i) = int i" "VoteFor (ss ! j) = int j"
    using g ij li lj by (auto simp: ginv_def)
  have "(j, ?T, i) \<notin> G" "(i, ?T, j) \<notin> G"
    using g own ne by (auto simp: ginv_def vote_bound_def t)
  with v ne have "(v, ?T, i) \<in> G" "(v, ?T, j) \<in> G" by (auto simp: votes_for_def)
  with g ne show False by (auto simp: ginv_def)
qed

end
