(* ===== verification/Raft_Logs.thy ===== *)
theory Raft_Logs
  imports Raft_Election
begin

text \<open>
  Logs of a cluster that does not crash: the Log Matching property (two logs that have
  entries of the same index and term are equal up to that index) and that a leader never
  removes an entry of its own log. The proof follows the set of all logs any peer ever had:
  only a client request to a leader adds a log to it, because what a follower has after it
  accepts an append request is a log its leader had.
\<close>

section \<open>Matching logs\<close>

definition log_match :: "'c Log list \<Rightarrow> 'c Log list \<Rightarrow> bool" where
  "log_match l m \<longleftrightarrow> (\<forall>k. k < length l \<longrightarrow> k < length m \<longrightarrow>
     Log_Term (l ! k) = Log_Term (m ! k) \<longrightarrow> take (Suc k) l = take (Suc k) m)"

lemma log_match_refl: "log_match l l"
  by (simp add: log_match_def)

lemma log_match_sym: "log_match l m \<Longrightarrow> log_match m l"
  by (auto simp: log_match_def)

lemma log_match_snoc:
  assumes "log_match l m" and "length l < length m \<Longrightarrow> Log_Term (m ! length l) \<noteq> Log_Term x"
  shows "log_match (l @ [x]) m"
proof -
  have "take (Suc k) (l @ [x]) = take (Suc k) m"
    if k: "k < Suc (length l)" "k < length m" and t: "Log_Term ((l @ [x]) ! k) = Log_Term (m ! k)" for k
  proof (cases "k < length l")
    case True
    with assms(1) k(2) t show ?thesis by (simp add: log_match_def nth_append)
  next
    case False
    with k(1) have "k = length l" by simp
    with assms(2) k(2) t show ?thesis by simp
  qed
  then show ?thesis by (auto simp: log_match_def)
qed

text \<open>Cutting a matching log after an entry of the sender's log and appending the sender's
  rest yields the sender's log.\<close>

lemma log_match_splice:
  assumes "log_match l m" and "k < length l" and "k < length m"
    and "Log_Term (l ! k) = Log_Term (m ! k)"
  shows "take (Suc k) l @ drop (Suc k) m = m"
proof -
  from assms have "take (Suc k) l = take (Suc k) m" by (simp add: log_match_def)
  then show ?thesis by simp
qed

section \<open>Terms that have been won\<close>

definition burnt ::
  "nat \<Rightarrow> 'c Raft list \<Rightarrow> (nat \<times> int \<times> nat) set \<Rightarrow> nat \<Rightarrow> int \<Rightarrow> bool" where
  "burnt n ss G c T \<longleftrightarrow> c < n \<and> majority n (votes_for G T c) \<and>
     (T < CurrentTerm (ss ! c) \<or> T = CurrentTerm (ss ! c) \<and> State (ss ! c) = Leader) \<and>
     (\<forall>d. (c, T, d) \<in> G \<longrightarrow> d = c)"

lemma burnt_unique:
  assumes g: "ginv n ss G" and b: "burnt n ss G c T" "burnt n ss G d T"
  shows "c = d"
proof -
  have "majority n (votes_for G T c)" "majority n (votes_for G T d)"
    using b by (auto simp: burnt_def)
  from maj.quorum_meet [OF this] obtain v where "v \<in> votes_for G T c" "v \<in> votes_for G T d"
    by blast
  then show ?thesis
    using b g by (auto simp: votes_for_def burnt_def ginv_def)
qed

lemma leader_burnt:
  assumes "ginv n ss G" and "i < n" and "State (ss ! i) = Leader"
  shows "burnt n ss G i (CurrentTerm (ss ! i))"
proof -
  have "VoteFor (ss ! i) = int i" and "majority n (votes_for G (CurrentTerm (ss ! i)) i)"
    using assms by (auto simp: ginv_def)
  moreover have "VoteFor (ss ! i) = int d" if "(i, CurrentTerm (ss ! i), d) \<in> G" for d
  proof -
    from that assms(1) have "vote_bound (ss ! i) (CurrentTerm (ss ! i)) d"
      unfolding ginv_def by blast
    then show ?thesis by (simp add: vote_bound_def)
  qed
  ultimately show ?thesis using assms(2,3) by (auto simp: burnt_def)
qed

definition advance :: "'c Raft \<Rightarrow> 'c Raft \<Rightarrow> bool" where
  "advance rf rf' \<longleftrightarrow> CurrentTerm rf < CurrentTerm rf' \<or>
     CurrentTerm rf' = CurrentTerm rf \<and> (State rf = Leader \<longrightarrow> State rf' = Leader)"

lemma advance_refl [simp]: "advance rf rf"
  by (simp add: advance_def)

lemma advance_quiet: "quiet rf rf' \<Longrightarrow> advance rf rf'"
  by (auto simp: quiet_def advance_def)

lemma burnt_advance:
  assumes b: "burnt n ss G c T" and adv: "advance (ss ! c) (ss' ! c)"
    and sub: "G \<subseteq> G'" and dom: "\<And>v T d. (v, T, d) \<in> G' \<Longrightarrow> v < n"
    and new: "\<And>d. (c, T, d) \<in> G' \<Longrightarrow> (c, T, d) \<notin> G \<Longrightarrow> d = c"
  shows "burnt n ss' G' c T"
proof -
  have "votes_for G T c \<subseteq> votes_for G' T c" "votes_for G' T c \<subseteq> {..<n}"
    using b sub dom by (auto simp: votes_for_def burnt_def)
  then have "majority n (votes_for G' T c)"
    using b majority_mono by (auto simp: burnt_def)
  with b adv new show ?thesis by (auto simp: burnt_def advance_def)
qed

section \<open>The invariant\<close>

definition append_reqs :: "'c call list \<Rightarrow> (nat \<times> nat \<times> 'c AppendEntriesArgs) set" where
  "append_reqs cs = {(c_from c, c_to c, a) |c a. c \<in> set cs \<and> c_req c = AppendReq a}"

definition from_log :: "'c AppendEntriesArgs \<Rightarrow> 'c Log list \<Rightarrow> bool" where
  "from_log a l \<longleftrightarrow> 0 \<le> AEA_PrevLogIndex a \<and> AEA_PrevLogIndex a < int (length l) \<and>
     AEA_PrevLogTerm a = Log_Term (l ! nat (AEA_PrevLogIndex a)) \<and>
     AEA_Entries a = drop (nat (AEA_PrevLogIndex a + 1)) l"

definition hist_ok :: "nat \<Rightarrow> 'c Raft list \<Rightarrow> (nat \<times> int \<times> nat) set \<Rightarrow> 'c Log list set \<Rightarrow> bool" where
  "hist_ok n ss G H \<longleftrightarrow>
     (\<forall>i<n. Log (ss ! i) \<in> H) \<and>
     (\<forall>l\<in>H. \<forall>m\<in>H. log_match l m) \<and>
     (\<forall>l\<in>H. \<forall>e\<in>set l. Log_Term e = -1 \<or> (\<exists>c. burnt n ss G c (Log_Term e)))"

definition leader_has :: "'c Raft \<Rightarrow> 'c Log list set \<Rightarrow> bool" where
  "leader_has rf H \<longleftrightarrow> (\<forall>l\<in>H. \<forall>k<length l. Log_Term (l ! k) = CurrentTerm rf \<longrightarrow> k < length (Log rf))"

definition linv :: "nat \<Rightarrow> 'c cluster \<Rightarrow> 'c Log list set \<Rightarrow> bool" where
  "linv n s H \<longleftrightarrow> einv n s \<and> hist_ok n (servers s) (granted (calls s)) H \<and>
     (\<forall>i<n. State (servers s ! i) = Leader \<longrightarrow> leader_has (servers s ! i) H) \<and>
     (\<forall>i j a. (i, j, a) \<in> append_reqs (calls s) \<longrightarrow>
        burnt n (servers s) (granted (calls s)) i (AEA_Term a) \<and> (\<exists>l\<in>H. from_log a l))"

lemma append_reqs_append [simp]: "append_reqs (cs @ ds) = append_reqs cs \<union> append_reqs ds"
  by (auto simp: append_reqs_def)

lemma append_reqs_upd:
  assumes "k < length cs" and "c_from c = c_from (cs ! k)" "c_to c = c_to (cs ! k)"
    "c_req c = c_req (cs ! k)"
  shows "append_reqs (cs[k := c]) \<subseteq> append_reqs cs"
proof
  fix x assume "x \<in> append_reqs (cs[k := c])"
  then obtain d a where d: "d \<in> set (cs[k := c])" "c_req d = AppendReq a"
    and x: "x = (c_from d, c_to d, a)" by (auto simp: append_reqs_def)
  from d(1) have "d = c \<or> d \<in> set cs" by (auto dest: set_update_subset_insert [THEN subsetD])
  then show "x \<in> append_reqs cs"
  proof
    assume "d = c"
    with d(2) x assms nth_mem [OF assms(1)] show ?thesis
      unfolding append_reqs_def mem_Collect_eq by (intro exI [of _ "cs ! k"] exI [of _ a]) simp
  qed (use d(2) x in \<open>auto simp: append_reqs_def\<close>)
qed

lemma append_reqs_new: "append_reqs [new_call i j (AppendReq a)] = {(i, j, a)}"
  by (simp add: append_reqs_def new_call_def)

lemma append_reqs_votes [simp]: "append_reqs (map (\<lambda>j. new_call i j (VoteReq a e)) js) = {}"
  by (auto simp: append_reqs_def new_call_def)

text \<open>What a leader that stays leader does to its log.\<close>

definition leader_keeps :: "nat \<Rightarrow> 'c Raft list \<Rightarrow> 'c Raft list \<Rightarrow> bool" where
  "leader_keeps n ss ss' \<longleftrightarrow> (\<forall>i<n. State (ss ! i) = Leader \<longrightarrow> State (ss' ! i) = Leader \<longrightarrow>
     take (length (Log (ss ! i))) (Log (ss' ! i)) = Log (ss ! i))"

lemma leader_keeps_refl: "leader_keeps n ss ss"
  by (simp add: leader_keeps_def)

text \<open>A step that adds no log to the history.\<close>

lemma burnt_step:
  assumes b: "burnt n (servers s) (granted (calls s)) c T" and t: "einv n t" and i: "i < n"
    and len: "length (servers s) = n" and ss: "servers t = (servers s)[i := rf]"
    and adv: "advance (servers s ! i) rf"
    and sub: "granted (calls s) \<subseteq> granted (calls t)"
    and new: "\<And>c T d. burnt n (servers s) (granted (calls s)) c T \<Longrightarrow> (c, T, d) \<in> granted (calls t) \<Longrightarrow>
                (c, T, d) \<notin> granted (calls s) \<Longrightarrow> d = c"
  shows "burnt n (servers t) (granted (calls t)) c T"
proof (rule burnt_advance [OF b _ sub])
  have "c < n" using b by (simp add: burnt_def)
  then show "advance (servers s ! c) (servers t ! c)"
    using adv len by (simp add: ss nth_list_update_cases)
  show "v < n" if "(v, T, d) \<in> granted (calls t)" for v T d
  proof -
    have "ginv n (servers t) (granted (calls t))" using t by (simp add: einv_def)
    with that show ?thesis unfolding ginv_def by blast
  qed
  show "d = c" if "(c, T, d) \<in> granted (calls t)" "(c, T, d) \<notin> granted (calls s)" for d
    using new [OF b that] .
qed

lemma linv_step:
  assumes inv: "linv n s H" and t: "einv n t" and i: "i < n"
    and ss: "servers t = (servers s)[i := rf]"
    and lg: "Log rf \<in> H" and adv: "advance (servers s ! i) rf"
    and ld: "State rf = Leader \<Longrightarrow> leader_has rf H"
    and kp: "State rf = Leader \<Longrightarrow> State (servers s ! i) = Leader \<Longrightarrow> Log rf = Log (servers s ! i)"
    and sub: "granted (calls s) \<subseteq> granted (calls t)"
    and new: "\<And>c T d. burnt n (servers s) (granted (calls s)) c T \<Longrightarrow> (c, T, d) \<in> granted (calls t) \<Longrightarrow>
                (c, T, d) \<notin> granted (calls s) \<Longrightarrow> d = c"
    and reqs: "append_reqs (calls t) \<subseteq> append_reqs (calls s)"
  shows "linv n t H \<and> leader_keeps n (servers s) (servers t)"
proof
  let ?G = "granted (calls s)" and ?G' = "granted (calls t)"
  have len: "length (servers s) = n" using inv by (simp add: linv_def einv_def cluster_okD)
  have b: "burnt n (servers s) ?G c T \<Longrightarrow> burnt n (servers t) ?G' c T" for c T
    by (rule burnt_step [OF _ t i len ss adv sub new])
  have h: "hist_ok n (servers s) ?G H" using inv by (simp add: linv_def)
  have "hist_ok n (servers t) ?G' H"
    unfolding hist_ok_def
  proof (intro conjI)
    show "\<forall>j<n. Log (servers t ! j) \<in> H"
      using h lg len by (simp add: hist_ok_def ss nth_list_update_cases)
    show "\<forall>l\<in>H. \<forall>m\<in>H. log_match l m" using h by (simp add: hist_ok_def)
    show "\<forall>l\<in>H. \<forall>e\<in>set l. Log_Term e = -1 \<or> (\<exists>c. burnt n (servers t) ?G' c (Log_Term e))"
      using h b unfolding hist_ok_def by blast
  qed
  moreover have "\<forall>j<n. State (servers t ! j) = Leader \<longrightarrow> leader_has (servers t ! j) H"
    using inv ld len by (auto simp: linv_def ss nth_list_update_cases)
  moreover have "\<forall>i j a. (i, j, a) \<in> append_reqs (calls t) \<longrightarrow>
      burnt n (servers t) ?G' i (AEA_Term a) \<and> (\<exists>l\<in>H. from_log a l)"
    using inv reqs b unfolding linv_def by blast
  ultimately show "linv n t H" using t by (simp add: linv_def)
  show "leader_keeps n (servers s) (servers t)"
    using kp len by (auto simp: leader_keeps_def ss nth_list_update_cases)
qed

lemma linv_quiet:
  assumes inv: "linv n s H" and t: "einv n t" and i: "i < n"
    and ss: "servers t = (servers s)[i := rf]" and q: "quiet (servers s ! i) rf"
    and lg: "Log rf \<in> H" and kp: "State rf = Leader \<Longrightarrow> Log rf = Log (servers s ! i)"
    and g: "granted (calls t) = granted (calls s)"
    and reqs: "append_reqs (calls t) \<subseteq> append_reqs (calls s)"
  shows "linv n t H \<and> leader_keeps n (servers s) (servers t)"
proof (rule linv_step [OF inv t i ss lg advance_quiet [OF q] _ kp _ _ reqs])
  assume l: "State rf = Leader"
  with q have "State (servers s ! i) = Leader" "CurrentTerm rf = CurrentTerm (servers s ! i)"
    by (auto simp: quiet_def)
  with inv i kp [OF l] show "leader_has rf H" by (simp add: linv_def leader_has_def)
qed (simp_all add: g)

lemma linv_same:
  assumes "linv n s H" and "einv n t" and "servers t = servers s"
    and "granted (calls t) = granted (calls s)" and "append_reqs (calls t) \<subseteq> append_reqs (calls s)"
  shows "linv n t H \<and> leader_keeps n (servers s) (servers t)"
  using assms unfolding linv_def by (auto simp: leader_keeps_refl)

section \<open>Every step without a crash keeps it\<close>

lemma linv_einv: "linv n s H \<Longrightarrow> einv n s"
  by (simp add: linv_def)

lemma linv_log: "linv n s H \<Longrightarrow> i < n \<Longrightarrow> Log (servers s ! i) \<in> H"
  by (simp add: linv_def hist_ok_def)

lemma linv_main:
  assumes inv: "linv n s H" and i: "i < n"
    and t: "t \<in> {main_read i s, main_vote i s, main_append i s, main_leader i s}"
  shows "linv n t H \<and> leader_keeps n (servers s) (servers t)"
proof -
  have e: "einv n t" using t einv_main [OF linv_einv [OF inv] i] by auto
  have cs: "calls t = calls s"
    using t by (auto simp: main_read_def main_vote_def main_append_def main_leader_def Let_def)
  have q: "quiet rf (rf\<lparr>voteCh := x\<rparr>)" "quiet rf (rf\<lparr>appendLogCh := x\<rparr>)" for rf :: "'a Raft" and x
    by (simp_all add: quiet_def)
  consider "servers t = servers s"
    | x where "servers t = (servers s)[i := (servers s ! i)\<lparr>voteCh := x\<rparr>]"
    | x where "servers t = (servers s)[i := (servers s ! i)\<lparr>appendLogCh := x\<rparr>]"
    using t by (auto simp: main_read_def main_vote_def main_append_def main_leader_def Let_def
        split: if_splits)
  then show ?thesis
  proof cases
    case 1
    then show ?thesis using cs by (intro linv_same [OF inv e]) auto
  next
    case 2
    then show ?thesis using cs linv_log [OF inv i] by (intro linv_quiet [OF inv e i 2 q(1)]) auto
  next
    case 3
    then show ?thesis using cs linv_log [OF inv i] by (intro linv_quiet [OF inv e i 3 q(2)]) auto
  qed
qed

lemma linv_timeout:
  assumes inv: "linv n s H" and i: "i < n"
  shows "linv n (main_timeout i s) H \<and> leader_keeps n (servers s) (servers (main_timeout i s))"
proof -
  have e: "einv n (main_timeout i s)" using einv_main [OF linv_einv [OF inv] i] by auto
  show ?thesis
  proof (cases "mains s ! i = InSelect")
    case True
    then have t: "servers (main_timeout i s) = (servers s)[i := BeCandidate (servers s ! i)]"
      "calls (main_timeout i s) = calls s" by (auto simp: main_timeout_def)
    show ?thesis
      by (rule linv_step [OF inv e i t(1)]) (simp_all add: t(2) linv_log [OF inv i] advance_def)
  next
    case False
    then have "main_timeout i s = s" by (simp add: main_timeout_def)
    with inv show ?thesis by (simp add: leader_keeps_refl)
  qed
qed

lemma linv_send:
  assumes inv: "linv n s H" and e: "einv n t" and i: "i < n"
    and snd: "appendLog_send j' (servers s ! i) = Inr (Some args)"
    and t: "servers t = servers s" "calls t = calls s @ [new_call i j (AppendReq args)]"
  shows "linv n t H \<and> leader_keeps n (servers s) (servers t)"
proof -
  note f = appendLog_send_some [OF snd]
  have g: "granted (calls t) = granted (calls s)"
    by (simp add: t granted_def grant_of_def new_call_def)
  have "ginv n (servers s) (granted (calls s))" using linv_einv [OF inv] by (simp add: einv_def)
  from leader_burnt [OF this i f(1)]
  have b: "burnt n (servers s) (granted (calls s)) i (AEA_Term args)" by (simp add: f(2))
  have fl: "from_log args (Log (servers s ! i))"
    unfolding from_log_def using f(4-7) by simp
  have reqs: "append_reqs (calls t) = insert (i, j, args) (append_reqs (calls s))"
    by (simp add: t append_reqs_new)
  show ?thesis
    using inv e b fl linv_log [OF inv i] unfolding linv_def t(1) g reqs
    by (auto simp: leader_keeps_refl)
qed

lemma linv_goroutine:
  assumes inv: "linv n s H" and k: "k < length (gors s)" and res: "run_goroutine k s = Inr t"
  shows "linv n t H \<and> leader_keeps n (servers s) (servers t)"
proof -
  note e = einv_goroutine [OF linv_einv [OF inv] k res]
  obtain i g where g: "gors s ! k = (i, g)" by (cases "gors s ! k")
  have "cluster_ok n s" using linv_einv [OF inv] by (simp add: einv_def)
  then have i: "i < n" using cluster_okD(3) [OF _ k] g by (auto intro: gor_ok_fst)
  show ?thesis
  proof (cases g)
    case GElect
    with res g obtain arg where "t = s\<lparr>gors := (gors s)[k := (i, GDone)],
        elections := elections s @ [\<lparr>e_srv = i, e_arg = arg, e_count = 1\<rparr>],
        calls := calls s @ map (\<lambda>j. new_call i j (VoteReq arg (length (elections s))))
                   (startElection_peers (servers s ! i))\<rparr>"
      by (auto simp: run_goroutine_def gbind_eq_Inr Let_def)
    then have t: "servers t = servers s" "calls t = calls s @
        map (\<lambda>j. new_call i j (VoteReq arg (length (elections s)))) (startElection_peers (servers s ! i))"
      by simp_all
    then have "granted (calls t) = granted (calls s)" by (auto simp: granted_def)
    with t show ?thesis by (intro linv_same [OF inv e]) auto
  next
    case (GAppend j)
    with res g obtain oa where oa: "appendLog_send (int j) (servers s ! i) = Inr oa"
      and t: "t = (case oa of None \<Rightarrow> s\<lparr>gors := (gors s)[k := (i, GDone)]\<rparr>
        | Some args \<Rightarrow> s\<lparr>gors := (gors s)[k := (i, GDone)],
                         calls := calls s @ [new_call i j (AppendReq args)]\<rparr>)"
      by (auto simp: run_goroutine_def gbind_eq_Inr)
    show ?thesis
    proof (cases oa)
      case None
      with t show ?thesis by (intro linv_same [OF inv e]) auto
    next
      case (Some args)
      with t oa show ?thesis by (intro linv_send [OF inv e i]) auto
    qed
  next
    case GDone
    with res g inv show ?thesis by (simp add: run_goroutine_def leader_keeps_refl)
  qed
qed

text \<open>A new vote is never one of a peer that has led, or leads, in the term of the vote.\<close>

lemma RequestVote_advance:
  assumes "RequestVote a rf = Inr (rf', reply)" "Log rf \<noteq> []"
  shows "advance rf rf'" "State rf' = Leader \<Longrightarrow> State rf = Leader \<and> CurrentTerm rf' = CurrentTerm rf"
  using RequestVote_outcome [OF assms] by (auto simp: advance_def step_down_def split: if_splits)

lemma grant_not_burnt:
  assumes g: "ginv n ss G" and b: "burnt n ss G v (RVA_Term a)"
    and rv: "RequestVote a (ss ! v) = Inr (rf', reply)" "Log (ss ! v) \<noteq> []" "RVR_VoteGranted reply"
    and cand: "RVA_CandidateId a = int c"
  shows "c = v"
proof -
  note r = RequestVote_granted [OF rv]
  from b r(2) have eq: "CurrentTerm (ss ! v) = RVA_Term a" "State (ss ! v) = Leader" and v: "v < n"
    by (auto simp: burnt_def)
  then have "VoteFor (ss ! v) = int v" using g by (auto simp: ginv_def)
  with r(5) [OF eq(1)] cand show ?thesis by simp
qed

lemma linv_vote:
  assumes inv: "linv n s H" and k: "k < length (calls s)" and e: "einv n t"
    and c: "c = calls s ! k" "c_rep c = None" "c_req c = VoteReq a el"
    and rv: "RequestVote a (servers s ! c_to c) = Inr (rf, reply)"
    and t: "servers t = (servers s)[c_to c := rf]"
      "calls t = (calls s)[k := c\<lparr>c_rep := Some (VoteRep reply)\<rparr>]"
  shows "linv n t H \<and> leader_keeps n (servers s) (servers t)"
proof -
  have ok: "cluster_ok n s" and g: "ginv n (servers s) (granted (calls s))"
    and ci: "cinv (elections s) (calls s)" using linv_einv [OF inv] by (auto simp: einv_def)
  have "call_ok n (length (elections s)) c" using cluster_okD(4) [OF ok k] c by simp
  then have to: "c_to c < n" by (simp add: call_ok_def)
  have lg: "Log (servers s ! c_to c) \<noteq> []" using cluster_okD(2) [OF ok to] by (rule peer_ok_log)
  have "vcall_ok (elections s) c" using ci k c(1) by (simp add: cinv_def list_all_nthD)
  then have cand: "RVA_CandidateId a = int (c_from c)" using c(3) by (simp add: vcall_ok_def)
  let ?c = "c\<lparr>c_rep := Some (VoteRep reply)\<rparr>"
  have "grant_of c = None" using c(2,3) by (simp add: grant_of_def)
  then have gt: "granted (calls t) = granted (calls s) \<union> granted [?c]"
    unfolding t by (intro granted_upd [OF k]) (simp add: c(1))
  have g1: "granted [?c] = (if RVR_VoteGranted reply then {(c_to c, RVA_Term a, c_from c)} else {})"
    by (auto simp: granted_def grant_of_def c(3))
  note adv = RequestVote_advance [OF rv lg]
  show ?thesis
  proof (rule linv_step [OF inv e to t(1) _ adv(1)])
    show "Log rf \<in> H" using RequestVote_log(1) [OF rv lg] linv_log [OF inv to] by simp
    show "leader_has rf H" if "State rf = Leader"
      using adv(2) [OF that] inv to RequestVote_log(1) [OF rv lg] by (simp add: linv_def leader_has_def)
    show "d = v" if "burnt n (servers s) (granted (calls s)) v T" "(v, T, d) \<in> granted (calls t)"
      "(v, T, d) \<notin> granted (calls s)" for v T d
    proof -
      from that(2,3) have "RVR_VoteGranted reply" "v = c_to c" "T = RVA_Term a" "d = c_from c"
        by (auto simp: gt g1 split: if_splits)
      with grant_not_burnt [OF g _ rv lg _ cand] that(1) show ?thesis by simp
    qed
    show "append_reqs (calls t) \<subseteq> append_reqs (calls s)"
      unfolding t by (rule append_reqs_upd [OF k]) (simp_all add: c(1))
  qed (use RequestVote_log(1) [OF rv lg] gt in auto)
qed

text \<open>An accepted append request leaves the follower with the log its leader had, and the
  leader of the term is never the follower.\<close>

lemma linv_append:
  assumes inv: "linv n s H" and k: "k < length (calls s)" and e: "einv n t"
    and c: "c = calls s ! k" "c_rep c = None" "c_req c = AppendReq a"
    and ae: "AppendEntries a (servers s ! c_to c) = Inr (rf, reply)"
    and t: "servers t = (servers s)[c_to c := rf]"
      "calls t = (calls s)[k := c\<lparr>c_rep := Some (AppendRep reply)\<rparr>]"
  shows "linv n t H \<and> leader_keeps n (servers s) (servers t)"
proof -
  let ?rf = "servers s ! c_to c" and ?G = "granted (calls s)"
  have ok: "cluster_ok n s" and g: "ginv n (servers s) ?G" using linv_einv [OF inv] by (auto simp: einv_def)
  have "call_ok n (length (elections s)) c" using cluster_okD(4) [OF ok k] c by simp
  then have to: "c_to c < n" "c_to c \<noteq> c_from c" by (auto simp: call_ok_def)
  have "(c_from c, c_to c, a) \<in> append_reqs (calls s)"
    using nth_mem [OF k] c unfolding append_reqs_def by blast
  then obtain l where b: "burnt n (servers s) ?G (c_from c) (AEA_Term a)" and l: "l \<in> H" "from_log a l"
    using inv unfolding linv_def by blast
  have m: "log_match (Log ?rf) l"
    using inv l linv_log [OF inv to(1)] by (auto simp: linv_def hist_ok_def)
  have acc: "ae_log a ?rf = l" if "ae_accepts a ?rf"
  proof -
    let ?p = "nat (AEA_PrevLogIndex a)"
    have p: "?p < length (Log ?rf)" "?p < length l" "Log_Term (Log ?rf ! ?p) = Log_Term (l ! ?p)"
      "nat (AEA_PrevLogIndex a + 1) = Suc ?p" "AEA_Entries a = drop (Suc ?p) l"
      using that l(2) by (auto simp: ae_accepts_def from_log_def nat_add_distrib)
    show ?thesis using log_match_splice [OF m p(1-3)] by (simp add: ae_log_def p(4,5))
  qed
  note q = AppendEntries_quiet [OF ae] and al = AppendEntries_log [OF ae]
  have nacc: "\<not> ae_accepts a ?rf" if ld: "State rf = Leader"
  proof
    assume "ae_accepts a ?rf"
    moreover from q ld have st: "State ?rf = Leader" "CurrentTerm rf = CurrentTerm ?rf"
      by (auto simp: quiet_def)
    ultimately have "AEA_Term a = CurrentTerm ?rf" using al(3) by (auto simp: ae_accepts_def)
    with b burnt_unique [OF g leader_burnt [OF g to(1) st(1)]] to(2) show False by simp
  qed
  show ?thesis
  proof (rule linv_quiet [OF inv e to(1) t(1) q])
    show "Log rf \<in> H" using al(1) acc l(1) linv_log [OF inv to(1)] by (simp split: if_splits)
    show "Log rf = Log ?rf" if "State rf = Leader" using nacc [OF that] al(1) by simp
    show "granted (calls t) = ?G"
      unfolding t by (subst granted_upd [OF k]) (auto simp: c(1) [symmetric] granted_def grant_of_def c(3))
    show "append_reqs (calls t) \<subseteq> append_reqs (calls s)"
      unfolding t by (rule append_reqs_upd [OF k]) (simp_all add: c(1))
  qed
qed

lemma linv_deliver:
  assumes inv: "linv n s H" and k: "k < length (calls s)" and res: "deliver k s = Inr t"
  shows "linv n t H \<and> leader_keeps n (servers s) (servers t)"
proof -
  note e = einv_deliver [OF linv_einv [OF inv] k res]
  show ?thesis
  proof (cases "c_rep (calls s ! k)")
    case (Some r)
    with res inv show ?thesis by (simp add: deliver_def Let_def leader_keeps_refl)
  next
    case None
    show ?thesis
    proof (cases "c_req (calls s ! k)")
      case (VoteReq a el)
      with res None obtain rf reply where
        "RequestVote a (servers s ! c_to (calls s ! k)) = Inr (rf, reply)"
        "servers t = (servers s)[c_to (calls s ! k) := rf]"
        "calls t = (calls s)[k := (calls s ! k)\<lparr>c_rep := Some (VoteRep reply)\<rparr>]"
        by (auto simp: deliver_def Let_def gbind_eq_Inr)
      then show ?thesis by (rule linv_vote [OF inv k e refl None VoteReq])
    next
      case (AppendReq a)
      with res None obtain rf reply where
        "AppendEntries a (servers s ! c_to (calls s ! k)) = Inr (rf, reply)"
        "servers t = (servers s)[c_to (calls s ! k) := rf]"
        "calls t = (calls s)[k := (calls s ! k)\<lparr>c_rep := Some (AppendRep reply)\<rparr>]"
        by (auto simp: deliver_def Let_def gbind_eq_Inr)
      then show ?thesis by (rule linv_append [OF inv k e refl None AppendReq])
    qed
  qed
qed

lemma calls_returned:
  assumes "k < length cs"
  shows "granted (cs[k := (cs ! k)\<lparr>c_returned := True\<rparr>]) = granted cs"
    "append_reqs (cs[k := (cs ! k)\<lparr>c_returned := True\<rparr>]) \<subseteq> append_reqs cs"
  using assms append_reqs_upd [of k cs]
  by (subst granted_upd, auto simp: granted_def dest: nth_mem)+

lemma linv_failed:
  assumes inv: "linv n s H" and k: "k < length (calls s)"
  shows "linv n (return_failed k s) H \<and> leader_keeps n (servers s) (servers (return_failed k s))"
  using calls_returned [OF k]
  by (intro linv_same [OF inv einv_failed [OF linv_einv [OF inv] k]]) (auto simp: return_failed_def)

text \<open>A newly elected leader finds no entry of its term in any log.\<close>

lemma linv_elected:
  assumes inv: "linv n s H" and e: "einv n t" and i: "i < n"
    and cand: "State (servers s ! i) = Candidate"
    and t: "servers t = (servers s)[i := (BeLeader (servers s ! i))\<lparr>voteCh := ch\<rparr>]"
      "granted (calls t) = granted (calls s)" "append_reqs (calls t) \<subseteq> append_reqs (calls s)"
  shows "linv n t H \<and> leader_keeps n (servers s) (servers t)"
proof -
  let ?rf = "(BeLeader (servers s ! i))\<lparr>voteCh := ch\<rparr>" and ?T = "CurrentTerm (servers s ! i)"
  have ok: "cluster_ok n s" and len: "length (servers s) = n"
    using linv_einv [OF inv] by (auto simp: einv_def cluster_okD)
  have gt: "ginv n (servers t) (granted (calls t))" using e by (simp add: einv_def)
  have adv: "advance (servers s ! i) ?rf" using cand by (simp add: advance_def)
  have ti: "servers t ! i = ?rf" using i len by (simp add: t)
  have bi: "burnt n (servers t) (granted (calls t)) i ?T"
    using leader_burnt [OF gt i] by (simp add: ti)
  have nb: "\<not> burnt n (servers s) (granted (calls s)) c ?T" for c
  proof
    assume b: "burnt n (servers s) (granted (calls s)) c ?T"
    have "burnt n (servers t) (granted (calls t)) c ?T"
      by (rule burnt_step [OF b e i len t(1) adv]) (simp_all add: t(2))
    from burnt_unique [OF gt this bi] b cand show False by (simp add: burnt_def)
  qed
  have pos: "1 \<le> ?T" using cluster_okD(2) [OF ok i] by (simp add: peer_ok_def)
  show ?thesis
  proof (rule linv_step [OF inv e i t(1) _ adv])
    show "leader_has ?rf H" unfolding leader_has_def
    proof (intro ballI allI impI)
      fix l k assume l: "l \<in> H" "k < length l" "Log_Term (l ! k) = CurrentTerm ?rf"
      then have "Log_Term (l ! k) = -1 \<or> (\<exists>c. burnt n (servers s) (granted (calls s)) c (Log_Term (l ! k)))"
        using inv nth_mem [OF l(2)] unfolding linv_def hist_ok_def by blast
      with nb pos l(3) show "k < length (Log ?rf)" by auto
    qed
  qed (use cand t linv_log [OF inv i] in simp_all)
qed

lemma linv_reply:
  assumes inv: "linv n s H" and k: "k < length (calls s)" and res: "return_reply k s = Inr t"
  shows "linv n t H \<and> leader_keeps n (servers s) (servers t)"
proof -
  let ?c = "calls s ! k" and ?rf = "servers s ! c_from (calls s ! k)"
  note e = einv_reply [OF linv_einv [OF inv] k res] and cr = calls_returned [OF k]
  have "cluster_ok n s" using linv_einv [OF inv] by (simp add: einv_def)
  then have i: "c_from ?c < n" using cluster_okD(4) [OF _ k] by (auto simp: call_ok_def)
  have "t = s \<or> (\<exists>rf. servers t = (servers s)[c_from ?c := rf] \<and>
      calls t = (calls s)[k := ?c\<lparr>c_returned := True\<rparr>] \<and>
      ((\<exists>v x. appendLog_reply (int (c_to ?c)) v ?rf = Inr (rf, x)) \<or>
       (\<exists>a v m x. startElection_reply a v ?rf m = Inr (rf, x))))"
    using res by (auto simp: return_reply_def Let_def gbind_eq_Inr
        split: if_splits request.splits response.splits option.splits)
  then consider "t = s" | rf where "servers t = (servers s)[c_from ?c := rf]"
    "calls t = (calls s)[k := ?c\<lparr>c_returned := True\<rparr>]"
    "quiet ?rf rf \<and> Log rf = Log ?rf \<or> State ?rf = Candidate \<and> rf = (BeLeader ?rf)\<lparr>voteCh := [True]\<rparr>"
    using appendLog_reply_quiet startElection_reply_outcome by blast
  then show ?thesis
  proof cases
    case 1
    with inv show ?thesis by (simp add: leader_keeps_refl)
  next
    case 2
    from 2(3) show ?thesis
    proof
      assume q: "quiet ?rf rf \<and> Log rf = Log ?rf"
      then show ?thesis
        using cr linv_log [OF inv i] by (intro linv_quiet [OF inv e i 2(1)]) (simp_all add: 2(2))
    next
      assume "State ?rf = Candidate \<and> rf = (BeLeader ?rf)\<lparr>voteCh := [True]\<rparr>"
      then show ?thesis
        using cr 2(1) by (intro linv_elected [OF inv e i]) (simp_all add: 2(2))
    qed
  qed
qed

text \<open>A client's command adds one log to the history.\<close>

text \<open>The history and the leaders' claims after a leader has appended an entry of its term.\<close>

lemma hist_ok_started:
  assumes h: "hist_ok n (servers s) G H" and L: "Log (servers s ! i) \<in> H" and len: "length (servers s) = n"
    and has: "leader_has (servers s ! i) H" and b: "\<And>c T. burnt n (servers s) G c T \<Longrightarrow> burnt n (servers t) G c T"
    and bi: "burnt n (servers t) G i (CurrentTerm (servers s ! i))" and t: "servers t = (servers s)[i := rf]"
    and rf: "Log rf = Log (servers s ! i) @ [x]" "Log_Term x = CurrentTerm (servers s ! i)"
  shows "hist_ok n (servers t) G (insert (Log rf) H)"
  unfolding hist_ok_def
proof (intro conjI)
  let ?L = "Log (servers s ! i)"
  have m: "log_match (Log rf) l" if l: "l \<in> H" for l
  proof -
    have "log_match ?L l" using h L l by (simp add: hist_ok_def)
    moreover have "Log_Term (l ! length ?L) \<noteq> Log_Term x" if "length ?L < length l"
      using has l that by (auto simp: leader_has_def rf(2))
    ultimately show ?thesis unfolding rf(1) by (rule log_match_snoc)
  qed
  show "\<forall>j<n. Log (servers t ! j) \<in> insert (Log rf) H"
    using h len by (simp add: hist_ok_def t nth_list_update_cases)
  show "\<forall>l\<in>insert (Log rf) H. \<forall>k\<in>insert (Log rf) H. log_match l k"
    using h m by (auto simp: hist_ok_def log_match_refl intro: log_match_sym)
  have "\<forall>l\<in>H. \<forall>y\<in>set l. Log_Term y = -1 \<or> (\<exists>c. burnt n (servers t) G c (Log_Term y))"
    using h b unfolding hist_ok_def by blast
  with L bi show "\<forall>l\<in>insert (Log rf) H. \<forall>y\<in>set l. Log_Term y = -1 \<or> (\<exists>c. burnt n (servers t) G c (Log_Term y))"
    by (auto simp: rf)
qed

lemma leader_has_started:
  assumes inv: "linv n s H" and i: "i < n" and ld: "State (servers s ! i) = Leader"
    and t: "servers t = (servers s)[i := rf]" and rf: "CurrentTerm rf = CurrentTerm (servers s ! i)"
      "Log rf = Log (servers s ! i) @ [x]" "Log_Term x = CurrentTerm (servers s ! i)"
    and j: "j < n" "State (servers t ! j) = Leader"
  shows "leader_has (servers t ! j) (insert (Log rf) H)"
proof -
  have g: "ginv n (servers s) (granted (calls s))" and len: "length (servers s) = n"
    using linv_einv [OF inv] by (auto simp: einv_def cluster_okD)
  have L: "Log (servers s ! i) \<in> H" and has: "leader_has (servers s ! i) H"
    using inv i ld linv_log [OF inv i] by (auto simp: linv_def)
  show ?thesis
  proof (cases "j = i")
    case True
    then show ?thesis using has L i len by (auto simp: leader_has_def t rf(1,2) less_Suc_eq)
  next
    case False
    with j len have sj: "servers t ! j = servers s ! j" "State (servers s ! j) = Leader" by (auto simp: t)
    have "leader_has (servers s ! j) H" using inv j(1) sj(2) by (simp add: linv_def)
    moreover have "CurrentTerm (servers s ! j) \<noteq> CurrentTerm (servers s ! i)"
      using ginv_one_leader [OF g j(1) i sj(2) ld] False by blast
    ultimately show ?thesis
      using L unfolding leader_has_def sj(1) rf(2) by (auto simp: nth_append rf(3) less_Suc_eq)
  qed
qed

lemma linv_started:
  assumes inv: "linv n s H" and e: "einv n t" and i: "i < n"
    and ld: "State (servers s ! i) = Leader" and q: "quiet (servers s ! i) rf"
    and t: "servers t = (servers s)[i := rf]" "calls t = calls s"
    and rf: "State rf = Leader" "CurrentTerm rf = CurrentTerm (servers s ! i)"
      "Log rf = Log (servers s ! i) @ [x]" "Log_Term x = CurrentTerm (servers s ! i)"
  shows "linv n t (insert (Log rf) H) \<and> leader_keeps n (servers s) (servers t)"
proof
  let ?G = "granted (calls s)"
  have g: "ginv n (servers s) ?G" and len: "length (servers s) = n"
    using linv_einv [OF inv] by (auto simp: einv_def cluster_okD)
  have h: "hist_ok n (servers s) ?G H" "Log (servers s ! i) \<in> H" "leader_has (servers s ! i) H"
    using inv i ld linv_log [OF inv i] by (auto simp: linv_def)
  have b: "burnt n (servers s) ?G c T \<Longrightarrow> burnt n (servers t) ?G c T" for c T
    by (rule burnt_step [where rf = rf and s = s and t = t and i = i, unfolded t(2)])
      (use e i len t(1) advance_quiet [OF q] in auto)
  have "hist_ok n (servers t) ?G (insert (Log rf) H)"
    by (rule hist_ok_started [OF h(1,2) len h(3) b b [OF leader_burnt [OF g i ld]] t(1) rf(3,4)])
  with leader_has_started [OF inv i ld t(1) rf(2-4)] show "linv n t (insert (Log rf) H)"
    using inv e b unfolding linv_def t(2) by blast
  show "leader_keeps n (servers s) (servers t)"
    using len by (simp add: leader_keeps_def t(1) nth_list_update_cases rf(3))
qed

lemma linv_client:
  assumes inv: "linv n s H" and i: "i < n" and e: "einv n t" and t: "t = client_start i c s"
  shows "\<exists>H'. H \<subseteq> H' \<and> linv n t H' \<and> leader_keeps n (servers s) (servers t)"
proof -
  obtain rf r where st: "Start c (servers s ! i) = (rf, r)" by (cases "Start c (servers s ! i)")
  have t': "servers t = (servers s)[i := rf]" "calls t = calls s"
    by (simp_all add: t client_start_def st)
  note q = Start_quiet [OF st] and lg = Start_log [OF st]
  show ?thesis
  proof (cases "State (servers s ! i) = Leader")
    case True
    have rf: "State rf = Leader" "CurrentTerm rf = CurrentTerm (servers s ! i)"
      using st True by (auto simp: Start_def Let_def)
    have "linv n t (insert (Log rf) H) \<and> leader_keeps n (servers s) (servers t)"
      by (rule linv_started [OF inv e i True q t' rf,
            where x = "\<lparr>Log_Term = CurrentTerm (servers s ! i), Log_Command = Some c\<rparr>"])
        (simp_all add: lg True)
    then show ?thesis by blast
  next
    case False
    with lg have "Log rf = Log (servers s ! i)" by simp
    with linv_quiet [OF inv e i t'(1) q] linv_log [OF inv i] show ?thesis by (auto simp: t'(2))
  qed
qed

lemma linv_init: "linv n (init_cluster n) {[sentinel]}"
proof -
  let ?s = "init_cluster n :: 'a cluster"
  have sv: "servers ?s ! i = Make [0..<n] (int i) MakePersister" if "i < n" for i
    using that by (simp add: init_cluster_def)
  have "Log_Term (sentinel :: 'a Log) = -1" by (simp add: sentinel_def)
  then have "hist_ok n (servers ?s) {} {[sentinel]}"
    by (simp add: hist_ok_def sv Make_empty log_match_refl)
  then show ?thesis
    using einv_init [of n] by (simp add: linv_def init_cluster_def granted_def append_reqs_def Make_fields)
qed

lemma linv_stable_step:
  assumes inv: "linv n s H" and st: "stable_step s t"
  shows "\<exists>H'. H \<subseteq> H' \<and> linv n t H' \<and> leader_keeps n (servers s) (servers t)"
proof -
  have len: "length (servers s) = n" using linv_einv [OF inv] by (simp add: einv_def cluster_okD)
  from st obtain ev where nc: "\<not> is_crash ev" and res: "step ev s = Inr t"
    by (auto simp: stable_step_def)
  have e: "einv n t" using step_einv [OF linv_einv [OF inv] res] .
  have id: "\<exists>H'. H \<subseteq> H' \<and> linv n s H' \<and> leader_keeps n (servers s) (servers s)"
    using inv by (auto simp: leader_keeps_refl)
  have one: ?thesis if "linv n t H \<and> leader_keeps n (servers s) (servers t)" using that by blast
  have main: ?thesis if "i < n" "t \<in> {main_read i s, main_vote i s, main_append i s, main_leader i s}" for i
    using one [OF linv_main [OF inv that]] .
  show ?thesis
  proof (cases "t = s")
    case True
    with id show ?thesis by simp
  next
    case ne: False
    show ?thesis
    proof (cases ev)
      case (MainTimeout i)
      with res ne len have "i < n" "t = main_timeout i s" by (auto split: if_splits)
      with linv_timeout [OF inv] show ?thesis by (intro one) simp
    next
      case (RunGoroutine k)
      with res ne show ?thesis by (intro one linv_goroutine [OF inv, of k]) (auto split: if_splits)
    next
      case (Deliver k)
      with res ne show ?thesis by (intro one linv_deliver [OF inv, of k]) (auto split: if_splits)
    next
      case (Reply k)
      with res ne show ?thesis by (intro one linv_reply [OF inv, of k]) (auto split: if_splits)
    next
      case (Fail k)
      with res ne have "k < length (calls s)" "t = return_failed k s" by (auto split: if_splits)
      with linv_failed [OF inv] show ?thesis by (intro one) simp
    next
      case (Client i c)
      with res ne len have "i < n" "t = client_start i c s" by (auto split: if_splits)
      with linv_client [OF inv _ e] show ?thesis by blast
    qed (use nc res ne len main in \<open>auto split: if_splits\<close>)
  qed
qed

section \<open>Every state of a cluster without crashes\<close>

lemma stable_linv: "stable_reachable n s \<Longrightarrow> \<exists>H. linv n s H"
proof (induction rule: reach.induct)
  case (reach_init s)
  then show ?case using linv_init by (auto simp: starts_def)
next
  case (reach_step s t)
  then show ?case using linv_stable_step by blast
qed

lemma stable_logs_match:
  assumes "stable_reachable n s" and "i < n" "j < n"
  shows "log_match (Log (servers s ! i)) (Log (servers s ! j))"
proof -
  from stable_linv [OF assms(1)] obtain H where "linv n s H" ..
  with assms(2,3) show ?thesis by (auto simp: linv_def hist_ok_def)
qed

lemma stable_leader_keeps:
  assumes "stable_reachable n s" and "stable_step s t"
  shows "leader_keeps n (servers s) (servers t)"
  using stable_linv [OF assms(1)] linv_stable_step [OF _ assms(2)] by blast

end
