(* ===== verification/Raft_Anomalies.thy ===== *)
theory Raft_Anomalies
  imports Raft_System
begin

text \<open>
  Runs of a cluster of three peers in which the implementation departs from the protocol of
  the Raft paper. Each is a list of events of \<^const>\<open>run\<close>, evaluated on the initial
  cluster, so each is an execution of the modelled code under some scheduling of its
  goroutines and some delays of the network.
\<close>

section \<open>Runs\<close>

text \<open>Peer 0 times out and is elected in term 2 by everybody.\<close>

definition elect0 :: "nat event list" where
  "elect0 = [MainRead 0, MainTimeout 0, RunGoroutine 0, Deliver 0, Deliver 1, Reply 0, Reply 1]"

text \<open>A client's command arrives at the leader between a heartbeat and its reply.\<close>

definition overcount :: "nat event list" where
  "overcount = elect0 @ [MainRead 0, MainLeader 0, RunGoroutine 1, Deliver 2, Client 0 7, Reply 2]"

text \<open>After it, peer 1 is elected in term 3 by peer 2, and replicates another command.\<close>

definition split_brain :: "nat event list" where
  "split_brain = overcount @
     [MainRead 1, MainTimeout 1, RunGoroutine 3, Deliver 4, Reply 4,
      Client 1 8, MainRead 1, MainLeader 1, RunGoroutine 5, Deliver 5, Reply 5]"

text \<open>A heartbeat is delayed until after a command has been replicated to the follower and
  committed.\<close>

definition stale_append :: "nat event list" where
  "stale_append = elect0 @
     [MainRead 0, MainLeader 0, RunGoroutine 1, Client 0 7,
      MainRead 0, MainLeader 0, RunGoroutine 3, Deliver 3, Reply 3, Deliver 2]"

text \<open>Peer 0 leads in term 2, takes a command, steps down, leads in term 4, and has two
  requests to a follower that lacks the command under way at once.\<close>

definition next_index_panic :: "nat event list" where
  "next_index_panic = elect0 @
     [Client 0 7, MainRead 1, MainTimeout 1, MainRead 1, MainTimeout 1, RunGoroutine 2, Deliver 2,
      MainRead 0, MainTimeout 0, RunGoroutine 3, Deliver 5, Reply 5,
      MainRead 0, MainLeader 0, MainRead 0, MainLeader 0,
      RunGoroutine 4, RunGoroutine 6, Deliver 6, Deliver 7, Reply 6, Reply 7, RunGoroutine 8]"

text \<open>Peer 1 is elected in term 2 and crashes before anything made it save its state.\<close>

definition elect1 :: "nat event list" where
  "elect1 = [MainRead 1, MainTimeout 1, RunGoroutine 0, Deliver 1, Reply 1]"

definition forgotten_vote :: "nat event list" where
  "forgotten_vote = elect1 @
     [MainRead 1, MainLeader 1, RunGoroutine 1, Crash 1,
      MainRead 0, MainTimeout 0, RunGoroutine 3, Deliver 3, Reply 3]"

section \<open>What they show\<close>

definition after :: "nat event list \<Rightarrow> (nat cluster \<Rightarrow> bool) \<Rightarrow> bool" where
  "after es P \<longleftrightarrow> (case run es (init_cluster 3) of Inl e \<Rightarrow> False | Inr s \<Rightarrow> P s)"

definition applied_by :: "nat cluster \<Rightarrow> nat \<Rightarrow> (int \<times> nat option) list" where
  "applied_by s i = map (\<lambda>m. (AM_Index m, AM_Command m)) (applyCh (servers s ! i))"

text \<open>The leader commits and applies an entry no follower has: the reply handler sets
  \<open>MatchIndex\<close> from the length its log has when the reply arrives, not from what the
  request carried.\<close>

theorem commit_without_replication:
  "after overcount (\<lambda>s. applied_by s 0 = [(1, Some 7)] \<and>
     length (Log (servers s ! 1)) = 1 \<and> length (Log (servers s ! 2)) = 1)"
  by code_simp

text \<open>Two peers apply different commands at the same index.\<close>

theorem applied_commands_differ:
  "after split_brain (\<lambda>s. applied_by s 0 = [(1, Some 7)] \<and> applied_by s 1 = [(1, Some 8)])"
  by code_simp

text \<open>A delayed heartbeat removes an entry that was acknowledged and committed: the handler
  cuts the log after the matching entry even when the request agrees with what follows.\<close>

theorem stale_heartbeat_drops_committed_entry:
  "after stale_append (\<lambda>s. applied_by s 0 = [(1, Some 7)] \<and>
     map (\<lambda>c. c_rep c) (filter (\<lambda>c. c_to c = 1) (drop 2 (calls s))) =
       [Some (AppendRep \<lparr>AER_Term = 2, AER_Success = True\<rparr>),
        Some (AppendRep \<lparr>AER_Term = 2, AER_Success = True\<rparr>)] \<and>
     length (Log (servers s ! 1)) = 1 \<and> length (Log (servers s ! 2)) = 1)"
  by code_simp

text \<open>Two failure replies take \<open>NextIndex\<close> below one and the next request reads
  \<open>Log[-1]\<close>.\<close>

theorem next_index_below_log:
  "run next_index_panic (init_cluster 3) = Inl IndexOutOfRange"
  by code_simp

text \<open>A candidate's new term and vote for itself are not saved, so a peer that led in a term
  can vote for another leader of the same term after a restart.\<close>

theorem two_leaders_of_one_term_over_time:
  "after elect1 (\<lambda>s. GetState (servers s ! 1) = (2, True)) \<and>
   after forgotten_vote (\<lambda>s. GetState (servers s ! 0) = (2, True))"
  by code_simp

text \<open>The new leader then accepts the heartbeat the old one had sent and cuts its own log.\<close>

theorem leader_log_cut_after_crash:
  "after (forgotten_vote @ [Client 0 5])
     (\<lambda>s. State (servers s ! 0) = Leader \<and> length (Log (servers s ! 0)) = 2) \<and>
   after (forgotten_vote @ [Client 0 5, Deliver 2])
     (\<lambda>s. State (servers s ! 0) = Leader \<and> length (Log (servers s ! 0)) = 1)"
  by code_simp

end
