(* ===== verification/Raft_Liveness.thy ===== *)
theory Raft_Liveness
  imports Raft_Wellformed
begin

text \<open>
  Progress of elections: from every state that a cluster of at least two peers can reach, crashed
  and restarted peers included, some run without a crash elects a leader. The run lets the peer
  with the most up-to-date log time out until its term exceeds every other term, and delivers the
  votes it asks for.
\<close>

section \<open>Runs\<close>

lemma run_append: "run (es @ es') s = gbind (run es s) (run es')"
proof (induction es arbitrary: s)
  case (Cons e es)
  then show ?case by (cases "step e s") simp_all
qed simp

lemma run_ok: "run es s = Inr t \<Longrightarrow> cluster_ok n s \<Longrightarrow> cluster_ok n t"
  by (induction es arbitrary: s) (auto simp: gbind_eq_Inr dest: step_ok)

section \<open>The candidate\<close>

abbreviation last_term :: "'c Raft \<Rightarrow> int" where
  "last_term rf \<equiv> Log_Term (last (Log rf))"

definition newer_log :: "'c Raft \<Rightarrow> 'c Raft \<Rightarrow> bool" where
  "newer_log rf rf' \<longleftrightarrow> last_term rf' < last_term rf \<or>
     last_term rf' = last_term rf \<and> length (Log rf') \<le> length (Log rf)"

lemma newest_log:
  assumes "0 < n"
  shows "\<exists>i<n. \<forall>j<n. newer_log (ss ! i) (ss ! j)"
proof -
  let ?T = "Max ((\<lambda>j. last_term (ss ! j)) ` {..<n})"
  let ?M = "{j. j < n \<and> last_term (ss ! j) = ?T}"
  have "?T \<in> (\<lambda>j. last_term (ss ! j)) ` {..<n}" using assms by (intro Max_in) auto
  then have M: "?M \<noteq> {}" "finite ?M" by auto
  then have "Max ((\<lambda>j. length (Log (ss ! j))) ` ?M) \<in> (\<lambda>j. length (Log (ss ! j))) ` ?M" by (intro Max_in) auto
  then obtain i where i: "i \<in> ?M" "length (Log (ss ! i)) = Max ((\<lambda>j. length (Log (ss ! j))) ` ?M)" by auto
  have "newer_log (ss ! i) (ss ! j)" if "j < n" for j
  proof (cases "last_term (ss ! j) = ?T")
    case True
    then have "length (Log (ss ! j)) \<le> length (Log (ss ! i))" using that M i(2) by (auto intro: Max_ge)
    with True i(1) show ?thesis by (simp add: newer_log_def)
  next
    case False
    moreover have "last_term (ss ! j) \<le> ?T" using that by (intro Max_ge) auto
    ultimately show ?thesis using i(1) by (simp add: newer_log_def)
  qed
  with i(1) show ?thesis by auto
qed

section \<open>Votes\<close>

lemma RequestVote_grants:
  assumes "peer_ok n j rf" and "CurrentTerm rf < RVA_Term args"
    and "up_to_date args (Log rf)"
  shows "\<exists>rf'. RequestVote args rf = Inr (rf', \<lparr>RVR_Term = RVA_Term args, RVR_VoteGranted = True\<rparr>)"
proof -
  have "Log rf \<noteq> []" "send (voteCh rf) = Inr [True]"
    using peer_ok_log [OF assms(1)] peer_ok_chans [OF assms(1)] by (simp_all add: send_ok)
  with assms(2,3) show ?thesis by (auto simp: RequestVote_def BeFollower_def up_to_date_def go_idx_last Let_def)
qed

definition is_leader_of :: "nat \<Rightarrow> int \<Rightarrow> 'c cluster \<Rightarrow> bool" where
  "is_leader_of i T s \<longleftrightarrow> State (servers s ! i) = Leader \<and> CurrentTerm (servers s ! i) = T"

text \<open>The candidate \<open>i\<close> has counted \<open>p\<close> votes of its election \<open>e\<close>; its calls to the peers that
  follow in \<open>ps\<close> are under way.\<close>

definition canvass :: "nat \<Rightarrow> nat \<Rightarrow> RequestVoteArgs \<Rightarrow> nat \<Rightarrow> nat \<Rightarrow> nat list \<Rightarrow> nat \<Rightarrow> 'c cluster \<Rightarrow> bool" where
  "canvass n i arg e m ps p s \<longleftrightarrow> cluster_ok n s \<and> i < n \<and> State (servers s ! i) = Candidate \<and>
     CurrentTerm (servers s ! i) = RVA_Term arg \<and> e < length (elections s) \<and>
     e_count (elections s ! e) = 1 + int p \<and> distinct ps \<and> set ps \<subseteq> {..<n} - {i} \<and>
     (\<forall>q<length ps. p \<le> q \<longrightarrow> m + q < length (calls s) \<and> calls s ! (m + q) = new_call i (ps ! q) (VoteReq arg e) \<and>
        CurrentTerm (servers s ! (ps ! q)) < RVA_Term arg \<and> up_to_date arg (Log (servers s ! (ps ! q))))"


lemma canvass_deliver:
  assumes c: "canvass n i arg e m ps p s" and p: "p < length ps"
  shows "\<exists>rf' t. step (Deliver (m + p)) s = Inr t \<and>
    t = s\<lparr>servers := (servers s)[ps ! p := rf'], calls := (calls s)[m + p := (new_call i (ps ! p) (VoteReq arg e))
      \<lparr>c_rep := Some (VoteRep \<lparr>RVR_Term = RVA_Term arg, RVR_VoteGranted = True\<rparr>)\<rparr>]\<rparr>"
proof -
  let ?j = "ps ! p"
  have j: "?j < n" "?j \<noteq> i" and ok: "cluster_ok n s" using c p by (auto simp: canvass_def subset_iff)
  have k: "m + p < length (calls s)" "calls s ! (m + p) = new_call i ?j (VoteReq arg e)"
    using c p by (auto simp: canvass_def)
  have "CurrentTerm (servers s ! ?j) < RVA_Term arg" "up_to_date arg (Log (servers s ! ?j))"
    using c p by (auto simp: canvass_def)
  from RequestVote_grants [OF cluster_okD(2) [OF ok j(1)] this] obtain rf' where
    "RequestVote arg (servers s ! ?j) = Inr (rf', \<lparr>RVR_Term = RVA_Term arg, RVR_VoteGranted = True\<rparr>)" by blast
  with k show ?thesis by (intro exI [of _ rf']) (simp add: deliver_def new_call_def Let_def)
qed

lemma canvass_reply:
  assumes ok: "cluster_ok n t" and i: "i < n" and st: "State (servers t ! i) = Candidate"
    and tm: "CurrentTerm (servers t ! i) = RVA_Term arg"
    and k: "k < length (calls t)" "calls t ! k = (new_call i j (VoteReq arg e))
      \<lparr>c_rep := Some (VoteRep \<lparr>RVR_Term = RVA_Term arg, RVR_VoteGranted = True\<rparr>)\<rparr>"
  shows "\<exists>u. step (Reply k) t = Inr u \<and>
    (if e_count (elections t ! e) + 1 > int (n div 2) then is_leader_of i (RVA_Term arg) u
     else u = t\<lparr>elections := (elections t)[e := (elections t ! e)\<lparr>e_count := e_count (elections t ! e) + 1\<rparr>],
                calls := (calls t)[k := (calls t ! k)\<lparr>c_returned := True\<rparr>]\<rparr>)"
proof -
  have rf: "peer_ok n i (servers t ! i)" and len: "i < length (servers t)" using cluster_okD(1,2) [OF ok] i by auto
  have "send (voteCh (servers t ! i)) = Inr [True]" "length (peers (servers t ! i)) = n"
    using peer_ok_chans [OF rf] rf by (simp_all add: send_ok peer_ok_def)
  with st tm k len show ?thesis
    by (auto simp: return_reply_def startElection_reply_def new_call_def Let_def BeLeader_def is_leader_of_def)
qed

lemma canvass_next:
  assumes c: "canvass n i arg e m ps p s" and p: "p < length ps"
  shows "\<exists>u. run [Deliver (m + p), Reply (m + p)] s = Inr u \<and>
    (if n div 2 \<le> Suc p then is_leader_of i (RVA_Term arg) u else canvass n i arg e m ps (Suc p) u)"
proof -
  let ?k = "m + p" and ?j = "ps ! p"
  from canvass_deliver [OF c p] obtain rf' t where dt: "step (Deliver ?k) s = Inr t"
    and t: "t = s\<lparr>servers := (servers s)[?j := rf'], calls := (calls s)[?k := (new_call i ?j (VoteReq arg e))
      \<lparr>c_rep := Some (VoteRep \<lparr>RVR_Term = RVA_Term arg, RVR_VoteGranted = True\<rparr>)\<rparr>]\<rparr>" by blast
  have j: "?j \<noteq> i" and ok: "cluster_ok n s" "cluster_ok n t" and i: "i < n"
    using c p step_ok [OF _ dt, of n] by (auto simp: canvass_def subset_iff)
  have k: "?k < length (calls s)" and cnt: "e_count (elections s ! e) = 1 + int p" "e < length (elections s)"
    using c p by (auto simp: canvass_def)
  have ti: "servers t ! i = servers s ! i" using j by (simp add: t)
  from canvass_reply [OF ok(2) i, of arg ?k ?j e] c k ti obtain u where ru: "step (Reply ?k) t = Inr u"
    and u: "if e_count (elections t ! e) + 1 > int (n div 2) then is_leader_of i (RVA_Term arg) u
     else u = t\<lparr>elections := (elections t)[e := (elections t ! e)\<lparr>e_count := e_count (elections t ! e) + 1\<rparr>],
                calls := (calls t)[?k := (calls t ! ?k)\<lparr>c_returned := True\<rparr>]\<rparr>"
    by (auto simp: canvass_def t)
  have r: "run [Deliver ?k, Reply ?k] s = Inr u" using dt ru by simp
  show ?thesis
  proof (cases "n div 2 \<le> Suc p")
    case True
    with u cnt r show ?thesis by (simp add: t)
  next
    case False
    with u cnt have u: "u = t\<lparr>elections := (elections t)[e := (elections t ! e)\<lparr>e_count := e_count (elections t ! e) + 1\<rparr>],
                calls := (calls t)[?k := (calls t ! ?k)\<lparr>c_returned := True\<rparr>]\<rparr>" by (simp add: t split: if_splits)
    have "?j \<noteq> ps ! q" if "q < length ps" "Suc p \<le> q" for q
      using that p c by (auto simp: canvass_def nth_eq_iff_index_eq)
    then have [simp]: "(servers s)[?j := rf'] ! (ps ! q) = servers s ! (ps ! q)" if "q < length ps" "Suc p \<le> q" for q
      using that by simp
    have "canvass n i arg e m ps (Suc p) u"
      using c step_ok [OF ok(2) ru] j cnt by (auto simp: canvass_def u t)
    with False r show ?thesis by simp
  qed
qed

lemma canvass_wins:
  assumes "canvass n i arg e m ps p s" and "p < n div 2" and "n div 2 \<le> length ps"
  shows "\<exists>es u. run es s = Inr u \<and> list_all (\<lambda>ev. \<not> is_crash ev) es \<and> is_leader_of i (RVA_Term arg) u"
  using assms
proof (induction "n div 2 - p" arbitrary: p s)
  case (Suc d)
  then have p: "p < length ps" by simp
  from canvass_next [OF Suc.prems(1) p] obtain u where u: "run [Deliver (m + p), Reply (m + p)] s = Inr u"
    "if n div 2 \<le> Suc p then is_leader_of i (RVA_Term arg) u else canvass n i arg e m ps (Suc p) u" by blast
  show ?case
  proof (cases "n div 2 \<le> Suc p")
    case True
    with u show ?thesis by (intro exI [of _ "[Deliver (m + p), Reply (m + p)]"]) auto
  next
    case False
    moreover have "d = n div 2 - Suc p" using Suc.hyps(2) by simp
    ultimately obtain es v where
      "run es u = Inr v" "list_all (\<lambda>ev. \<not> is_crash ev) es" "is_leader_of i (RVA_Term arg) v"
      using u(2) Suc.hyps(1) [of "Suc p" u] Suc.prems(3) by auto
    with u(1) show ?thesis
      by (intro exI [of _ "Deliver (m + p) # Reply (m + p) # es"] exI [of _ v]) (auto simp: gbind_eq_Inr)
  qed
qed simp


section \<open>Timeouts\<close>

lemma time_out:
  assumes ok: "cluster_ok n s" and i: "i < n" and nl: "State (servers s ! i) \<noteq> Leader"
  shows "\<exists>t. run [MainLeader i, MainRead i, MainTimeout i] s = Inr t \<and> servers t = (servers s)[i := BeCandidate (servers s ! i)] \<and>
    gors t \<noteq> [] \<and> last (gors t) = (i, GElect)"
proof -
  have len: "i < length (servers s)" "i < length (mains s)" using ok i by (auto simp: cluster_ok_def peers_ok_def)
  show ?thesis using nl len
    by (cases "mains s ! i"; cases "State (servers s ! i)")
      (simp_all add: main_leader_def main_read_def main_timeout_def)
qed

text \<open>Repeated timeouts raise the term of a peer to any value above its own.\<close>

lemma time_outs:
  assumes "cluster_ok n s" and "i < n" and "State (servers s ! i) \<noteq> Leader"
  shows "\<exists>es t rf. run es s = Inr t \<and> list_all (\<lambda>ev. \<not> is_crash ev) es \<and> cluster_ok n t \<and>
    servers t = (servers s)[i := rf] \<and> Log rf = Log (servers s ! i) \<and> State rf = Candidate \<and>
    CurrentTerm rf = CurrentTerm (servers s ! i) + 1 + int k \<and> gors t \<noteq> [] \<and> last (gors t) = (i, GElect)"
  using assms
proof (induction k arbitrary: s)
  case 0
  from time_out [OF 0] obtain t where t: "run [MainLeader i, MainRead i, MainTimeout i] s = Inr t"
    "servers t = (servers s)[i := BeCandidate (servers s ! i)]" "gors t \<noteq> []" "last (gors t) = (i, GElect)" by blast
  from run_ok [OF t(1) 0(1)] t show ?case
    by (intro exI [of _ "[MainLeader i, MainRead i, MainTimeout i]"] exI [of _ t] exI [of _ "BeCandidate (servers s ! i)"])
      (auto simp: BeCandidate_def)
next
  case (Suc k)
  have len: "i < length (servers s)" using cluster_okD(1) [OF Suc.prems(1)] Suc.prems(2) by simp
  from time_out [OF Suc.prems] obtain t where t: "run [MainLeader i, MainRead i, MainTimeout i] s = Inr t"
    "servers t = (servers s)[i := BeCandidate (servers s ! i)]" by blast
  have ti: "servers t ! i = BeCandidate (servers s ! i)" using t(2) len by simp
  from Suc.IH [OF run_ok [OF t(1) Suc.prems(1)] Suc.prems(2)] ti obtain es u rf where
    u: "run es t = Inr u" "list_all (\<lambda>ev. \<not> is_crash ev) es" "cluster_ok n u" "servers u = (servers t)[i := rf]"
      "Log rf = Log (servers t ! i)" "State rf = Candidate" "CurrentTerm rf = CurrentTerm (servers t ! i) + 1 + int k"
      "gors u \<noteq> []" "last (gors u) = (i, GElect)"
    by (auto simp: BeCandidate_def)
  have "run ([MainLeader i, MainRead i, MainTimeout i] @ es) s = Inr u" using t(1) u(1) by (simp only: run_append gbind_Inr)
  with u t(2) ti show ?case
    by (intro exI [of _ "[MainLeader i, MainRead i, MainTimeout i] @ es"] exI [of _ u] exI [of _ rf])
      (simp add: BeCandidate_def)
qed

section \<open>Elections can succeed\<close>

text \<open>The goroutine of a timed-out candidate sends its requests for votes.\<close>

lemma start_canvass:
  assumes ok: "cluster_ok n t" and i: "i < n" and st: "State (servers t ! i) = Candidate"
    and g: "gors t \<noteq> []" "last (gors t) = (i, GElect)"
    and others: "\<forall>j<n. j \<noteq> i \<longrightarrow> CurrentTerm (servers t ! j) < CurrentTerm (servers t ! i) \<and>
      newer_log (servers t ! i) (servers t ! j)"
  shows "\<exists>u arg e m ps. step (RunGoroutine (length (gors t) - 1)) t = Inr u \<and> canvass n i arg e m ps 0 u \<and>
    length ps = n - 1 \<and> RVA_Term arg = CurrentTerm (servers t ! i)"
proof -
  let ?rf = "servers t ! i" and ?k = "length (gors t) - 1" and ?e = "length (elections t)"
  define ps where "ps = filter (\<lambda>j. j \<noteq> i) [0..<n]"
  define arg where "arg = \<lparr>RVA_Term = CurrentTerm ?rf, RVA_CandidateId = me ?rf,
    RVA_LastLogIndex = int (length (Log ?rf)) - 1, RVA_LastLogTerm = last_term ?rf\<rparr>"
  define u where "u = t\<lparr>gors := (gors t)[?k := (i, GDone)],
    elections := elections t @ [\<lparr>e_srv = i, e_arg = arg, e_count = 1\<rparr>],
    calls := calls t @ map (\<lambda>j. new_call i j (VoteReq arg ?e)) ps\<rparr>"
  have rf: "peer_ok n i ?rf" using cluster_okD(2) [OF ok i] .
  have "startElection_arg ?rf = Inr arg"
    using peer_ok_log [OF rf] by (simp add: startElection_arg_def go_idx_last arg_def)
  moreover have "startElection_peers ?rf = ps" using rf by (simp add: startElection_peers_def peer_ok_def ps_def)
  ultimately have u: "step (RunGoroutine ?k) t = Inr u"
    using g by (simp add: run_goroutine_def last_conv_nth u_def Let_def)
  have ps: "distinct ps" "set ps \<subseteq> {..<n} - {i}" "set ps = {..<n} - {i}" by (auto simp: ps_def)
  then have "length ps = n - 1" using i distinct_card [OF ps(1)] by simp
  moreover have "canvass n i arg ?e (length (calls t)) ps 0 u"
  proof -
    have "CurrentTerm (servers t ! (ps ! q)) < RVA_Term arg \<and> up_to_date arg (Log (servers t ! (ps ! q)))"
      if "q < length ps" for q
    proof -
      have "ps ! q < n \<and> ps ! q \<noteq> i" using nth_mem [OF that] ps(3) by auto
      with others show ?thesis by (auto simp: arg_def up_to_date_def newer_log_def)
    qed
    then show ?thesis using step_ok [OF ok u] i st ps(1,2)
      by (simp add: canvass_def u_def nth_append) (simp add: arg_def)
  qed
  moreover have "RVA_Term arg = CurrentTerm ?rf" by (simp add: arg_def)
  ultimately show ?thesis using u by blast
qed

lemma elect:
  assumes ok: "cluster_ok n s" and n: "2 \<le> n" and i: "i < n" and nl: "State (servers s ! i) \<noteq> Leader"
    and best: "\<forall>j<n. newer_log (servers s ! i) (servers s ! j)"
  shows "\<exists>es t. run es s = Inr t \<and> list_all (\<lambda>ev. \<not> is_crash ev) es \<and> State (servers t ! i) = Leader \<and>
    (\<forall>j<n. CurrentTerm (servers s ! j) < CurrentTerm (servers t ! i))"
proof -
  let ?M = "Max ((\<lambda>j. CurrentTerm (servers s ! j)) ` {..<n})"
  have M: "CurrentTerm (servers s ! j) \<le> ?M" if "j < n" for j using that by (intro Max_ge) auto
  from time_outs [OF ok i, of "nat (?M - CurrentTerm (servers s ! i))"] nl obtain es t rf where
    t: "run es s = Inr t" "list_all (\<lambda>ev. \<not> is_crash ev) es" "cluster_ok n t" "servers t = (servers s)[i := rf]"
      "Log rf = Log (servers s ! i)" "State rf = Candidate" "gors t \<noteq> []" "last (gors t) = (i, GElect)"
    and trm: "CurrentTerm rf = ?M + 1" using M [OF i] by auto
  have ti: "servers t ! i = rf" using t(4) i cluster_okD(1) [OF ok] by simp
  have "\<forall>j<n. j \<noteq> i \<longrightarrow> CurrentTerm (servers t ! j) < CurrentTerm (servers t ! i) \<and>
      newer_log (servers t ! i) (servers t ! j)"
  proof (intro allI impI)
    fix j assume j: "j < n" "j \<noteq> i"
    then have "servers t ! j = servers s ! j" by (simp add: t(4))
    with M [OF j(1)] best [rule_format, OF j(1)] trm t(5) ti
    show "CurrentTerm (servers t ! j) < CurrentTerm (servers t ! i) \<and> newer_log (servers t ! i) (servers t ! j)"
      by (simp add: newer_log_def)
  qed
  from start_canvass [OF t(3) i _ t(7,8) this] ti t(6) obtain u arg e m ps where
    u: "step (RunGoroutine (length (gors t) - 1)) t = Inr u" "canvass n i arg e m ps 0 u" "length ps = n - 1"
    "RVA_Term arg = CurrentTerm rf" by auto
  have "n div 2 \<le> length ps" using u(3) n by simp
  from canvass_wins [OF u(2) _ this] n obtain es' v where
    v: "run es' u = Inr v" "list_all (\<lambda>ev. \<not> is_crash ev) es'" "is_leader_of i (RVA_Term arg) v" by auto
  let ?es = "es @ RunGoroutine (length (gors t) - 1) # es'"
  have "run ?es s = Inr v" using t(1) u(1) v(1) by (simp add: run_append)
  moreover have "CurrentTerm (servers s ! j) < CurrentTerm rf" if "j < n" for j using M [OF that] trm by simp
  ultimately show ?thesis using t(2) v(2,3) u(4)
    by (intro exI [of _ ?es] exI [of _ v]) (simp add: is_leader_of_def)
qed

lemma elect_some:
  assumes ok: "cluster_ok n s" and n: "2 \<le> n"
  shows "\<exists>es t i. run es s = Inr t \<and> list_all (\<lambda>ev. \<not> is_crash ev) es \<and> i < n \<and> State (servers t ! i) = Leader"
proof -
  from newest_log [of n "servers s"] n obtain i where i: "i < n"
    "\<forall>j<n. newer_log (servers s ! i) (servers s ! j)" by auto
  show ?thesis
  proof (cases "State (servers s ! i) = Leader")
    case True
    then show ?thesis using i(1) by (intro exI [of _ "[]"] exI [of _ s] exI [of _ i]) simp
  next
    case False
    from elect [OF ok n i(1) False i(2)] i(1) show ?thesis by blast
  qed
qed

section \<open>A cluster of one\<close>

text \<open>Votes are counted only when a reply arrives, so a peer without others never leads.\<close>

definition no_leader :: "'c cluster \<Rightarrow> bool" where
  "no_leader s \<longleftrightarrow> cluster_ok 1 s \<and> State (servers s ! 0) \<noteq> Leader"

lemma alone_no_calls: "cluster_ok 1 s \<Longrightarrow> calls s = []"
  by (cases "calls s") (auto simp: cluster_ok_def call_ok_def)

lemma no_leader_step:
  assumes "no_leader s" and "step e s = Inr t"
  shows "no_leader t"
proof -
  have ok: "cluster_ok 1 s" "cluster_ok 1 t" and nl: "State (servers s ! 0) \<noteq> Leader"
    using assms step_ok by (auto simp: no_leader_def)
  have len: "length (servers s) = 1" "calls s = []" using cluster_okD(1) [OF ok(1)] alone_no_calls [OF ok(1)] by simp_all
  have "State (servers t ! 0) \<noteq> Leader"
  proof (cases e)
    case (RunGoroutine k)
    with assms(2) nl show ?thesis
      by (auto simp: run_goroutine_def gbind_eq_Inr Let_def split: if_splits prod.splits goroutine.splits option.splits)
  qed (use assms(2) nl len in \<open>auto simp: main_read_def main_vote_def main_append_def main_timeout_def main_leader_def
      client_start_def crash_restart_def Let_def BeCandidate_def Start_def Make_fields split: if_splits\<close>)
  with ok show ?thesis by (simp add: no_leader_def)
qed

end
