(* ===== verification/Raft_Props.thy ===== *)
theory Raft_Props
  imports Raft_Logs Raft_Anomalies Raft_Liveness
begin

text \<open>
  The properties of the Raft implementation: what one handler computes on every branch, and
  what holds in every state a cluster can reach. The witnesses use states computed from
  concrete runs.
\<close>

section \<open>States of concrete runs\<close>

definition final :: "nat event list \<Rightarrow> nat cluster" where
  "final es = (case run es (init_cluster 3) of Inl e \<Rightarrow> init_cluster 3 | Inr s \<Rightarrow> s)"

lemma final_reachable: "reachable 3 (final es)"
  unfolding final_def
  by (cases "run es (init_cluster 3 :: nat cluster)") (auto intro: run_reachable init_reachable)

lemma final_stable_reachable:
  assumes "list_all (\<lambda>e. \<not> is_crash e) es"
  shows "stable_reachable 3 (final es)"
  unfolding final_def
  by (cases "run es (init_cluster 3 :: nat cluster)")
    (auto intro: run_stable_reachable [OF _ _ assms] init_reachable)

definition fresh_peer :: "nat Raft" where
  "fresh_peer = Make [0, 1, 2] 0 MakePersister"

definition vote_req :: RequestVoteArgs where
  "vote_req = \<lparr>RVA_Term = 2, RVA_CandidateId = 1, RVA_LastLogIndex = 0, RVA_LastLogTerm = -1\<rparr>"

definition append_req :: "nat AppendEntriesArgs" where
  "append_req = \<lparr>AEA_Term = 1, AEA_LeaderId = 1, AEA_PrevLogIndex = 0, AEA_PrevLogTerm = -1,
     AEA_Entries = [\<lparr>Log_Term = 1, Log_Command = Some 7\<rparr>], AEA_LeaderCommit = 5\<rparr>"

section \<open>The commit index a leader proposes\<close>

lemma length_filter_sort: "length (filter P (sort xs)) = length (filter P xs)"
  for xs :: "'a :: linorder list"
  by (simp add: filter_sort)

lemma filter_from_sorted:
  assumes "sorted xs" and "k < length xs"
  shows "length xs - k \<le> length (filter (\<lambda>x. xs ! k \<le> x) xs)"
proof -
  have "filter (\<lambda>x. xs ! k \<le> x) (drop k xs) = drop k xs"
    using assms by (auto simp: filter_id_conv in_set_conv_nth sorted_iff_nth_mono)
  then have "filter (\<lambda>x. xs ! k \<le> x) (take k xs @ drop k xs) =
      filter (\<lambda>x. xs ! k \<le> x) (take k xs) @ drop k xs" by (simp only: filter_append)
  then show ?thesis by simp
qed

lemma filter_above_sorted:
  assumes "sorted xs" and "k < length xs" and "xs ! k < y"
  shows "length (filter (\<lambda>x. y \<le> x) xs) \<le> length xs - Suc k"
proof -
  have "filter (\<lambda>x. y \<le> x) (take (Suc k) xs) = []"
    using assms by (auto simp: filter_empty_conv in_set_conv_nth sorted_iff_nth_mono)
      (meson leD less_Suc_eq_le order_trans)
  then have "filter (\<lambda>x. y \<le> x) (take (Suc k) xs @ drop (Suc k) xs) =
      filter (\<lambda>x. y \<le> x) (drop (Suc k) xs)" by (simp only: filter_append) simp
  then have "filter (\<lambda>x. y \<le> x) xs = filter (\<lambda>x. y \<le> x) (drop (Suc k) xs)" by simp
  then show ?thesis by (metis length_drop length_filter_le)
qed

lemma commit_candidate_nth:
  assumes "m \<noteq> []"
  shows "commit_candidate m = Inr (sort m ! (length m - Suc (length m div 2)))"
  using assms by (simp add: commit_candidate_def go_idx_def rev_nth)

section \<open>Clusters\<close>

lemma persist_eq: "persist rf = rf\<lparr>persister := SaveRaftState (saved rf) (persister rf)\<rparr>"
  by (simp add: persist_def saved_def)

text \<open>C1: election safety. In every state a cluster of \<open>n\<close> peers can reach, with messages
  delayed, lost or reordered and with crashes and restarts at any time, while a peer is
  leader no other peer of the same term is leader.\<close>

theorem election_safety:
  assumes "reachable n s" and "i < n" "j < n" "j \<noteq> i"
    and "State (servers s ! i) = Leader" and "CurrentTerm (servers s ! j) = CurrentTerm (servers s ! i)"
  shows "State (servers s ! j) \<noteq> Leader"
proof -
  have "ginv n (servers s) (granted (calls s))"
    using election_inv.reach_inv [OF assms(1)] by (simp add: einv_def)
  then show ?thesis using ginv_one_leader assms by metis
qed

theorem election_safety_witness:
  "State (servers (final elect0) ! 0) = Leader \<and> State (servers (final elect0) ! 1) \<noteq> Leader"
proof -
  have "State (servers (final elect0) ! 0) = Leader"
    "CurrentTerm (servers (final elect0) ! 1) = CurrentTerm (servers (final elect0) ! 0)"
    by code_simp+
  with election_safety [OF final_reachable, of 0 1 elect0] show ?thesis by simp
qed

text \<open>C2: log matching. In every state a cluster reaches without crashes, if the logs of two
  peers have entries of the same term at the same index, they are equal up to that index.\<close>

theorem log_matching:
  assumes "stable_reachable n s" and "i < n" "j < n"
    and "k < length (Log (servers s ! i))" "k < length (Log (servers s ! j))"
    and "Log_Term (Log (servers s ! i) ! k) = Log_Term (Log (servers s ! j) ! k)"
  shows "take (Suc k) (Log (servers s ! i)) = take (Suc k) (Log (servers s ! j))"
  using stable_logs_match [OF assms(1-3)] assms(4-6) by (simp add: log_match_def)

definition replicated :: "nat event list" where
  "replicated = elect0 @ [Client 0 7, Client 0 8, MainRead 0, MainLeader 0, RunGoroutine 1, Deliver 2]"

theorem log_matching_witness:
  "take 3 (Log (servers (final replicated) ! 0)) = take 3 (Log (servers (final replicated) ! 1))
   \<and> map Log_Command (Log (servers (final replicated) ! 1)) = [None, Some 7, Some 8]"
proof -
  have st: "stable_reachable 3 (final replicated)" by (rule final_stable_reachable) code_simp
  have "2 < length (Log (servers (final replicated) ! 0))"
    "2 < length (Log (servers (final replicated) ! 1))"
    "Log_Term (Log (servers (final replicated) ! 0) ! 2) = Log_Term (Log (servers (final replicated) ! 1) ! 2)"
    "map Log_Command (Log (servers (final replicated) ! 1)) = [None, Some 7, Some 8]"
    by code_simp+
  with log_matching [OF st, of 0 1 2] show ?thesis by (simp add: eval_nat_numeral)
qed







text \<open>C6: a granted vote is durable. Once a peer has granted its vote of a term to a
  candidate, a crash and restart of that peer, at any later time, does not let it grant a vote
  of the same term to another candidate.\<close>

theorem granted_vote_survives_crash:
  assumes r: "reachable n s" and g: "(v, RVA_Term a, c) \<in> granted (calls s)"
    and other: "RVA_CandidateId a \<noteq> int c"
  shows "\<exists>rf' reply. RequestVote a (servers (crash_restart v s) ! v) = Inr (rf', reply) \<and>
    \<not> RVR_VoteGranted reply"
proof -
  have v: "v < n" using election_inv.reach_inv [OF r] g by (auto simp: einv_def ginv_def)
  have len: "length (servers s) = n" using wf_cluster.reach_inv [OF r] cluster_okD(1) by blast
  let ?t = "crash_restart v s"
  have "cluster_step s ?t"
    unfolding cluster_step_def using v len by (intro exI [of _ "Crash v"]) simp
  with r have rt: "reachable n ?t" by (rule reach_step)
  have "calls ?t = map (\<lambda>c. if c_from c = v then c\<lparr>c_returned := True\<rparr> else c) (calls s)"
    by (simp add: crash_restart_def Let_def)
  then have "granted (calls ?t) = granted (calls s)" by (simp only:) (rule granted_map, simp)
  with g have "vote_bound (servers ?t ! v) (RVA_Term a) c"
    using election_inv.reach_inv [OF rt] by (auto simp: einv_def ginv_def)
  moreover have "0 \<le> VoteFor (servers ?t ! v) \<or> CurrentTerm (servers ?t ! v) \<noteq> RVA_Term a"
    using calculation by (auto simp: vote_bound_def)
  ultimately have ng: "\<not> rv_grants a (servers ?t ! v)"
    using other by (auto simp: vote_bound_def rv_grants_def)
  have p: "peer_ok n v (servers ?t ! v)" using wf_cluster.reach_inv [OF rt] cluster_okD(2) v by blast
  from RequestVote_ok [OF p] obtain rf' reply where rv: "RequestVote a (servers ?t ! v) = Inr (rf', reply)"
    by blast
  with RequestVote_outcome [OF rv peer_ok_log [OF p]] ng show ?thesis by auto
qed

theorem granted_vote_survives_crash_witness:
  "\<exists>rf' reply. RequestVote (vote_req\<lparr>RVA_CandidateId := 2\<rparr>)
     (servers (crash_restart 1 (final elect0)) ! 1) = Inr (rf', reply) \<and> \<not> RVR_VoteGranted reply"
proof (rule granted_vote_survives_crash [OF final_reachable, where c = 0])
  have "(1, 2, 0) \<in> granted (calls (final elect0))"
    unfolding granted_def mem_Collect_eq by code_simp
  then show "(1, RVA_Term (vote_req\<lparr>RVA_CandidateId := 2\<rparr>), 0) \<in> granted (calls (final elect0))"
    by (simp add: vote_req_def)
qed (simp add: vote_req_def)

text \<open>The term of a peer that does not crash never goes back.\<close>

lemma term_monotone:
  assumes "reachable n s" and "stable_step s t" and "i < n"
  shows "CurrentTerm (servers s ! i) \<le> CurrentTerm (servers t ! i)"
  using stable_step_terms [OF wf_cluster.reach_inv [OF assms(1)] assms(2)] assms(3)
  by (simp add: terms_le_def)

text \<open>C7: elections can always succeed. From every state a cluster of at least two peers can
  reach, crashes and restarts included, some run without a crash ends with a leader; and a peer
  that is not leader, with a log at least as up to date as every other, can become leader of a
  term above the terms of all peers.\<close>

theorem leader_can_be_elected:
  assumes "reachable n s" and "2 \<le> n"
  shows "(\<exists>es t i. run es s = Inr t \<and> list_all (\<lambda>ev. \<not> is_crash ev) es \<and> i < n \<and> State (servers t ! i) = Leader) \<and>
    (\<forall>i<n. State (servers s ! i) \<noteq> Leader \<and> (\<forall>j<n. newer_log (servers s ! i) (servers s ! j)) \<longrightarrow>
      (\<exists>es t. run es s = Inr t \<and> list_all (\<lambda>ev. \<not> is_crash ev) es \<and> State (servers t ! i) = Leader \<and>
        (\<forall>j<n. CurrentTerm (servers s ! j) < CurrentTerm (servers t ! i))))"
  using elect_some [OF wf_cluster.reach_inv [OF assms(1)] assms(2)] elect [OF wf_cluster.reach_inv [OF assms(1)] assms(2)]
  by simp

theorem leader_can_be_elected_witness:
  "\<exists>es t. run es (final elect0) = Inr t \<and> State (servers t ! 2) = Leader \<and>
     CurrentTerm (servers (final elect0) ! 0) < CurrentTerm (servers t ! 2)"
proof -
  let ?s = "final elect0"
  have "newer_log (servers ?s ! 2) (servers ?s ! 0)" "newer_log (servers ?s ! 2) (servers ?s ! 1)"
    "newer_log (servers ?s ! 2) (servers ?s ! 2)" by code_simp+
  then have "\<forall>j<3. newer_log (servers ?s ! 2) (servers ?s ! j)" by (auto simp: numeral_3_eq_3 numeral_2_eq_2 less_Suc_eq)
  moreover have "State (servers ?s ! 2) \<noteq> Leader" by code_simp
  ultimately obtain es t where "run es ?s = Inr t" "State (servers t ! 2) = Leader"
    "\<forall>j<3. CurrentTerm (servers ?s ! j) < CurrentTerm (servers t ! 2)"
    using leader_can_be_elected [OF final_reachable, of elect0, THEN conjunct2, rule_format, of 2] by auto
  then show ?thesis by (intro exI [of _ es] exI [of _ t]) simp
qed

text \<open>A cluster of one peer never has a leader: the votes are counted only on a reply, and there is
  nobody to ask.\<close>

interpretation alone: inductive_invariant "starts 1" cluster_step no_leader
proof unfold_locales
  show "no_leader s" if "starts 1 s" for s :: "'c cluster"
    using that init_cluster_ok [of 1] by (auto simp: starts_def no_leader_def init_cluster_def Make_fields)
qed (auto simp: cluster_step_def dest: no_leader_step)

theorem single_peer_never_leads:
  assumes "reachable 1 s"
  shows "State (servers s ! 0) \<noteq> Leader"
  using alone.reach_inv [OF assms] by (simp add: no_leader_def)

text \<open>C34: the shape of the state. In every reachable state each peer knows its own number and its
  peers, is in a term of at least one, has a log that starts with the entry \<open>Make\<close> puts there and
  saved data that is empty or decodes to a term, a vote and such a log, and its channels never
  hold more than their capacity; every call is between two different peers and its reply, if any,
  is of the kind of its request.\<close>

theorem cluster_types:
  assumes "reachable n s"
  shows "length (servers s) = n \<and> length (mains s) = n \<and>
    (\<forall>i<n. let rf = servers s ! i in me rf = int i \<and> peers rf = [0..<n] \<and> 1 \<le> CurrentTerm rf \<and>
       Log rf \<noteq> [] \<and> hd (Log rf) = \<lparr>Log_Term = -1, Log_Command = None\<rparr> \<and>
       (raftdata rf = [] \<or> (\<exists>t v l. raftdata rf = [GInt t, GInt v, GLog l] \<and> 1 \<le> t \<and> l \<noteq> [])) \<and>
       length (voteCh rf) \<le> 1 \<and> length (appendLogCh rf) \<le> 1) \<and>
    (\<forall>c\<in>set (calls s). c_from c < n \<and> c_to c < n \<and> c_to c \<noteq> c_from c \<and>
       (case (c_req c, c_rep c) of
          (VoteReq a e, Some (AppendRep r)) \<Rightarrow> False
        | (AppendReq a, Some (VoteRep r)) \<Rightarrow> False
        | _ \<Rightarrow> True))"
proof (intro conjI allI impI ballI)
  note ok = wf_cluster.reach_inv [OF assms]
  show "length (servers s) = n" "length (mains s) = n" using ok by (auto simp: cluster_ok_def peers_ok_def)
  show "let rf = servers s ! i in me rf = int i \<and> peers rf = [0..<n] \<and> 1 \<le> CurrentTerm rf \<and>
       Log rf \<noteq> [] \<and> hd (Log rf) = \<lparr>Log_Term = -1, Log_Command = None\<rparr> \<and>
       (raftdata rf = [] \<or> (\<exists>t v l. raftdata rf = [GInt t, GInt v, GLog l] \<and> 1 \<le> t \<and> l \<noteq> [])) \<and>
       length (voteCh rf) \<le> 1 \<and> length (appendLogCh rf) \<le> 1" if "i < n" for i
    using cluster_okD(2) [OF ok that] by (auto simp: peer_ok_def log_ok_def sentinel_def disk_ok_def Let_def)
  fix c assume "c \<in> set (calls s)"
  then have "call_ok n (length (elections s)) c" using ok by (auto simp: cluster_ok_def list_all_iff)
  then show "c_from c < n" "c_to c < n" "c_to c \<noteq> c_from c" "case (c_req c, c_rep c) of
          (VoteReq a e, Some (AppendRep r)) \<Rightarrow> False | (AppendReq a, Some (VoteRep r)) \<Rightarrow> False | _ \<Rightarrow> True"
    by (auto simp: call_ok_def split: request.splits option.splits response.splits)
qed

theorem cluster_types_witness:
  "length (servers (final elect0)) = 3 \<and> peers (servers (final elect0) ! 1) = [0, 1, 2] \<and>
   1 \<le> CurrentTerm (servers (final elect0) ! 1) \<and> calls (final elect0) \<noteq> []"
proof -
  have "[0..<3] = [0, 1, 2 :: nat]" "calls (final elect0) \<noteq> []" by code_simp+
  with cluster_types [OF final_reachable, of elect0] show ?thesis by (auto simp: Let_def)
qed

text \<open>C8: the state a peer has saved is the state it has after a crash and restart: term, vote
  and log come back, the role is follower and nothing is committed or applied yet.\<close>

theorem persist_restart_roundtrip:
  "let rf' = Make ps i (Copy (crash1_saved (persister (persist rf)))) in
   CurrentTerm rf' = CurrentTerm rf \<and> VoteFor rf' = VoteFor rf \<and> Log rf' = Log rf \<and>
   State rf' = Follower \<and> CommitIndex rf' = 0 \<and> LastApplied rf' = 0 \<and>
   raftdata rf' = saved rf"
proof -
  have "ReadRaftState (Copy (crash1_saved (persister (persist rf)))) =
      [GInt (CurrentTerm rf), GInt (VoteFor rf), GLog (Log rf)]"
    by (simp add: persist_eq saved_def)
  then show ?thesis by (simp add: Make_fields Make_saved saved_def)
qed

section \<open>Handlers\<close>

text \<open>C9: on a peer that has a log and whose vote channel holds at most one value,
  \<open>RequestVote\<close> returns, on every branch: the peer first adopts a newer term; it grants
  its vote exactly when the request is of its (new) term, the vote of that term is free or
  already the candidate's, and the candidate's log is at least as up to date; a granted vote
  is recorded, signalled and saved, a refused one changes nothing else.\<close>

theorem RequestVote_spec:
  assumes "Log rf \<noteq> []" and "length (voteCh rf) \<le> 1"
  shows "RequestVote args rf = Inr
    (let rf1 = step_down (RVA_Term args) rf in
     if rv_grants args rf
     then (persist (rf1\<lparr>VoteFor := RVA_CandidateId args, voteCh := [True]\<rparr>),
           \<lparr>RVR_Term = RVA_Term args, RVR_VoteGranted = True\<rparr>)
     else (rf1, \<lparr>RVR_Term = max (RVA_Term args) (CurrentTerm rf), RVR_VoteGranted = False\<rparr>))"
proof -
  have sd: "(if CurrentTerm rf < RVA_Term args then BeFollower (RVA_Term args) rf else rf)
    = step_down (RVA_Term args) rf" by (simp add: step_down_def)
  have vf: "VoteFor (step_down (RVA_Term args) rf) =
      (if CurrentTerm rf < RVA_Term args then -1 else VoteFor rf)" by (simp add: step_down_def)
  have snd: "send (voteCh rf) = Inr [True]" using send_ok assms(2) by simp
  show ?thesis
    unfolding RequestVote_def sd Let_def
    by (auto simp: go_idx_last [OF assms(1)] vf snd rv_grants_def up_to_date_def max_def)
qed

theorem RequestVote_spec_witness:
  "RequestVote vote_req fresh_peer = Inr
   (persist ((BeFollower 2 fresh_peer)\<lparr>VoteFor := 1, voteCh := [True]\<rparr>),
    \<lparr>RVR_Term = 2, RVR_VoteGranted = True\<rparr>)"
proof -
  have h: "Log fresh_peer \<noteq> []" "length (voteCh fresh_peer) \<le> 1" by code_simp+
  have "rv_grants vote_req fresh_peer" "step_down 2 fresh_peer = BeFollower 2 fresh_peer"
    "RVA_Term vote_req = 2" "RVA_CandidateId vote_req = 1" by code_simp+
  with RequestVote_spec [OF h, of vote_req] show ?thesis by simp
qed

text \<open>C10: \<open>AppendEntries\<close> returns, on every branch, for a request whose previous index is
  not negative: the peer adopts a newer term and its timer is reset; a request of an old term,
  with a previous index past the log or with another term there is refused and nothing else
  changes; an accepted one leaves the log cut after the previous entry and extended by the
  request's entries, moves the commit index up to the leader's (but not past the log), hands
  exactly the newly committed entries to the service, in order, and saves the state.\<close>

theorem AppendEntries_spec:
  assumes "0 \<le> AEA_PrevLogIndex args" and "length (appendLogCh rf) \<le> 1" and "0 \<le> LastApplied rf"
  shows "AppendEntries args rf = Inr
    (let rf1 = (step_down (AEA_Term args) rf)\<lparr>appendLogCh := [True]\<rparr>;
         t = max (AEA_Term args) (CurrentTerm rf); l = ae_log args rf;
         ci = go_min (AEA_LeaderCommit args) (int (length l) - 1) in
     if \<not> ae_accepts args rf then (rf1, \<lparr>AER_Term = t, AER_Success = False\<rparr>)
     else if AEA_LeaderCommit args \<le> CommitIndex rf
     then (persist (rf1\<lparr>Log := l\<rparr>), \<lparr>AER_Term = t, AER_Success = True\<rparr>)
     else (persist (rf1\<lparr>Log := l, CommitIndex := ci, LastApplied := max (LastApplied rf) ci,
             applyCh := applyCh rf @ map (apply_msg l) [LastApplied rf + 1..ci]\<rparr>),
           \<lparr>AER_Term = t, AER_Success = True\<rparr>))"
proof -
  let ?rf1 = "(step_down (AEA_Term args) rf)\<lparr>appendLogCh := [True]\<rparr>"
  let ?l = "ae_log args rf"
  let ?ci = "go_min (AEA_LeaderCommit args) (int (length ?l) - 1)"
  let ?rf2 = "?rf1\<lparr>Log := ?l, CommitIndex := ?ci\<rparr>"
  have "updateLastApplied ?rf2 = Inr (?rf2\<lparr>LastApplied := max (LastApplied ?rf2) (CommitIndex ?rf2),
            applyCh := applyCh ?rf2 @ map (apply_msg (Log ?rf2)) [LastApplied ?rf2 + 1..CommitIndex ?rf2]\<rparr>)"
    using assms(3) by (intro updateLastApplied_result) (auto simp: go_min_def)
  then have upd: "updateLastApplied ?rf2 = Inr (?rf1\<lparr>Log := ?l, CommitIndex := ?ci,
      LastApplied := max (LastApplied rf) ?ci,
      applyCh := applyCh rf @ map (apply_msg ?l) [LastApplied rf + 1..?ci]\<rparr>)" by simp
  have sd: "(if AEA_Term args > CurrentTerm rf then BeFollower (AEA_Term args) rf else rf)
    = step_down (AEA_Term args) rf" by (simp add: step_down_def)
  have snd: "send (appendLogCh rf) = Inr [True]" using send_ok assms(2) by simp
  show ?thesis
  proof (cases "ae_accepts args rf")
    case True
    then have le: "CurrentTerm rf \<le> AEA_Term args"
      "go_idx (Log rf) (AEA_PrevLogIndex args) = Inr (Log rf ! nat (AEA_PrevLogIndex args))"
      "go_slice_to (Log rf) (AEA_PrevLogIndex args + 1) = Inr (take (nat (AEA_PrevLogIndex args + 1)) (Log rf))"
      by (auto simp: ae_accepts_def go_idx_def go_slice_to_def)
    have "AEA_PrevLogIndex args < int (length (Log rf))"
      "Log_Term (Log rf ! nat (AEA_PrevLogIndex args)) = AEA_PrevLogTerm args"
      using True by (auto simp: ae_accepts_def)
    then show ?thesis
      using upd True le unfolding AppendEntries_def sd Let_def
      by (simp add: snd ae_log_def max_absorb1)
  next
    case False
    then show ?thesis
      using assms(1) unfolding AppendEntries_def sd Let_def
      by (auto simp: snd ae_accepts_def go_idx_def max_def)
  qed
qed

theorem AppendEntries_spec_witness:
  "\<exists>rf'. AppendEntries append_req fresh_peer = Inr (rf', \<lparr>AER_Term = 1, AER_Success = True\<rparr>) \<and>
     CommitIndex rf' = 1 \<and> map AM_Command (applyCh rf') = [Some 7]"
proof -
  have h: "0 \<le> AEA_PrevLogIndex append_req" "length (appendLogCh fresh_peer) \<le> 1"
    "0 \<le> LastApplied fresh_peer" by code_simp+
  have e: "ae_accepts append_req fresh_peer" "CommitIndex fresh_peer = 0" "CurrentTerm fresh_peer = 1"
    "LastApplied fresh_peer = 0" "AEA_Term append_req = 1" "AEA_LeaderCommit append_req = 5"
    "ae_log append_req fresh_peer =
       [\<lparr>Log_Term = -1, Log_Command = None\<rparr>, \<lparr>Log_Term = 1, Log_Command = Some 7\<rparr>]"
    "applyCh fresh_peer = []" by code_simp+
  have c: "go_min 5 1 = 1" "[1..1::int] = [1]" by (simp_all add: go_min_def)
  show ?thesis
    using AppendEntries_spec [OF h] by (simp add: e c Let_def apply_msg_def)
qed


text \<open>C12: the index a leader proposes to commit, the middle of the match indices sorted in
  descending order, is the largest index that a strict majority of the peers has reached.\<close>

theorem commit_candidate_largest_majority:
  assumes "m \<noteq> []"
  shows "\<exists>N. commit_candidate m = Inr N \<and>
    length m < 2 * length (filter (\<lambda>x. N \<le> x) m) \<and>
    (\<forall>M. length m < 2 * length (filter (\<lambda>x. M \<le> x) m) \<longrightarrow> M \<le> N)"
proof -
  let ?k = "length m - Suc (length m div 2)"
  let ?N = "sort m ! ?k"
  have k: "?k < length (sort m)" using assms by simp
  have "length m < 2 * length (filter (\<lambda>x. ?N \<le> x) m)"
  proof -
    have "length m - ?k \<le> length (filter (\<lambda>x. ?N \<le> x) m)"
      using filter_from_sorted [OF _ k] by (simp add: length_filter_sort)
    moreover have "L \<noteq> 0 \<Longrightarrow> L < 2 * (L - (L - Suc (L div 2)))" for L :: nat by presburger
    then have "length m < 2 * (length m - ?k)" using assms by (metis length_0_conv)
    ultimately show ?thesis by linarith
  qed
  moreover have "M \<le> ?N" if "length m < 2 * length (filter (\<lambda>x. M \<le> x) m)" for M
  proof (rule ccontr)
    assume "\<not> M \<le> ?N"
    then have "length (filter (\<lambda>x. M \<le> x) m) \<le> length m - Suc ?k"
      using filter_above_sorted [OF _ k, of M] by (simp add: length_filter_sort)
    with that assms show False by linarith
  qed
  ultimately show ?thesis using commit_candidate_nth [OF assms] by blast
qed

theorem commit_candidate_witness:
  "\<exists>N. commit_candidate [3, 0, 5] = Inr N \<and>
    length [3, 0, 5 :: int] < 2 * length (filter (\<lambda>x. N \<le> x) [3, 0, 5]) \<and>
    (\<forall>M. length [3, 0, 5 :: int] < 2 * length (filter (\<lambda>x. M \<le> x) [3, 0, 5]) \<longrightarrow> M \<le> N)"
  by (rule commit_candidate_largest_majority) simp

end
