(* ===== verification/Go_Strings.thy ===== *)
theory Go_Strings
  imports Go_Prelude "HOL-Library.Char_ord" "HOL-Library.List_Lexorder" "HOL-Library.Word"
    "HOL-Library.AList" "HOL-Library.Multiset"
begin

text \<open>
  The parts of Go's standard library that the MapReduce code computes with: decimal
  conversion (\<open>strconv\<close>), the FNV-1a hash (\<open>hash/fnv\<close>), JSON encoding and decoding of
  a struct of two strings (\<open>encoding/json\<close>), splitting a text into fields
  (\<open>strings.FieldsFunc\<close>) and maps with string keys. A Go string is a sequence of bytes, so it
  is a \<^typ>\<open>string\<close>, ordered bytewise as \<open>sort.Strings\<close> orders.
\<close>

section \<open>Decimal conversion\<close>

definition digit :: "nat \<Rightarrow> char" where
  "digit d = char_of (48 + d)"

definition digit_val :: "char \<Rightarrow> nat" where
  "digit_val c = of_char c - 48"

definition is_digit :: "char \<Rightarrow> bool" where
  "is_digit c \<longleftrightarrow> 48 \<le> (of_char c :: nat) \<and> (of_char c :: nat) \<le> 57"

fun itoa :: "nat \<Rightarrow> string" where
  "itoa n = (if n < 10 then [digit n] else itoa (n div 10) @ [digit (n mod 10)])"

declare itoa.simps [simp del]

definition Itoa :: "int \<Rightarrow> string" where
  "Itoa i = (if i < 0 then CHR ''-'' # itoa (nat (- i)) else itoa (nat i))"

definition dec_val :: "string \<Rightarrow> nat" where
  "dec_val s = foldl (\<lambda>n c. 10 * n + digit_val c) 0 s"

text \<open>\<open>strconv.Atoi\<close>: an optional sign, at least one digit, nothing else, and a value in the
  range of a 64-bit \<open>int\<close>; \<^const>\<open>None\<close> is an error.\<close>

definition Atoi :: "string \<Rightarrow> int option" where
  "Atoi s =
     (let (neg, ds) = (case s of [] \<Rightarrow> (False, [])
                       | c # r \<Rightarrow> if c = CHR ''-'' then (True, r)
                                 else if c = CHR ''+'' then (False, r) else (False, c # r));
          v = (if neg then - int (dec_val ds) else int (dec_val ds))
      in if ds \<noteq> [] \<and> list_all is_digit ds \<and> - (2 ^ 63) \<le> v \<and> v < 2 ^ 63 then Some v else None)"

lemma digit_simps [simp]: "d < 10 \<Longrightarrow> is_digit (digit d)" "d < 10 \<Longrightarrow> digit_val (digit d) = d"
  by (simp_all add: is_digit_def digit_val_def digit_def)

lemma itoa_digits: "list_all is_digit (itoa n)"
  by (induction n rule: itoa.induct) (subst itoa.simps, auto)

lemma itoa_nonempty [simp]: "itoa n \<noteq> []"
  by (subst itoa.simps) simp

lemma dec_val_snoc: "dec_val (s @ [c]) = 10 * dec_val s + digit_val c"
  by (simp add: dec_val_def)

lemma dec_val_itoa [simp]: "dec_val (itoa n) = n"
proof (induction n rule: itoa.induct)
  case (1 n)
  show ?case
  proof (cases "n < 10")
    case True
    then show ?thesis by (subst itoa.simps) (simp add: dec_val_def)
  next
    case False
    with 1 show ?thesis by (subst itoa.simps) (simp add: dec_val_snoc)
  qed
qed

lemma itoa_inject [simp]: "itoa m = itoa n \<longleftrightarrow> m = n"
  by (metis dec_val_itoa)

lemma dash_not_digit: "\<not> is_digit CHR ''-''" "\<not> is_digit CHR ''+''"
  by (simp_all add: is_digit_def)

lemma itoa_hd: "itoa n = c # r \<Longrightarrow> c \<noteq> CHR ''-'' \<and> c \<noteq> CHR ''+''"
  using itoa_digits [of n] dash_not_digit by auto

lemma Atoi_Itoa:
  assumes "- (2 ^ 63) \<le> i" and "i < 2 ^ 63"
  shows "Atoi (Itoa i) = Some i"
proof (cases "i < 0")
  case True
  with assms show ?thesis by (simp add: Atoi_def Itoa_def itoa_digits)
next
  case False
  obtain c r where cr: "itoa (nat i) = c # r" by (cases "itoa (nat i)") auto
  then have "Atoi (c # r) = Some i"
    using False assms itoa_hd [OF cr] itoa_digits [of "nat i"] dec_val_itoa [of "nat i"]
    by (simp add: Atoi_def)
  with cr False show ?thesis by (simp add: Itoa_def)
qed

lemma Itoa_no_dash: "0 \<le> i \<Longrightarrow> CHR ''-'' \<notin> set (Itoa i)"
  using itoa_digits [of "nat i"] dash_not_digit by (auto simp: Itoa_def list_all_iff)

lemma Itoa_inject: "0 \<le> i \<Longrightarrow> 0 \<le> j \<Longrightarrow> Itoa i = Itoa j \<longleftrightarrow> i = j"
  by (auto simp: Itoa_def)

lemma append_sep_inject:
  assumes "c \<notin> set a" and "c \<notin> set a'"
  shows "a @ c # b = a' @ c # b' \<longleftrightarrow> a = a' \<and> b = b'"
  using assms
proof (induction a arbitrary: a')
  case Nil
  then show ?case by (cases a') auto
next
  case (Cons x a)
  then show ?case by (cases a') auto
qed

section \<open>FNV-1a\<close>

text \<open>\<open>fnv.New32a\<close>, \<open>Write\<close>, \<open>Sum32\<close>: 32-bit multiplication wraps around.\<close>

definition fnv_step :: "32 word \<Rightarrow> char \<Rightarrow> 32 word" where
  "fnv_step h c = Bit_Operations.xor h (word_of_nat (of_char c)) * 16777619"

definition fnv32a :: "string \<Rightarrow> 32 word" where
  "fnv32a s = foldl fnv_step 2166136261 s"

section \<open>Maps with string keys\<close>

text \<open>\<open>m[k] = append(m[k], v)\<close> on a \<open>map[string][]string\<close>.\<close>

definition map_append :: "'k \<Rightarrow> 'v \<Rightarrow> ('k \<times> 'v list) list \<Rightarrow> ('k \<times> 'v list) list" where
  "map_append k v m = AList.update k (map_zero [] (map_of m) k @ [v]) m"

lemma map_append_lookup:
  "map_zero [] (map_of (map_append k v m)) k' = map_zero [] (map_of m) k' @ (if k' = k then [v] else [])"
  by (simp add: map_append_def update_conv')

lemma map_append_keys:
  "distinct (map fst m) \<Longrightarrow> distinct (map fst (map_append k v m))"
  "fst ` set (map_append k v m) = insert k (fst ` set m)"
  by (simp_all add: map_append_def distinct_update dom_update)

section \<open>Runes\<close>

text \<open>A range over a string visits its runes. The bytes of one rune at the front of a
  non-empty string, as \<open>utf8.DecodeRune\<close> finds them; an invalid byte is a rune of its own.\<close>

definition cont :: "char \<Rightarrow> bool" where
  "cont c \<longleftrightarrow> 128 \<le> (of_char c :: nat) \<and> (of_char c :: nat) < 192"

definition rune_len :: "string \<Rightarrow> nat" where
  "rune_len s =
     (let b = (\<lambda>i. if i < length s then of_char (s ! i) else 0 :: nat);
          k = (\<lambda>i. i < length s \<and> cont (s ! i)) in
      if 194 \<le> b 0 \<and> b 0 < 224 \<and> k 1 then 2
      else if 224 \<le> b 0 \<and> b 0 < 240 \<and> k 1 \<and> k 2 \<and> (b 0 = 224 \<longrightarrow> 160 \<le> b 1) \<and> (b 0 = 237 \<longrightarrow> b 1 < 160) then 3
      else if 240 \<le> b 0 \<and> b 0 < 245 \<and> k 1 \<and> k 2 \<and> k 3 \<and> (b 0 = 240 \<longrightarrow> 144 \<le> b 1) \<and> (b 0 = 244 \<longrightarrow> b 1 < 144) then 4
      else 1)"

lemma rune_len_pos: "0 < rune_len s"
  by (simp add: rune_len_def Let_def)

function runes :: "string \<Rightarrow> string list" where
  "runes s = (if s = [] then [] else take (rune_len s) s # runes (drop (rune_len s) s))"
  by pat_completeness auto
termination
  using rune_len_pos by (relation "measure length") auto

declare runes.simps [simp del]

lemma runes_Nil [simp]: "runes [] = []"
  by (simp add: runes.simps)

lemma concat_runes: "concat (runes s) = s"
proof (induction s rule: runes.induct)
  case (1 s)
  then show ?case by (cases "s = []") (simp_all add: runes.simps [of s])
qed

text \<open>A rune that is correctly encoded, and a string of such runes only.\<close>

definition is_rune :: "string \<Rightarrow> bool" where
  "is_rune r \<longleftrightarrow> rune_len r = length r \<and> (length r = 1 \<longrightarrow> (of_char (hd r) :: nat) < 128)"

definition utf8 :: "string \<Rightarrow> bool" where
  "utf8 s \<longleftrightarrow> list_all is_rune (runes s)"

lemma rune_len_append:
  assumes "is_rune r"
  shows "rune_len (r @ s) = length r"
proof -
  have a: "rune_len r = length r" "length r = 1 \<Longrightarrow> (of_char (hd r) :: nat) < 128"
    using assms by (simp_all add: is_rune_def)
  show ?thesis
  proof (cases "length r = 1")
    case True
    then obtain c where "r = [c]" by (cases r) auto
    with a(2) show ?thesis by (simp add: rune_len_def Let_def)
  next
    case False
    from a(1) rune_len_pos [of r] have "0 < length r" by simp
    with False have "1 < length r" by linarith
    with a(1) show ?thesis
      by (simp add: rune_len_def Let_def nth_append split: if_splits)
  qed
qed

lemma is_rune_take:
  assumes "1 < rune_len s"
  shows "is_rune (take (rune_len s) s)"
  using assms unfolding is_rune_def
  by (simp add: rune_len_def [of s] Let_def split: if_splits) (auto simp: rune_len_def Let_def)

lemma runes_append: "is_rune r \<Longrightarrow> runes (r @ s) = r # runes s"
  using rune_len_append [of r s] rune_len_pos [of "r @ s"] by (subst runes.simps) auto

lemma runes_concat: "list_all is_rune rs \<Longrightarrow> runes (concat rs) = rs"
  by (induction rs) (simp_all add: runes_append)

lemma utf8_concat: "list_all is_rune rs \<Longrightarrow> utf8 (concat rs)"
  by (simp add: utf8_def runes_concat)

lemma utf8_append: "utf8 s \<Longrightarrow> utf8 t \<Longrightarrow> utf8 (s @ t)"
  using utf8_concat [of "runes s @ runes t"] by (simp add: utf8_def concat_runes)

lemma utf8_ascii: "list_all (\<lambda>c. (of_char c :: nat) < 128) s \<Longrightarrow> utf8 s"
  using utf8_concat [of "map (\<lambda>c. [c]) s"]
  by (simp add: list_all_iff is_rune_def rune_len_def Let_def)

section \<open>JSON\<close>

text \<open>What \<open>json.Encoder\<close> writes for a string: quotes, backslashes and control characters
  are escaped, and (as by default) the characters \<open>< > &\<close> and the runes U+2028 and U+2029;
  a byte that is not valid UTF-8 becomes U+FFFD; other runes are copied.\<close>

definition hex :: "nat \<Rightarrow> char" where
  "hex d = (if d < 10 then char_of (48 + d) else char_of (87 + d))"

definition unhex :: "char \<Rightarrow> nat option" where
  "unhex c = (let n = of_char c :: nat in
     if 48 \<le> n \<and> n \<le> 57 then Some (n - 48)
     else if 97 \<le> n \<and> n \<le> 102 then Some (n - 87)
     else if 65 \<le> n \<and> n \<le> 70 then Some (n - 55) else None)"

definition json_char :: "char \<Rightarrow> string" where
  "json_char c = (let n = of_char c :: nat in
     if n = 34 \<or> n = 92 then [CHR 0x5C, c]
     else if n = 10 then [CHR 0x5C, CHR ''n'']
     else if n = 13 then [CHR 0x5C, CHR ''r'']
     else if n = 9 then [CHR 0x5C, CHR ''t'']
     else if n < 32 \<or> n = 60 \<or> n = 62 \<or> n = 38
     then [CHR 0x5C, CHR ''u'', CHR ''0'', CHR ''0'', hex (n div 16), hex (n mod 16)]
     else [c])"

definition json_rune :: "string \<Rightarrow> string" where
  "json_rune r =
     (if length r = 1 then
        (if (of_char (hd r) :: nat) < 128 then json_char (hd r) else CHR 0x5C # ''ufffd'')
      else if r = [CHR 0xE2, CHR 0x80, CHR 0xA8] then CHR 0x5C # ''u2028''
      else if r = [CHR 0xE2, CHR 0x80, CHR 0xA9] then CHR 0x5C # ''u2029''
      else r)"

definition json_string :: "string \<Rightarrow> string" where
  "json_string s = CHR 0x22 # concat (map json_rune (runes s)) @ [CHR 0x22]"

text \<open>The bytes of a code point, as \<open>utf8.EncodeRune\<close> writes them.\<close>

definition EncodeRune :: "nat \<Rightarrow> string" where
  "EncodeRune n = map char_of
     (if n < 128 then [n]
      else if n < 2048 then [192 + n div 64, 128 + n mod 64]
      else if 55296 \<le> n \<and> n < 57344 \<or> 1114112 \<le> n then [239, 191, 189]
      else if n < 65536 then [224 + n div 4096, 128 + n div 64 mod 64, 128 + n mod 64]
      else [240 + n div 262144, 128 + n div 4096 mod 64, 128 + n div 64 mod 64, 128 + n mod 64])"

fun getu4 :: "string \<Rightarrow> nat option" where
  "getu4 (b # u # h1 # h2 # h3 # h4 # r) =
     (if b = CHR 0x5C \<and> u = CHR ''u'' then
        Option.bind (unhex h1) (\<lambda>a1. Option.bind (unhex h2) (\<lambda>a2.
        Option.bind (unhex h3) (\<lambda>a3. Option.bind (unhex h4) (\<lambda>a4.
        Some (4096 * a1 + 256 * a2 + 16 * a3 + a4)))))
      else None)"
| "getu4 _ = None"

text \<open>Decoding one character of a string literal: its bytes and what follows. A surrogate that
  is not the first of a pair, and a byte that is not valid UTF-8, decode to U+FFFD.\<close>

definition json_unrune :: "string \<Rightarrow> (string \<times> string) option" where
  "json_unrune s =
     (case s of
        [] \<Rightarrow> None
      | c # r \<Rightarrow>
          if c \<noteq> CHR 0x5C then
            (if (of_char c :: nat) < 32 then None
             else if rune_len s = 1 \<and> 128 \<le> (of_char c :: nat) then Some (EncodeRune 65533, r)
             else Some (take (rune_len s) s, drop (rune_len s) s))
          else (case r of
            [] \<Rightarrow> None
          | e # r2 \<Rightarrow>
              if e = CHR 0x22 \<or> e = CHR 0x5C \<or> e = CHR ''/'' then Some ([e], r2)
              else if e = CHR ''b'' then Some ([CHR 0x08], r2)
              else if e = CHR ''f'' then Some ([CHR 0x0C], r2)
              else if e = CHR ''n'' then Some ([CHR 0x0A], r2)
              else if e = CHR ''r'' then Some ([CHR 0x0D], r2)
              else if e = CHR ''t'' then Some ([CHR 0x09], r2)
              else (case getu4 s of
                None \<Rightarrow> None
              | Some n \<Rightarrow>
                  (case getu4 (drop 6 s) of
                     Some n2 \<Rightarrow>
                       if 55296 \<le> n \<and> n < 56320 \<and> 56320 \<le> n2 \<and> n2 < 57344
                       then Some (EncodeRune (65536 + (n - 55296) * 1024 + (n2 - 56320)), drop 12 s)
                       else Some (EncodeRune n, drop 6 s)
                   | None \<Rightarrow> Some (EncodeRune n, drop 6 s)))))"

lemma json_unrune_shorter: "json_unrune s = Some (c, r) \<Longrightarrow> length r < length s"
  using rune_len_pos [of s]
  by (auto simp: json_unrune_def split: if_splits list.splits option.splits)

function json_unstr :: "string \<Rightarrow> (string \<times> string) option" where
  "json_unstr s =
     (case s of [] \<Rightarrow> None
      | c # r \<Rightarrow>
          if c = CHR 0x22 then Some ([], r)
          else case json_unrune s of
                 None \<Rightarrow> None
               | Some (d, r) \<Rightarrow> map_option (apfst ((@) d)) (json_unstr r))"
  by pat_completeness auto
termination
  by (relation "measure length") (auto dest: json_unrune_shorter)

declare json_unstr.simps [simp del]

lemma json_unstr_end [simp]: "json_unstr [] = None" "json_unstr (CHR 0x22 # r) = Some ([], r)"
  by (simp_all add: json_unstr.simps)

lemma unhex_hex [simp]: "d < 16 \<Longrightarrow> unhex (hex d) = Some d"
  by (auto simp: unhex_def hex_def Let_def)

lemma char_codeI: "(of_char c :: nat) = of_char d \<Longrightarrow> c = d"
  by simp

lemma getu4_shape: "getu4 s = Some n \<Longrightarrow> \<exists>r. s = CHR 0x5C # CHR ''u'' # r"
  by (erule getu4.elims) (auto split: if_splits)

lemma getu4_no_pair:
  "getu4 s = Some n \<Longrightarrow> n < 55296 \<Longrightarrow> json_unrune s = Some (EncodeRune n, drop 6 s)"
  using getu4_shape [of s n] by (auto simp: json_unrune_def simp del: getu4.simps split: option.splits)

lemma json_unrune_char:
  assumes "(of_char c :: nat) < 128"
  shows "json_unrune (json_char c @ r) = Some ([c], r)"
proof -
  let ?n = "of_char c :: nat"
  have z: "unhex CHR ''0'' = Some 0" by (simp add: unhex_def)
  consider "?n = 34" | "?n = 92" | "?n = 10" | "?n = 13" | "?n = 9"
    | "?n < 32 \<or> ?n = 60 \<or> ?n = 62 \<or> ?n = 38" "?n \<notin> {34, 92, 10, 13, 9}"
    | "\<not> ?n < 32" "?n \<notin> {34, 92, 60, 62, 38}" by auto
  then show ?thesis
  proof cases
    case 1
    then have "c = CHR 0x22" by (intro char_codeI) simp
    then show ?thesis by (simp add: json_char_def json_unrune_def)
  next
    case 2
    then have "c = CHR 0x5C" by (intro char_codeI) simp
    then show ?thesis by (simp add: json_char_def json_unrune_def)
  next
    case 3
    then have "c = CHR 0x0A" by (intro char_codeI) simp
    then show ?thesis by (simp add: json_char_def json_unrune_def)
  next
    case 4
    then have "c = CHR 0x0D" by (intro char_codeI) simp
    then show ?thesis by (simp add: json_char_def json_unrune_def)
  next
    case 5
    then have "c = CHR 0x09" by (intro char_codeI) simp
    then show ?thesis by (simp add: json_char_def json_unrune_def)
  next
    case 6
    then have "?n div 16 < 16" "?n mod 16 < 16" using assms by auto
    moreover have "16 * (?n div 16) + ?n mod 16 = ?n" by simp
    ultimately have "getu4 (json_char c @ r) = Some ?n" "drop 6 (json_char c @ r) = r"
      using 6 by (simp_all add: json_char_def z Let_def)
    moreover have "EncodeRune ?n = [c]" using assms by (simp add: EncodeRune_def)
    ultimately show ?thesis using getu4_no_pair [of "json_char c @ r" ?n] assms by simp
  next
    case 7
    then have "json_char c = [c]" "c \<noteq> CHR 0x5C" by (auto simp: json_char_def Let_def)
    moreover have "rune_len (c # r) = 1" using assms by (simp add: rune_len_def Let_def)
    ultimately show ?thesis using 7 assms by (simp add: json_unrune_def)
  qed
qed

lemma EncodeRune_separators:
  "EncodeRune 8232 = [CHR 0xE2, CHR 0x80, CHR 0xA8]" "EncodeRune 8233 = [CHR 0xE2, CHR 0x80, CHR 0xA9]"
  by (auto simp: EncodeRune_def intro!: char_codeI)

lemma rune_first: "is_rune r \<Longrightarrow> length r \<noteq> 1 \<Longrightarrow> \<exists>c q. r = c # q \<and> 128 \<le> (of_char c :: nat)"
  using rune_len_pos [of r] by (cases r) (auto simp: is_rune_def rune_len_def Let_def split: if_splits)

lemma json_unrune_rune:
  assumes "is_rune r"
  shows "json_unrune (json_rune r @ s) = Some (r, s)"
proof (cases "length r = 1")
  case True
  then obtain c where "r = [c]" by (cases r) auto
  with assms json_unrune_char [of c s] show ?thesis by (simp add: json_rune_def is_rune_def)
next
  case False
  then obtain c q where c: "r = c # q" "128 \<le> (of_char c :: nat)" using rune_first [OF assms] by auto
  have esc: "json_unrune (CHR 0x5C # ''u2028'' @ s) = Some ([CHR 0xE2, CHR 0x80, CHR 0xA8], s)"
    "json_unrune (CHR 0x5C # ''u2029'' @ s) = Some ([CHR 0xE2, CHR 0x80, CHR 0xA9], s)"
    using EncodeRune_separators
    by (subst getu4_no_pair [of _ 8232], simp_all add: unhex_def)
      (subst getu4_no_pair [of _ 8233], simp_all add: unhex_def)
  have "c \<noteq> CHR 0x5C" using c(2) by auto
  then have "json_unrune (r @ s) = Some (r, s)"
    using c False rune_len_append [OF assms, of s] by (simp add: json_unrune_def)
  with False esc show ?thesis by (auto simp: json_rune_def)
qed

lemma json_char_not_quote: "hd (json_char c) \<noteq> CHR 0x22" "json_char c \<noteq> []"
  by (auto simp: json_char_def Let_def)

lemma json_rune_not_quote:
  assumes "is_rune r"
  shows "\<exists>d q. json_rune r = d # q \<and> d \<noteq> CHR 0x22"
proof (cases "length r = 1")
  case True
  with assms json_char_not_quote [of "hd r"] show ?thesis
    by (cases "json_char (hd r)") (auto simp: json_rune_def is_rune_def)
next
  case False
  then obtain c q where c: "r = c # q" "128 \<le> (of_char c :: nat)" using rune_first [OF assms] by auto
  then have "c \<noteq> CHR 0x22" by auto
  with c(1) False show ?thesis by (auto simp: json_rune_def)
qed

lemma json_unstr_runes:
  "list_all is_rune rs \<Longrightarrow> json_unstr (concat (map json_rune rs) @ CHR 0x22 # r) = Some (concat rs, r)"
proof (induction rs)
  case (Cons c s)
  obtain d q where dq: "json_rune c = d # q" "d \<noteq> CHR 0x22"
    using json_rune_not_quote [of c] Cons.prems by auto
  with json_unrune_rune [of c "concat (map json_rune s) @ CHR 0x22 # r"] Cons show ?case
    by (subst json_unstr.simps) simp
qed simp

lemma json_unstr_string:
  "utf8 s \<Longrightarrow> json_unstr (concat (map json_rune (runes s)) @ CHR 0x22 # r) = Some (s, r)"
  using json_unstr_runes [of "runes s" r] by (simp add: utf8_def concat_runes)

text \<open>A \<open>KeyValue\<close> struct, one object per line, and a decoder for the objects the encoder
  writes: \<open>dec.Decode\<close> called until it returns an error.\<close>

record KeyValue =
  Key :: string
  Value :: string

definition json_encode :: "KeyValue \<Rightarrow> string" where
  "json_encode kv = CHR ''{'' # json_string ''Key'' @ CHR '':'' # json_string (Key kv) @
     CHR '','' # json_string ''Value'' @ CHR '':'' # json_string (Value kv) @ [CHR ''}'', CHR 0x0A]"

definition skip_prefix :: "string \<Rightarrow> string \<Rightarrow> string option" where
  "skip_prefix p s = (if take (length p) s = p then Some (drop (length p) s) else None)"

definition json_decode :: "string \<Rightarrow> (KeyValue \<times> string) option" where
  "json_decode s =
     Option.bind (skip_prefix (CHR ''{'' # json_string ''Key'' @ [CHR '':'', CHR 0x22]) s) (\<lambda>s.
     Option.bind (json_unstr s) (\<lambda>(k, s).
     Option.bind (skip_prefix (CHR '','' # json_string ''Value'' @ [CHR '':'', CHR 0x22]) s) (\<lambda>s.
     Option.bind (json_unstr s) (\<lambda>(v, s).
     Option.bind (skip_prefix [CHR ''}'', CHR 0x0A] s) (\<lambda>s.
     Some (\<lparr>Key = k, Value = v\<rparr>, s))))))"

lemma skip_prefix_append [simp]: "skip_prefix p (p @ s) = Some s"
  by (simp add: skip_prefix_def)

lemma skip_prefix_length: "skip_prefix p s = Some r \<Longrightarrow> length r \<le> length s"
  by (auto simp: skip_prefix_def split: if_splits)

lemma json_unstr_shorter: "json_unstr s = Some (v, r) \<Longrightarrow> length r < length s"
proof (induction s arbitrary: v r rule: json_unstr.induct)
  case (1 s)
  show ?case
  proof (cases "s = [] \<or> hd s = CHR 0x22")
    case True
    with 1(2) show ?thesis by (cases s) auto
  next
    case False
    then obtain c q where s: "s = c # q" "c \<noteq> CHR 0x22" by (cases s) auto
    with 1(2) obtain d r' v' where u: "json_unrune s = Some (d, r')" "json_unstr r' = Some (v', r)"
      by (subst (asm) json_unstr.simps) (auto split: option.splits)
    from 1(1) [OF s u(1) refl u(2)] json_unrune_shorter [OF u(1)] show ?thesis by simp
  qed
qed

lemma json_decode_shorter: "json_decode s = Some (kv, r) \<Longrightarrow> length r < length s"
  by (auto simp: json_decode_def bind_eq_Some_conv dest!: skip_prefix_length json_unstr_shorter)

function json_decode_all :: "string \<Rightarrow> KeyValue list" where
  "json_decode_all s = (case json_decode s of None \<Rightarrow> [] | Some (kv, r) \<Rightarrow> kv # json_decode_all r)"
  by pat_completeness auto
termination
  by (relation "measure length") (auto dest: json_decode_shorter)

declare json_decode_all.simps [simp del]

definition utf8_kv :: "KeyValue \<Rightarrow> bool" where
  "utf8_kv kv \<longleftrightarrow> utf8 (Key kv) \<and> utf8 (Value kv)"

lemma json_decode_encode:
  assumes "utf8_kv kv"
  shows "json_decode (json_encode kv @ r) = Some (kv, r)"
proof -
  let ?p = "CHR ''{'' # json_string ''Key'' @ [CHR '':'', CHR 0x22]"
  let ?q = "CHR '','' # json_string ''Value'' @ [CHR '':'', CHR 0x22]"
  let ?e = "[CHR ''}'', CHR 0x0A]"
  have "json_encode kv @ r = ?p @ (concat (map json_rune (runes (Key kv))) @ CHR 0x22 # (?q @
      (concat (map json_rune (runes (Value kv))) @ CHR 0x22 # (?e @ r))))"
    by (simp add: json_encode_def json_string_def)
  then show ?thesis
    using assms unfolding json_decode_def utf8_kv_def
    by (simp only: skip_prefix_append json_unstr_string bind.simps prod.case) simp
qed

lemma json_decode_all_encode:
  "list_all utf8_kv kvs \<Longrightarrow> json_decode_all (concat (map json_encode kvs)) = kvs"
proof (induction kvs)
  case Nil
  have "json_decode [] = None" by (simp add: json_decode_def skip_prefix_def)
  then show ?case by (simp add: json_decode_all.simps)
next
  case (Cons kv kvs)
  then show ?case by (subst json_decode_all.simps) (simp add: json_decode_encode)
qed

section \<open>Fields of a text\<close>

text \<open>\<open>strings.FieldsFunc\<close>: the maximal runs of runes that do not satisfy \<open>f\<close>; \<open>cur\<close>
  is the field being read.\<close>

fun read_fields :: "(string \<Rightarrow> bool) \<Rightarrow> string list \<Rightarrow> string option \<Rightarrow> string list" where
  "read_fields f [] cur = (case cur of None \<Rightarrow> [] | Some w \<Rightarrow> [w])"
| "read_fields f (r # rs) cur =
     (if f r then (case cur of None \<Rightarrow> read_fields f rs None | Some w \<Rightarrow> w # read_fields f rs None)
      else (case cur of None \<Rightarrow> read_fields f rs (Some r) | Some w \<Rightarrow> read_fields f rs (Some (w @ r))))"

definition FieldsFunc :: "string \<Rightarrow> (string \<Rightarrow> bool) \<Rightarrow> string list" where
  "FieldsFunc s f = read_fields f (runes s) None"

text \<open>The fields are, in order, exactly the runes that do not satisfy \<open>f\<close>.\<close>

lemma concat_read_fields:
  "concat (read_fields f rs cur) = (case cur of None \<Rightarrow> [] | Some w \<Rightarrow> w) @ concat (filter (\<lambda>r. \<not> f r) rs)"
  by (induction f rs cur rule: read_fields.induct) (auto split: option.splits)

lemma FieldsFunc_concat: "concat (FieldsFunc s f) = concat (filter (\<lambda>r. \<not> f r) (runes s))"
  by (simp add: FieldsFunc_def concat_read_fields)

definition Join :: "string list \<Rightarrow> string \<Rightarrow> string" where
  "Join xs sep = (case xs of [] \<Rightarrow> [] | x # r \<Rightarrow> x @ concat (map (\<lambda>y. sep @ y) r))"

end
