(* ===== verification/MapReduce.thy ===== *)
theory MapReduce
  imports Go_Strings
begin

text \<open>
  The MapReduce library (\<^verbatim>\<open>src/mapreduce\<close>): file names, the map and reduce tasks, the
  master's phases and the merge of the results, the worker. A file system is a map from names
  to contents together with the set of names that may be created; a fatal error of the code
  (\<open>log.Fatal\<close>) and a run-time panic end the program and are values of \<^typ>\<open>go_panic\<close>.
  Writing to a file that has been created does not fail here. A reduce function may end the
  program too (\<^verbatim>\<open>src/main/wc.go\<close> does on a value that is not a number), so it returns a
  result of type \<^typ>\<open>string go\<close>.
\<close>

section \<open>Files\<close>

record fsys =
  contents :: "string \<rightharpoonup> string"
  creatable :: "string \<Rightarrow> bool"

definition os_Create :: "string \<Rightarrow> fsys \<Rightarrow> fsys option" where
  "os_Create name fs =
     (if creatable fs name then Some (fs\<lparr>contents := (contents fs)(name \<mapsto> [])\<rparr>) else None)"

definition file_write :: "string \<Rightarrow> string \<Rightarrow> fsys \<Rightarrow> fsys" where
  "file_write name s fs = fs\<lparr>contents := (contents fs)(name \<mapsto> map_zero [] (contents fs) name @ s)\<rparr>"

section \<open>common.go\<close>

datatype jobPhase = mapPhase | reducePhase

definition reduceName :: "string \<Rightarrow> int \<Rightarrow> int \<Rightarrow> string" where
  "reduceName jobName mapTask reduceTask =
     ''mrtmp.'' @ jobName @ ''-'' @ Itoa mapTask @ ''-'' @ Itoa reduceTask"

definition mergeName :: "string \<Rightarrow> int \<Rightarrow> string" where
  "mergeName jobName reduceTask = ''mrtmp.'' @ jobName @ ''-res-'' @ Itoa reduceTask"

section \<open>common_map.go\<close>

definition ihash :: "string \<Rightarrow> 32 word" where
  "ihash s = fnv32a s"

definition doMap_create :: "string \<Rightarrow> fsys \<Rightarrow> fsys go" where
  "doMap_create name fs =
     (case os_Create name fs of None \<Rightarrow> Inl (LogFatal ''create'') | Some fs \<Rightarrow> Inr fs)"

definition doMap_encode :: "string list \<Rightarrow> int \<Rightarrow> KeyValue \<Rightarrow> fsys \<Rightarrow> fsys go" where
  "doMap_encode file nReduce word fs =
     (let m = (word_of_int nReduce :: 32 word) in
      if m = 0 then Inl DivideByZero
      else gbind (go_idx file (uint (ihash (Key word) mod m))) (\<lambda>f.
             Inr (file_write f (json_encode word) fs)))"

definition doMap ::
  "string \<Rightarrow> int \<Rightarrow> string \<Rightarrow> int \<Rightarrow> (string \<Rightarrow> string \<Rightarrow> KeyValue list) \<Rightarrow> fsys \<Rightarrow> fsys go" where
  "doMap jobName mapTaskNumber inFile nReduce mapF fs =
     (case contents fs inFile of
        None \<Rightarrow> Inr fs
      | Some data \<Rightarrow>
          let result = mapF inFile data in
          if nReduce < 0 then Inl MakeSliceLen
          else
            let file = map (reduceName jobName mapTaskNumber) [0..nReduce - 1] in
            gbind (gfold doMap_create file fs) (\<lambda>fs.
            gfold (doMap_encode file nReduce) result fs))"

section \<open>common_reduce.go\<close>

definition doReduce_read ::
  "string \<Rightarrow> int \<Rightarrow> fsys \<Rightarrow> int \<Rightarrow> (string \<times> string list) list \<Rightarrow> (string \<times> string list) list go" where
  "doReduce_read jobName reduceTaskNumber fs i keyValues =
     (case contents fs (reduceName jobName i reduceTaskNumber) of
        None \<Rightarrow> Inl (LogFatal ''create intermediate file failed'')
      | Some s \<Rightarrow> Inr (fold (\<lambda>kv. map_append (Key kv) (Value kv)) (json_decode_all s) keyValues))"

definition doReduce ::
  "string \<Rightarrow> int \<Rightarrow> int \<Rightarrow> (string \<Rightarrow> string list \<Rightarrow> string go) \<Rightarrow> fsys \<Rightarrow> fsys go" where
  "doReduce jobName reduceTaskNumber nMap reduceF fs =
     gbind (gfold (doReduce_read jobName reduceTaskNumber fs) [0..nMap - 1] []) (\<lambda>keyValues.
     let keys = sort (map fst keyValues);
         outFile = mergeName jobName reduceTaskNumber in
     case os_Create outFile fs of
       None \<Rightarrow> Inl (LogFatal ''failed to create outfile'')
     | Some fs \<Rightarrow>
         gfold (\<lambda>k fs. gbind (reduceF k (map_zero [] (map_of keyValues) k)) (\<lambda>v.
           Inr (file_write outFile (json_encode \<lparr>Key = k, Value = v\<rparr>) fs))) keys fs)"

section \<open>master.go and master_splitmerge.go\<close>

record Master =
  address :: string
  registerChannel :: "string list"
  doneChannel :: "bool list"
  workers :: "string list"
  jobName :: string
  files :: "string list"
  nReduce :: int
  shutdown_closed :: bool
  stats :: "int list"

record RegisterArgs =
  RA_Worker :: string

text \<open>The channels are unbuffered: \<open>registerChannel\<close> is the list of goroutines blocked in a
  send on it.\<close>

definition Register :: "RegisterArgs \<Rightarrow> Master \<Rightarrow> Master" where
  "Register args mr = mr\<lparr>workers := workers mr @ [RA_Worker args],
                         registerChannel := registerChannel mr @ [RA_Worker args]\<rparr>"

definition newMaster :: "string \<Rightarrow> Master" where
  "newMaster master = \<lparr>address = master, registerChannel = [], doneChannel = [], workers = [],
     jobName = [], files = [], nReduce = 0, shutdown_closed = False, stats = []\<rparr>"

definition merge_read :: "Master \<Rightarrow> fsys \<Rightarrow> int \<Rightarrow> (string \<times> string) list \<Rightarrow> (string \<times> string) list go" where
  "merge_read mr fs i kvs =
     (case contents fs (mergeName (jobName mr) i) of
        None \<Rightarrow> Inl (LogFatal ''Merge: '')
      | Some s \<Rightarrow> Inr (fold (\<lambda>kv. AList.update (Key kv) (Value kv)) (json_decode_all s) kvs))"

definition merge :: "Master \<Rightarrow> fsys \<Rightarrow> fsys go" where
  "merge mr fs =
     gbind (gfold (merge_read mr fs) [0..nReduce mr - 1] []) (\<lambda>kvs.
     let keys = sort (map fst kvs); out = ''mrtmp.'' @ jobName mr in
     case os_Create out fs of
       None \<Rightarrow> Inl (LogFatal ''Merge: create '')
     | Some fs \<Rightarrow>
         Inr (file_write out
           (concat (map (\<lambda>k. k @ '': '' @ map_zero [] (map_of kvs) k @ [CHR 0x0A]) keys)) fs))"

definition run_job ::
  "string \<Rightarrow> string list \<Rightarrow> int \<Rightarrow> (jobPhase \<Rightarrow> Master \<Rightarrow> fsys \<Rightarrow> fsys go) \<Rightarrow> (Master \<Rightarrow> Master) \<Rightarrow>
   Master \<Rightarrow> fsys \<Rightarrow> (Master \<times> fsys) go" where
  "run_job job fls nreduce schedule finish mr fs =
     (let mr = mr\<lparr>jobName := job, files := fls, nReduce := nreduce\<rparr> in
      gbind (schedule mapPhase mr fs) (\<lambda>fs.
      gbind (schedule reducePhase mr fs) (\<lambda>fs.
      let mr = finish mr in
      gbind (merge mr fs) (\<lambda>fs.
      Inr (mr\<lparr>doneChannel := doneChannel mr @ [True]\<rparr>, fs)))))"

definition sequential_schedule ::
  "(string \<Rightarrow> string \<Rightarrow> KeyValue list) \<Rightarrow> (string \<Rightarrow> string list \<Rightarrow> string go) \<Rightarrow>
   jobPhase \<Rightarrow> Master \<Rightarrow> fsys \<Rightarrow> fsys go" where
  "sequential_schedule mapF reduceF phase mr fs =
     (case phase of
        mapPhase \<Rightarrow>
          gfold (\<lambda>(i, f). doMap (jobName mr) (int i) f (nReduce mr) mapF)
            (List.enumerate 0 (files mr)) fs
      | reducePhase \<Rightarrow>
          gfold (\<lambda>i. doReduce (jobName mr) i (int (length (files mr))) reduceF)
            [0..nReduce mr - 1] fs)"

definition Sequential ::
  "string \<Rightarrow> string list \<Rightarrow> int \<Rightarrow> (string \<Rightarrow> string \<Rightarrow> KeyValue list) \<Rightarrow>
   (string \<Rightarrow> string list \<Rightarrow> string go) \<Rightarrow> fsys \<Rightarrow> (Master \<times> fsys) go" where
  "Sequential job fls nreduce mapF reduceF fs =
     run_job job fls nreduce (sequential_schedule mapF reduceF)
       (\<lambda>mr. mr\<lparr>stats := [int (length fls) + nreduce]\<rparr>) (newMaster ''master'') fs"

text \<open>\<open>killWorkers\<close>: \<open>call w\<close> is the reply of the worker's \<open>Shutdown\<close>, \<^const>\<open>None\<close>
  when the call fails.\<close>

definition killWorkers :: "(string \<Rightarrow> int option) \<Rightarrow> Master \<Rightarrow> int list" where
  "killWorkers call mr =
     fold (\<lambda>w ntasks. case call w of None \<Rightarrow> ntasks | Some n \<Rightarrow> ntasks @ [n]) (workers mr) []"

definition removeFile :: "string \<Rightarrow> fsys \<Rightarrow> fsys go" where
  "removeFile n fs =
     (if contents fs n = None then Inl (LogFatal ''CleanupFiles '')
      else Inr (fs\<lparr>contents := (contents fs)(n := None)\<rparr>))"

definition CleanupFiles :: "Master \<Rightarrow> fsys \<Rightarrow> fsys go" where
  "CleanupFiles mr fs =
     gbind (gfold (\<lambda>i. gfold (\<lambda>j. removeFile (reduceName (jobName mr) i j)) [0..nReduce mr - 1])
              [0..int (length (files mr)) - 1] fs) (\<lambda>fs.
     gbind (gfold (\<lambda>i. removeFile (mergeName (jobName mr) i)) [0..nReduce mr - 1] fs) (\<lambda>fs.
     removeFile (''mrtmp.'' @ jobName mr) fs))"

definition master_Shutdown :: "Master \<Rightarrow> Master go" where
  "master_Shutdown mr =
     (if shutdown_closed mr then Inl CloseOfClosed else Inr (mr\<lparr>shutdown_closed := True\<rparr>))"

section \<open>worker.go\<close>

record DoTaskArgs =
  JobName :: string
  File :: string
  Phase :: jobPhase
  TaskNumber :: int
  NumOtherPhase :: int

record ShutdownReply =
  Ntasks :: int

record Worker =
  wk_name :: string
  wk_Map :: "string \<Rightarrow> string \<Rightarrow> KeyValue list"
  wk_Reduce :: "string \<Rightarrow> string list \<Rightarrow> string go"
  nRPC :: int
  nTasks :: int

definition DoTask :: "DoTaskArgs \<Rightarrow> Worker \<Rightarrow> fsys \<Rightarrow> fsys go" where
  "DoTask arg wk fs =
     (case Phase arg of
        mapPhase \<Rightarrow> doMap (JobName arg) (TaskNumber arg) (File arg) (NumOtherPhase arg) (wk_Map wk) fs
      | reducePhase \<Rightarrow> doReduce (JobName arg) (TaskNumber arg) (NumOtherPhase arg) (wk_Reduce wk) fs)"

definition Shutdown :: "Worker \<Rightarrow> Worker \<times> ShutdownReply" where
  "Shutdown wk = (wk\<lparr>nRPC := 1, nTasks := nTasks wk - 1\<rparr>, \<lparr>Ntasks = nTasks wk\<rparr>)"

definition newWorker ::
  "string \<Rightarrow> (string \<Rightarrow> string \<Rightarrow> KeyValue list) \<Rightarrow> (string \<Rightarrow> string list \<Rightarrow> string go) \<Rightarrow> int \<Rightarrow> Worker" where
  "newWorker me mapF reduceF n =
     \<lparr>wk_name = me, wk_Map = mapF, wk_Reduce = reduceF, nRPC = n, nTasks = 0\<rparr>"

text \<open>The accept loop of \<open>RunWorker\<close> (\<^const>\<open>None\<close>: the loop ends): \<open>ok\<close> says whether
  \<open>Accept\<close> returned a connection. The connection is served by a goroutine of its own, which
  may run before the task is counted.\<close>

definition RunWorker_accept :: "bool \<Rightarrow> Worker \<Rightarrow> Worker option" where
  "RunWorker_accept ok wk =
     (if nRPC wk = 0 then None
      else if ok then Some (wk\<lparr>nRPC := nRPC wk - 1\<rparr>) else None)"

definition RunWorker_count :: "Worker \<Rightarrow> Worker" where
  "RunWorker_count wk = wk\<lparr>nTasks := nTasks wk + 1\<rparr>"

end
