(* ===== verification/MR_Correct.thy ===== *)
theory MR_Correct
  imports MapReduce
begin

text \<open>
  Correctness of the MapReduce library: file names do not collide, a map task partitions its
  output over the intermediate files, a reduce task groups by key, and a whole job, with its
  tasks run in any order and any task possibly run several times, produces one line per key
  in sorted order, with the reduction of all values of the key.
\<close>

section \<open>File names\<close>

lemma names_inject:
  assumes "0 \<le> m" "0 \<le> m'" "0 \<le> r" "0 \<le> r'"
  shows "reduceName job m r = reduceName job m' r' \<longleftrightarrow> m = m' \<and> r = r'"
  using assms append_sep_inject [OF Itoa_no_dash Itoa_no_dash, of m m' "Itoa r" "Itoa r'"]
  by (simp add: reduceName_def Itoa_inject)

lemma mergeName_inject: "0 \<le> r \<Longrightarrow> 0 \<le> r' \<Longrightarrow> mergeName job r = mergeName job r' \<longleftrightarrow> r = r'"
  by (simp add: mergeName_def Itoa_inject)

lemma reduceName_mergeName:
  assumes "0 \<le> m"
  shows "reduceName job m r \<noteq> mergeName job r'"
proof
  assume "reduceName job m r = mergeName job r'"
  then have "Itoa m @ CHR ''-'' # Itoa r = ''res'' @ CHR ''-'' # Itoa r'"
    by (simp add: reduceName_def mergeName_def)
  then have "Itoa m = ''res''"
    using Itoa_no_dash [OF assms] by (subst (asm) append_sep_inject) auto
  with assms itoa_digits [of "nat m"] show False by (simp add: Itoa_def is_digit_def)
qed

lemma outName_neq [simp]:
  "''mrtmp.'' @ job \<noteq> reduceName job m r" "''mrtmp.'' @ job \<noteq> mergeName job r"
  "reduceName job m r \<noteq> ''mrtmp.'' @ job" "mergeName job r \<noteq> ''mrtmp.'' @ job"
  by (auto simp: reduceName_def mergeName_def)

section \<open>Writing to a file\<close>

lemma creatable_simps [simp]:
  "creatable (file_write f s fs) = creatable fs"
  "creatable (fs\<lparr>contents := c\<rparr>) = creatable fs"
  by (simp_all add: file_write_def)

lemma file_write_contents:
  "contents (file_write f s fs) g =
     (if g = f then Some (map_zero [] (contents fs) f @ s) else contents fs g)"
  by (simp add: file_write_def)

lemma fold_file_write_creatable [simp]:
  "creatable (fold (\<lambda>x. file_write (f x) (e x)) xs fs) = creatable fs"
  by (induction xs arbitrary: fs) auto

lemma fold_file_write:
  "map_zero [] (contents (fold (\<lambda>x. file_write (f x) (e x)) xs fs)) g =
     map_zero [] (contents fs) g @ concat (map e (filter (\<lambda>x. f x = g) xs))"
  by (induction xs arbitrary: fs) (auto simp: file_write_def)

lemma fold_file_write_other:
  "g \<notin> f ` set xs \<Longrightarrow> contents (fold (\<lambda>x. file_write (f x) (e x)) xs fs) g = contents fs g"
  by (induction xs arbitrary: fs) (auto simp: file_write_def)

lemma fold_file_write_defined:
  "contents fs g \<noteq> None \<Longrightarrow> contents (fold (\<lambda>x. file_write (f x) (e x)) xs fs) g \<noteq> None"
  by (induction xs arbitrary: fs) (auto simp: file_write_def)

lemma contents_SomeI: "m g \<noteq> None \<Longrightarrow> map_zero [] m g = s \<Longrightarrow> m g = Some s"
  by (auto simp: map_zero_def)

lemma gfold_create:
  assumes "\<forall>f\<in>set fl. creatable fs f"
  shows "gfold doMap_create fl fs =
    Inr (fs\<lparr>contents := (\<lambda>g. if g \<in> set fl then Some [] else contents fs g)\<rparr>)"
  using assms
proof (induction fl arbitrary: fs)
  case (Cons f fl)
  let ?fs = "fs\<lparr>contents := (contents fs)(f \<mapsto> [])\<rparr>"
  have "doMap_create f fs = Inr ?fs" using Cons.prems by (simp add: doMap_create_def os_Create_def)
  moreover have "gfold doMap_create fl ?fs =
      Inr (?fs\<lparr>contents := (\<lambda>g. if g \<in> set fl then Some [] else contents ?fs g)\<rparr>)"
    using Cons.prems by (intro Cons.IH) simp
  moreover have "(\<lambda>g. if g \<in> set fl then Some [] else contents ?fs g) =
      (\<lambda>g. if g \<in> set (f # fl) then Some [] else contents fs g)" by auto
  ultimately show ?case by simp
qed simp

section \<open>Map tasks\<close>

definition part :: "int \<Rightarrow> string \<Rightarrow> int" where
  "part n k = uint (ihash k mod (word_of_int n :: 32 word))"

lemma uint_word_of_int_32: "0 < n \<Longrightarrow> n < 2 ^ 32 \<Longrightarrow> uint (word_of_int n :: 32 word) = n"
  by (simp add: uint_word_of_int take_bit_int_eq_self)

lemma part_range:
  assumes "0 < n" and "n < 2 ^ 32"
  shows "0 \<le> part n k" "part n k < n"
  using assms uint_word_of_int_32 [OF assms] by (simp_all add: part_def uint_mod pos_mod_bound)

lemma word_of_int_nonzero: "0 < n \<Longrightarrow> n < 2 ^ 32 \<Longrightarrow> (word_of_int n :: 32 word) \<noteq> 0"
  using uint_word_of_int_32 [of n] by (cases "(word_of_int n :: 32 word) = 0") simp_all

definition part_kvs :: "int \<Rightarrow> int \<Rightarrow> KeyValue list \<Rightarrow> KeyValue list" where
  "part_kvs n r kvs = filter (\<lambda>kv. part n (Key kv) = r) kvs"

lemma doMap_encode_eq:
  assumes n: "0 < n" "n < 2 ^ 32" and "file = map (reduceName job m) [0..n - 1]"
  shows "doMap_encode file n w fs = Inr (file_write (reduceName job m (part n (Key w))) (json_encode w) fs)"
proof -
  have "go_idx file (part n (Key w)) = Inr (reduceName job m (part n (Key w)))"
    using part_range [OF n, of "Key w"] assms(3) by (simp add: go_idx_def nth_upto)
  then show ?thesis
    using word_of_int_nonzero [OF n] by (simp add: doMap_encode_def part_def)
qed

text \<open>A map task whose input exists replaces its own intermediate files, file \<open>r\<close> by the
  records of the map function's result whose key hashes to \<open>r\<close>, in order; it touches no
  other file.\<close>

lemma doMap_ok:
  assumes n: "0 < n" "n < 2 ^ 32" and inp: "contents fs inFile = Some data" and m: "0 \<le> m"
    and cr: "\<forall>r\<in>{0..<n}. creatable fs (reduceName job m r)"
  shows "\<exists>fs'. doMap job m inFile n mapF fs = Inr fs' \<and> creatable fs' = creatable fs \<and>
    (\<forall>r\<in>{0..<n}. contents fs' (reduceName job m r) =
        Some (concat (map json_encode (part_kvs n r (mapF inFile data))))) \<and>
    (\<forall>g. g \<notin> reduceName job m ` {0..<n} \<longrightarrow> contents fs' g = contents fs g)"
proof -
  let ?file = "map (reduceName job m) [0..n - 1]" and ?kvs = "mapF inFile data"
  have fset: "set ?file = reduceName job m ` {0..<n}" by auto
  let ?fs1 = "fs\<lparr>contents := (\<lambda>g. if g \<in> set ?file then Some [] else contents fs g)\<rparr>"
  let ?fs2 = "fold (\<lambda>w. file_write (reduceName job m (part n (Key w))) (json_encode w)) ?kvs ?fs1"
  have "gfold doMap_create ?file fs = Inr ?fs1" using cr by (intro gfold_create) auto
  moreover have "gfold (doMap_encode ?file n) ?kvs ?fs1 = Inr ?fs2"
    using doMap_encode_eq [OF n refl] by (intro gfold_Inr) simp
  ultimately have "doMap job m inFile n mapF fs = Inr ?fs2"
    using n inp by (simp add: doMap_def Let_def)
  moreover have "contents ?fs2 (reduceName job m r) =
      Some (concat (map json_encode (part_kvs n r ?kvs)))" if r: "r \<in> {0..<n}" for r
  proof (rule contents_SomeI [where m = "contents ?fs2"])
    have "(reduceName job m (part n k) = reduceName job m r) = (part n k = r)" for k
      using names_inject [OF m m] part_range [OF n] r by simp
    moreover have "map_zero [] (contents ?fs1) (reduceName job m r) = []"
      using r by (intro map_zero_simps(2)) simp
    ultimately show "map_zero [] (contents ?fs2) (reduceName job m r) =
        concat (map json_encode (part_kvs n r ?kvs))"
      by (simp only: fold_file_write part_kvs_def) simp
    show "contents ?fs2 (reduceName job m r) \<noteq> None"
      using r by (intro fold_file_write_defined) (simp add: fset)
  qed
  moreover have "contents ?fs2 g = contents fs g" if g: "g \<notin> reduceName job m ` {0..<n}" for g
  proof -
    have "g \<notin> (\<lambda>w. reduceName job m (part n (Key w))) ` set ?kvs" using g part_range [OF n] by auto
    then have "contents ?fs2 g = contents ?fs1 g" by (rule fold_file_write_other)
    also have "\<dots> = contents fs g" using g fset by simp
    finally show ?thesis .
  qed
  moreover have "creatable ?fs2 = creatable fs" by simp
  ultimately show ?thesis by blast
qed

section \<open>Reduce tasks\<close>

definition values_of :: "string \<Rightarrow> KeyValue list \<Rightarrow> string list" where
  "values_of k kvs = map Value (filter (\<lambda>kv. Key kv = k) kvs)"

definition keys_of :: "KeyValue list \<Rightarrow> string list" where
  "keys_of kvs = sort (remdups (map Key kvs))"

lemma set_keys_of [simp]: "set (keys_of kvs) = Key ` set kvs"
  by (simp add: keys_of_def)

lemma fold_map_append:
  defines "g \<equiv> fold (\<lambda>kv. map_append (Key kv) (Value kv))"
  shows "map_zero [] (map_of (g kvs m)) k = map_zero [] (map_of m) k @ values_of k kvs"
    and "distinct (map fst m) \<Longrightarrow> distinct (map fst (g kvs m))"
    and "fst ` set (g kvs m) = fst ` set m \<union> Key ` set kvs"
  unfolding g_def
  by (induction kvs arbitrary: m) (auto simp: map_append_lookup map_append_keys values_of_def)

lemma sort_keys:
  "distinct ks \<Longrightarrow> set ks = Key ` set kvs \<Longrightarrow> sort ks = keys_of kvs"
  by (auto simp: keys_of_def intro!: sorted_distinct_set_unique)

text \<open>What a reduce task computes from the records of its intermediate files.\<close>

definition reduced :: "(string \<Rightarrow> string list \<Rightarrow> string) \<Rightarrow> KeyValue list \<Rightarrow> KeyValue list" where
  "reduced red kvs = map (\<lambda>k. \<lparr>Key = k, Value = red k (values_of k kvs)\<rparr>) (keys_of kvs)"

text \<open>The records are UTF-8 text, and on their keys and values the reduce function returns
  \<open>red\<close>, which is UTF-8 text too. (The JSON encoder replaces bytes that are not.)\<close>

definition returns ::
  "(string \<Rightarrow> string list \<Rightarrow> string go) \<Rightarrow> (string \<Rightarrow> string list \<Rightarrow> string) \<Rightarrow> KeyValue list \<Rightarrow> bool" where
  "returns reduceF red kvs \<longleftrightarrow> list_all utf8_kv kvs \<and>
     (\<forall>k\<in>Key ` set kvs. reduceF k (values_of k kvs) = Inr (red k (values_of k kvs)) \<and>
        utf8 (red k (values_of k kvs)))"

lemma reduced_utf8: "returns reduceF red kvs \<Longrightarrow> list_all utf8_kv (reduced red kvs)"
  by (auto simp: returns_def reduced_def list_all_iff utf8_kv_def)

lemma doReduce_reads:
  assumes "\<And>i. i \<in> set is \<Longrightarrow> contents fs (reduceName job i r) = Some (concat (map json_encode (kvs i)))"
    and "list_all utf8_kv (concat (map kvs is))"
  shows "gfold (doReduce_read job r fs) is m =
    Inr (fold (\<lambda>kv. map_append (Key kv) (Value kv)) (concat (map kvs is)) m)"
  using assms
  by (induction "is" arbitrary: m) (simp_all add: doReduce_read_def json_decode_all_encode)

lemma doReduce_ok:
  assumes inp: "\<And>i. 0 \<le> i \<Longrightarrow> i < nMap \<Longrightarrow>
      contents fs (reduceName job i r) = Some (concat (map json_encode (kvs i)))"
    and cr: "creatable fs (mergeName job r)"
    and ret: "returns reduceF red (concat (map kvs [0..nMap - 1]))"
  shows "\<exists>fs'. doReduce job r nMap reduceF fs = Inr fs' \<and> creatable fs' = creatable fs \<and>
    contents fs' (mergeName job r) =
      Some (concat (map json_encode (reduced red (concat (map kvs [0..nMap - 1]))))) \<and>
    (\<forall>g. g \<noteq> mergeName job r \<longrightarrow> contents fs' g = contents fs g)"
proof -
  let ?all = "concat (map kvs [0..nMap - 1])" and ?out = "mergeName job r"
  let ?m = "fold (\<lambda>kv. map_append (Key kv) (Value kv)) ?all []"
  let ?fs1 = "fs\<lparr>contents := (contents fs)(?out \<mapsto> [])\<rparr>"
  let ?e = "\<lambda>k. json_encode \<lparr>Key = k, Value = red k (map_zero [] (map_of ?m) k)\<rparr>"
  let ?fs2 = "fold (\<lambda>k. file_write ?out (?e k)) (keys_of ?all) ?fs1"
  have rd: "gfold (doReduce_read job r fs) [0..nMap - 1] [] = Inr ?m"
    using inp ret by (intro doReduce_reads) (simp_all add: returns_def)
  have srt: "sort (map fst ?m) = keys_of ?all"
    using fold_map_append(2) [of "[]"] fold_map_append(3) [of ?all "[]"] by (intro sort_keys) simp_all
  have "map_zero [] (map_of ?m) k = values_of k ?all" for k
    using fold_map_append(1) [of ?all "[]"] by simp
  moreover have rk: "reduceF k (values_of k ?all) = Inr (red k (values_of k ?all))"
    if "k \<in> set (keys_of ?all)" for k
    using ret that unfolding returns_def set_keys_of by blast
  ultimately have "gfold (\<lambda>k fs. gbind (reduceF k (map_zero [] (map_of ?m) k)) (\<lambda>v.
      Inr (file_write ?out (json_encode \<lparr>Key = k, Value = v\<rparr>) fs))) (keys_of ?all) ?fs1 = Inr ?fs2"
    by (intro gfold_Inr) (simp del: set_keys_of set_concat add: rk)
  with rd srt have "doReduce job r nMap reduceF fs = Inr ?fs2"
    using cr by (simp add: doReduce_def os_Create_def Let_def)
  moreover have "contents ?fs2 ?out = Some (concat (map json_encode (reduced red ?all)))"
  proof (rule contents_SomeI [where m = "contents ?fs2"])
    show "map_zero [] (contents ?fs2) ?out = concat (map json_encode (reduced red ?all))"
      using fold_map_append(1) [of ?all "[]"]
      by (simp add: fold_file_write reduced_def comp_def map_zero_def [of _ Map.empty] )
    show "contents ?fs2 ?out \<noteq> None" by (rule fold_file_write_defined) simp
  qed
  moreover have "contents ?fs2 g = contents fs g" if "g \<noteq> ?out" for g
    using fold_file_write_other [of g "\<lambda>_. ?out" "keys_of ?all" ?e ?fs1] that by auto
  moreover have "creatable ?fs2 = creatable fs" by simp
  ultimately show ?thesis by blast
qed

section \<open>Whole jobs\<close>

text \<open>The result of a job, as a function of its inputs only.\<close>

definition all_pairs :: "(string \<Rightarrow> string \<Rightarrow> KeyValue list) \<Rightarrow> fsys \<Rightarrow> string list \<Rightarrow> KeyValue list" where
  "all_pairs mapF fs fls = concat (map (\<lambda>f. mapF f (map_zero [] (contents fs) f)) fls)"

definition result_text :: "(string \<Rightarrow> string list \<Rightarrow> string) \<Rightarrow> KeyValue list \<Rightarrow> string" where
  "result_text red kvs =
     concat (map (\<lambda>k. k @ '': '' @ red k (values_of k kvs) @ [CHR 0x0A]) (keys_of kvs))"

text \<open>What a job needs: the input files exist and are not among the files the job writes, which
  can be created; the number of partitions is positive and fits 32 bits.\<close>

definition job_ok :: "string \<Rightarrow> string list \<Rightarrow> int \<Rightarrow> fsys \<Rightarrow> bool" where
  "job_ok job fls n fs \<longleftrightarrow> 0 < n \<and> n < 2 ^ 32 \<and>
     (\<forall>f\<in>set fls. contents fs f \<noteq> None \<and>
        (\<forall>m<length fls. \<forall>r\<in>{0..<n}. f \<noteq> reduceName job (int m) r)) \<and>
     (\<forall>m<length fls. \<forall>r\<in>{0..<n}. creatable fs (reduceName job (int m) r)) \<and>
     (\<forall>r\<in>{0..<n}. creatable fs (mergeName job r)) \<and> creatable fs (''mrtmp.'' @ job)"

text \<open>The map phase as a sequence of task numbers, in whatever order the tasks are run.\<close>

definition map_tasks ::
  "string \<Rightarrow> string list \<Rightarrow> int \<Rightarrow> (string \<Rightarrow> string \<Rightarrow> KeyValue list) \<Rightarrow> nat list \<Rightarrow> fsys \<Rightarrow> fsys go" where
  "map_tasks job fls n mapF ts fs = gfold (\<lambda>i. doMap job (int i) (fls ! i) n mapF) ts fs"

definition reduce_tasks ::
  "string \<Rightarrow> int \<Rightarrow> (string \<Rightarrow> string list \<Rightarrow> string go) \<Rightarrow> int list \<Rightarrow> fsys \<Rightarrow> fsys go" where
  "reduce_tasks job nMap reduceF ts fs = gfold (\<lambda>r. doReduce job r nMap reduceF) ts fs"

definition input_pairs ::
  "(string \<Rightarrow> string \<Rightarrow> KeyValue list) \<Rightarrow> fsys \<Rightarrow> string list \<Rightarrow> nat \<Rightarrow> KeyValue list" where
  "input_pairs mapF fs fls i = mapF (fls ! i) (map_zero [] (contents fs) (fls ! i))"

lemma map_tasks_ok:
  assumes ok: "job_ok job fls n fs0" and ts: "set ts \<subseteq> {..<length fls}"
    and cr: "creatable fs = creatable fs0"
    and same: "\<And>f. f \<in> set fls \<Longrightarrow> contents fs f = contents fs0 f"
    and got: "\<And>i r. i \<in> S \<Longrightarrow> r \<in> {0..<n} \<Longrightarrow> contents fs (reduceName job (int i) r) =
        Some (concat (map json_encode (part_kvs n r (input_pairs mapF fs0 fls i))))"
    and S: "S \<subseteq> {..<length fls}"
  shows "\<exists>fs'. map_tasks job fls n mapF ts fs = Inr fs' \<and> creatable fs' = creatable fs0 \<and>
    (\<forall>i \<in> S \<union> set ts. \<forall>r\<in>{0..<n}. contents fs' (reduceName job (int i) r) =
        Some (concat (map json_encode (part_kvs n r (input_pairs mapF fs0 fls i)))))"
  using ts cr same got S
proof (induction ts arbitrary: fs S)
  case Nil
  then show ?case by (auto simp: map_tasks_def)
next
  case (Cons t ts)
  have t: "t < length fls" and ft: "fls ! t \<in> set fls" using Cons.prems(1) by auto
  have n: "0 < n" "n < 2 ^ 32" using ok by (auto simp: job_ok_def)
  have data: "contents fs (fls ! t) = Some (map_zero [] (contents fs0) (fls ! t))"
    using ok ft Cons.prems(3) [OF ft] by (auto simp: job_ok_def map_zero_def)
  from doMap_ok [OF n data, of "int t" job mapF] obtain fs1 where
    fs1: "doMap job (int t) (fls ! t) n mapF fs = Inr fs1" "creatable fs1 = creatable fs"
    and new: "\<And>r. r \<in> {0..<n} \<Longrightarrow> contents fs1 (reduceName job (int t) r) =
        Some (concat (map json_encode (part_kvs n r (input_pairs mapF fs0 fls t))))"
    and old: "\<And>g. g \<notin> reduceName job (int t) ` {0..<n} \<Longrightarrow> contents fs1 g = contents fs g"
    using ok t Cons.prems(2) by (auto simp: job_ok_def input_pairs_def)
  have "\<exists>fs'. map_tasks job fls n mapF ts fs1 = Inr fs' \<and> creatable fs' = creatable fs0 \<and>
    (\<forall>i \<in> insert t S \<union> set ts. \<forall>r\<in>{0..<n}. contents fs' (reduceName job (int i) r) =
        Some (concat (map json_encode (part_kvs n r (input_pairs mapF fs0 fls i)))))"
  proof (rule Cons.IH)
    show "contents fs1 f = contents fs0 f" if "f \<in> set fls" for f
    proof -
      have "f \<notin> reduceName job (int t) ` {0..<n}" using ok that t by (auto simp: job_ok_def)
      then show ?thesis using old Cons.prems(3) [OF that] by simp
    qed
    show "contents fs1 (reduceName job (int i) r) =
        Some (concat (map json_encode (part_kvs n r (input_pairs mapF fs0 fls i))))"
      if i: "i \<in> insert t S" and r: "r \<in> {0..<n}" for i r
    proof (cases "i = t")
      case True
      with new r show ?thesis by simp
    next
      case False
      then have "reduceName job (int i) r \<notin> reduceName job (int t) ` {0..<n}"
        using r by (auto simp: names_inject)
      with old Cons.prems(4) i r False show ?thesis by simp
    qed
  qed (use Cons.prems t fs1(2) in auto)
  with fs1(1) show ?case by (auto simp: map_tasks_def)
qed

lemma reduce_tasks_ok:
  assumes inp: "\<And>i r. 0 \<le> i \<Longrightarrow> i < nMap \<Longrightarrow> r \<in> {0..<n} \<Longrightarrow>
      contents fs (reduceName job i r) = Some (concat (map json_encode (kvs r i)))"
    and cr: "\<And>r. r \<in> {0..<n} \<Longrightarrow> creatable fs (mergeName job r)"
    and ret: "\<And>r. r \<in> {0..<n} \<Longrightarrow> returns reduceF red (concat (map (kvs r) [0..nMap - 1]))"
    and ts: "set ts \<subseteq> {0..<n}" and S: "S \<subseteq> {0..<n}"
    and got: "\<And>r. r \<in> S \<Longrightarrow> contents fs (mergeName job r) =
        Some (concat (map json_encode (reduced red (concat (map (kvs r) [0..nMap - 1])))))"
  shows "\<exists>fs'. reduce_tasks job nMap reduceF ts fs = Inr fs' \<and> creatable fs' = creatable fs \<and>
    (\<forall>r \<in> S \<union> set ts. contents fs' (mergeName job r) =
        Some (concat (map json_encode (reduced red (concat (map (kvs r) [0..nMap - 1]))))))"
  using inp cr ts S got
proof (induction ts arbitrary: fs S)
  case Nil
  then show ?case by (auto simp: reduce_tasks_def)
next
  case (Cons t ts)
  have t: "t \<in> {0..<n}" using Cons.prems(3) by auto
  from doReduce_ok [of nMap fs job t "kvs t" reduceF red] ret [OF t] obtain fs1 where
    fs1: "doReduce job t nMap reduceF fs = Inr fs1" "creatable fs1 = creatable fs"
    and new: "contents fs1 (mergeName job t) =
      Some (concat (map json_encode (reduced red (concat (map (kvs t) [0..nMap - 1])))))"
    and old: "\<And>g. g \<noteq> mergeName job t \<Longrightarrow> contents fs1 g = contents fs g"
    using Cons.prems(1,2) t by auto
  have "\<exists>fs'. reduce_tasks job nMap reduceF ts fs1 = Inr fs' \<and> creatable fs' = creatable fs1 \<and>
    (\<forall>r \<in> insert t S \<union> set ts. contents fs' (mergeName job r) =
        Some (concat (map json_encode (reduced red (concat (map (kvs r) [0..nMap - 1]))))))"
  proof (rule Cons.IH)
    show "contents fs1 (reduceName job i r) = Some (concat (map json_encode (kvs r i)))"
      if "0 \<le> i" "i < nMap" "r \<in> {0..<n}" for i r
      using old [OF reduceName_mergeName [OF that(1)]] Cons.prems(1) [OF that] by simp
    show "contents fs1 (mergeName job r) =
        Some (concat (map json_encode (reduced red (concat (map (kvs r) [0..nMap - 1])))))"
      if "r \<in> insert t S" for r
      using that new old [of "mergeName job r"] Cons.prems(4,5) t
      by (cases "r = t") (auto simp: mergeName_inject subset_iff)
  qed (use Cons.prems t fs1(2) in auto)
  with fs1 show ?case by (auto simp: reduce_tasks_def)
qed

lemma map_int_upt: "map int [0..<L] = [0..int L - 1]"
proof (induction L)
  case (Suc L)
  have "[0..int L] = [0..int L - 1] @ [int L]" by (simp add: upto_rec2)
  with Suc show ?case by simp
qed simp

lemma all_pairs_nth: "all_pairs mapF fs fls = concat (map (input_pairs mapF fs fls) [0..<length fls])"
proof -
  have "map (input_pairs mapF fs fls) [0..<length fls] =
      map (\<lambda>f. mapF f (map_zero [] (contents fs) f)) fls"
    by (rule nth_equalityI) (simp_all add: input_pairs_def)
  then show ?thesis by (simp add: all_pairs_def)
qed

lemma part_kvs_concat: "concat (map (\<lambda>i. part_kvs n r (f i)) is) = part_kvs n r (concat (map f is))"
  by (induction "is") (simp_all add: part_kvs_def)

lemma values_of_part: "values_of k (part_kvs n (part n k) kvs) = values_of k kvs"
  unfolding values_of_def part_kvs_def filter_filter by (rule arg_cong [where f = "map Value"])
    (rule filter_cong, auto)

lemma keys_part: "k \<in> Key ` set (part_kvs n r kvs) \<longleftrightarrow> k \<in> Key ` set kvs \<and> part n k = r"
  by (auto simp: part_kvs_def)

lemma merge_reads:
  assumes "\<And>r. r \<in> set rs \<Longrightarrow> contents fs (mergeName (jobName mr) r) = Some (concat (map json_encode (kvs r)))"
    and "\<And>r. r \<in> set rs \<Longrightarrow> list_all utf8_kv (kvs r)"
  shows "gfold (merge_read mr fs) rs m =
    Inr (fold (\<lambda>kv. AList.update (Key kv) (Value kv)) (concat (map kvs rs)) m)"
  using assms
  by (induction rs arbitrary: m) (simp_all add: merge_read_def json_decode_all_encode)

lemma fold_alist_update:
  defines "g \<equiv> fold (\<lambda>kv. AList.update (Key kv) (Value kv))"
  assumes "\<And>kv. kv \<in> set kvs \<Longrightarrow> Value kv = F (Key kv)"
  shows "map_of (g kvs m) k = (if k \<in> Key ` set kvs then Some (F k) else map_of m k)"
    and "distinct (map fst m) \<Longrightarrow> distinct (map fst (g kvs m))"
    and "fst ` set (g kvs m) = fst ` set m \<union> Key ` set kvs"
proof -
  show "map_of (g kvs m) k = (if k \<in> Key ` set kvs then Some (F k) else map_of m k)"
    using assms(2) unfolding g_def by (induction kvs arbitrary: m) (auto simp: update_conv')
  show "distinct (map fst m) \<Longrightarrow> distinct (map fst (g kvs m))"
    unfolding g_def by (induction kvs arbitrary: m) (auto simp: distinct_update)
  show "fst ` set (g kvs m) = fst ` set m \<union> Key ` set kvs"
    unfolding g_def by (induction kvs arbitrary: m) (auto simp: dom_update)
qed

lemma reduced_part:
  assumes "kv \<in> set (reduced red (part_kvs n r all))"
  shows "Value kv = red (Key kv) (values_of (Key kv) all)"
proof -
  from assms obtain k where kv: "kv = \<lparr>Key = k, Value = red k (values_of k (part_kvs n r all))\<rparr>"
    and k: "k \<in> Key ` set (part_kvs n r all)" by (auto simp: reduced_def)
  from k have "part n k = r" by (simp only: keys_part)
  with kv values_of_part [of k n all] show ?thesis by simp
qed

lemma reduced_keys:
  "k \<in> Key ` set (reduced red (part_kvs n r all)) \<longleftrightarrow> k \<in> Key ` set all \<and> part n k = r"
proof -
  have "Key ` set (reduced red (part_kvs n r all)) = Key ` set (part_kvs n r all)"
    by (force simp: reduced_def image_image)
  then show ?thesis by (simp only: keys_part)
qed

lemma returns_part:
  assumes "returns reduceF red all"
  shows "returns reduceF red (part_kvs n r all)"
  unfolding returns_def
proof (intro conjI ballI)
  show "list_all utf8_kv (part_kvs n r all)"
    using assms by (auto simp: returns_def part_kvs_def list_all_iff)
  fix k assume "k \<in> Key ` set (part_kvs n r all)"
  then have "k \<in> Key ` set all" "part n k = r" unfolding keys_part by auto
  with assms values_of_part [of k n all]
  show "reduceF k (values_of k (part_kvs n r all)) = Inr (red k (values_of k (part_kvs n r all)))"
    "utf8 (red k (values_of k (part_kvs n r all)))" unfolding returns_def by metis+
qed

text \<open>Merging the outputs of the reduce tasks of all partitions.\<close>

lemma merge_writes:
  assumes n: "0 < nReduce mr" "nReduce mr < 2 ^ 32"
    and inp: "\<And>r. r \<in> {0..<nReduce mr} \<Longrightarrow> contents fs (mergeName (jobName mr) r) =
      Some (concat (map json_encode (reduced red (part_kvs (nReduce mr) r all))))"
    and ret: "returns reduceF red all"
    and cr: "creatable fs (''mrtmp.'' @ jobName mr)"
  shows "\<exists>fs'. merge mr fs = Inr fs' \<and> contents fs' (''mrtmp.'' @ jobName mr) = Some (result_text red all) \<and>
    creatable fs' = creatable fs \<and> (\<forall>g. g \<noteq> ''mrtmp.'' @ jobName mr \<longrightarrow> contents fs' g = contents fs g)"
proof -
  let ?n = "nReduce mr" and ?out = "''mrtmp.'' @ jobName mr"
  let ?W = "concat (map (\<lambda>r. reduced red (part_kvs ?n r all)) [0..?n - 1])"
  let ?F = "\<lambda>k. red k (values_of k all)"
  let ?m = "fold (\<lambda>kv. AList.update (Key kv) (Value kv)) ?W []"
  have in_W: "kv \<in> set ?W \<longleftrightarrow> (\<exists>r\<in>{0..?n - 1}. kv \<in> set (reduced red (part_kvs ?n r all)))" for kv
    by simp
  have val: "Value kv = ?F (Key kv)" if "kv \<in> set ?W" for kv
    using that unfolding in_W by (blast dest: reduced_part)
  have keys: "Key ` set ?W = Key ` set all"
  proof (intro equalityI subsetI)
    fix k assume "k \<in> Key ` set all"
    moreover have "part ?n k \<in> {0..?n - 1}" using part_range [OF n, of k] by simp
    ultimately show "k \<in> Key ` set ?W"
      using reduced_keys [of k red ?n "part ?n k" all] in_W unfolding image_iff by blast
  next
    fix k assume "k \<in> Key ` set ?W"
    then obtain kv r where "kv \<in> set (reduced red (part_kvs ?n r all))" "k = Key kv"
      unfolding image_iff using in_W by blast
    then show "k \<in> Key ` set all" using reduced_keys [of k red ?n r all] by blast
  qed
  have "gfold (merge_read mr fs) [0..?n - 1] [] = Inr ?m"
    using inp reduced_utf8 [OF returns_part [OF ret]] by (intro merge_reads) auto
  moreover have "sort (map fst ?m) = keys_of all"
    using fold_alist_update(2,3) [of ?W ?F "[]", OF val] keys by (intro sort_keys) auto
  moreover have "map_zero [] (map_of ?m) k = ?F k" if "k \<in> set (keys_of all)" for k
    using fold_alist_update(1) [of ?W ?F "[]" k, OF val] that keys by simp
  then have "concat (map (\<lambda>k. k @ '': '' @ map_zero [] (map_of ?m) k @ [CHR 0x0A]) (keys_of all))
      = result_text red all"
    unfolding result_text_def by (intro arg_cong [where f = concat] map_cong) simp_all
  ultimately show ?thesis
    using cr by (simp add: merge_def os_Create_def Let_def file_write_def)
qed

text \<open>All tasks of a job, each at least once, in any order: the map tasks, then the reduce
  tasks, then the merge.\<close>

lemma job_result:
  assumes ok: "job_ok job fls n fs" and ts: "set ts = {..<length fls}" and us: "set us = {0..<n}"
    and mr: "jobName mr = job" "nReduce mr = n"
    and ret: "returns reduceF red (all_pairs mapF fs fls)"
  shows "\<exists>fs1 fs2 fs3. map_tasks job fls n mapF ts fs = Inr fs1 \<and>
    reduce_tasks job (int (length fls)) reduceF us fs1 = Inr fs2 \<and> merge mr fs2 = Inr fs3 \<and>
    contents fs3 (''mrtmp.'' @ job) = Some (result_text red (all_pairs mapF fs fls))"
proof -
  let ?L = "length fls" and ?all = "all_pairs mapF fs fls"
  let ?kvs = "\<lambda>r i. part_kvs n r (input_pairs mapF fs fls (nat i))"
  from map_tasks_ok [OF ok, of ts fs "{}" mapF] ts obtain fs1 where
    fs1: "map_tasks job fls n mapF ts fs = Inr fs1" "creatable fs1 = creatable fs"
    and got: "\<And>i r. i < ?L \<Longrightarrow> r \<in> {0..<n} \<Longrightarrow> contents fs1 (reduceName job (int i) r) =
        Some (concat (map json_encode (part_kvs n r (input_pairs mapF fs fls i))))" by auto
  have inp: "contents fs1 (reduceName job i r) = Some (concat (map json_encode (?kvs r i)))"
    if "0 \<le> i" "i < int ?L" "r \<in> {0..<n}" for i r
    using got [of "nat i" r] that by simp
  have cr: "creatable fs1 (mergeName job r)" if "r \<in> {0..<n}" for r
    using ok fs1(2) that by (auto simp: job_ok_def)
  have all: "concat (map (?kvs r) [0..int ?L - 1]) = part_kvs n r ?all" for r
    by (simp add: all_pairs_nth part_kvs_concat comp_def flip: map_int_upt)
  have "\<exists>fs2. reduce_tasks job (int ?L) reduceF us fs1 = Inr fs2 \<and> creatable fs2 = creatable fs1 \<and>
    (\<forall>r \<in> {} \<union> set us. contents fs2 (mergeName job r) =
        Some (concat (map json_encode (reduced red (concat (map (?kvs r) [0..int ?L - 1]))))))"
  proof (rule reduce_tasks_ok [OF inp cr])
    show "returns reduceF red (concat (map (?kvs r) [0..int ?L - 1]))" for r
      unfolding all by (rule returns_part [OF ret])
  qed (use us in auto)
  then obtain fs2 where fs2: "reduce_tasks job (int ?L) reduceF us fs1 = Inr fs2"
    "creatable fs2 = creatable fs1"
    "\<And>r. r \<in> {0..<n} \<Longrightarrow> contents fs2 (mergeName job r) =
        Some (concat (map json_encode (reduced red (part_kvs n r ?all))))"
    unfolding all us by auto
  have "\<exists>fs3. merge mr fs2 = Inr fs3 \<and> contents fs3 (''mrtmp.'' @ jobName mr) = Some (result_text red ?all)"
    using ok fs1(2) fs2(2,3) ret merge_writes [of mr fs2 red ?all reduceF] by (auto simp: job_ok_def mr)
  with fs1(1) fs2(1) show ?thesis by (auto simp: mr)
qed

lemma enumerate_nth: "List.enumerate 0 xs = map (\<lambda>i. (i, xs ! i)) [0..<length xs]"
  by (rule nth_equalityI) (simp_all add: nth_enumerate_eq)

lemma sequential_schedule_tasks:
  "sequential_schedule mapF reduceF mapPhase mr fs =
     map_tasks (jobName mr) (files mr) (nReduce mr) mapF [0..<length (files mr)] fs"
  "sequential_schedule mapF reduceF reducePhase mr fs =
     reduce_tasks (jobName mr) (int (length (files mr))) reduceF [0..nReduce mr - 1] fs"
  by (simp_all add: sequential_schedule_def map_tasks_def reduce_tasks_def enumerate_nth gfold_map)

end
