(* ===== verification/MR_Apps.thy ===== *)
theory MR_Apps
  imports MR_Correct
begin

text \<open>
  The two applications of the MapReduce library: word count (\<^verbatim>\<open>src/main/wc.go\<close>) and
  inverted index (\<^verbatim>\<open>src/main/ii.go\<close>). Which runes are letters (\<open>unicode.IsLetter\<close>) and
  the order in which a range statement visits a map, which Go leaves open, are arguments.
\<close>

section \<open>The applications\<close>

definition words_of :: "(string \<Rightarrow> bool) \<Rightarrow> string \<Rightarrow> string list" where
  "words_of IsLetter value = FieldsFunc value (\<lambda>c. \<not> IsLetter c)"

definition count_words :: "string list \<Rightarrow> (string \<times> int) list" where
  "count_words ws = fold (\<lambda>w mp. AList.update w (map_zero 0 (map_of mp) w + 1) mp) ws []"

definition wc_mapF ::
  "(string \<Rightarrow> bool) \<Rightarrow> ((string \<times> int) list \<Rightarrow> (string \<times> int) list) \<Rightarrow> string \<Rightarrow> string \<Rightarrow> KeyValue list" where
  "wc_mapF IsLetter visit document value =
     (let mp = count_words (words_of IsLetter value)
      in map (\<lambda>(k, v). \<lparr>Key = k, Value = Itoa v\<rparr>) (visit mp))"

definition wc_reduceF :: "string \<Rightarrow> string list \<Rightarrow> string go" where
  "wc_reduceF key vals =
     gbind (gfold (\<lambda>value tot. case Atoi value of
                     None \<Rightarrow> Inl (LogFatal []) | Some cur \<Rightarrow> Inr (tot + cur)) vals 0) (\<lambda>tot.
     Inr (Itoa tot))"

definition ii_mapF ::
  "(string \<Rightarrow> bool) \<Rightarrow> ((string \<times> int) list \<Rightarrow> (string \<times> int) list) \<Rightarrow> string \<Rightarrow> string \<Rightarrow> KeyValue list" where
  "ii_mapF IsLetter visit document value =
     (let mp = count_words (words_of IsLetter value)
      in map (\<lambda>(k, v). \<lparr>Key = k, Value = document\<rparr>) (visit mp))"

definition ii_reduceF :: "string \<Rightarrow> string list \<Rightarrow> string go" where
  "ii_reduceF key vals = Inr (Itoa (int (length vals)) @ '' '' @ Join vals '','')"

section \<open>Counting\<close>

lemma count_words_gen:
  defines "g \<equiv> fold (\<lambda>w mp. AList.update w (map_zero 0 (map_of mp) w + 1) mp)"
  shows "map_of (g ws m) k =
      (if k \<in> set ws then Some (map_zero 0 (map_of m) k + int (count_list ws k)) else map_of m k)"
    and "distinct (map fst m) \<Longrightarrow> distinct (map fst (g ws m))"
proof -
  show "map_of (g ws m) k =
      (if k \<in> set ws then Some (map_zero 0 (map_of m) k + int (count_list ws k)) else map_of m k)"
    unfolding g_def
    by (induction ws arbitrary: m) (auto simp: update_conv' map_zero_def count_list_0_iff split: option.splits)
  show "distinct (map fst m) \<Longrightarrow> distinct (map fst (g ws m))"
    unfolding g_def by (induction ws arbitrary: m) (auto simp: distinct_update)
qed

lemma count_words_lookup:
  "map_of (count_words ws) k = (if k \<in> set ws then Some (int (count_list ws k)) else None)"
  using count_words_gen(1) [of ws "[]" k] by (simp add: count_words_def)

lemma count_words_distinct: "distinct (map fst (count_words ws))"
  using count_words_gen(2) [of "[]" ws] by (simp add: count_words_def)

lemma filter_key_alist:
  "distinct (map fst m) \<Longrightarrow>
   filter (\<lambda>x. fst x = k) m = (case map_of m k of None \<Rightarrow> [] | Some v \<Rightarrow> [(k, v)])"
proof (induction m)
  case (Cons x m)
  show ?case
  proof (cases "fst x = k")
    case True
    with Cons.prems have "map_of m k = None" by (auto simp: map_of_eq_None_iff)
    with True Cons show ?thesis by (cases x) simp
  next
    case False
    with Cons show ?thesis by (cases x) simp
  qed
qed simp

lemma mset_eq_singleton: "mset xs = mset [x] \<Longrightarrow> xs = [x]"
  by (metis mset_single_iff mset.simps(1) mset.simps(2))

text \<open>Of one key, any order of the map yields the same entries.\<close>

lemma filter_key_range:
  assumes "mset (visit mp) = mset mp" and "distinct (map fst mp)"
  shows "filter (\<lambda>x. fst x = k) (visit mp) = (case map_of mp k of None \<Rightarrow> [] | Some v \<Rightarrow> [(k, v)])"
proof -
  have "mset (filter (\<lambda>x. fst x = k) (visit mp)) = mset (filter (\<lambda>x. fst x = k) mp)"
    using assms(1) by (simp add: mset_filter)
  moreover have "mset xs = mset (case ov of None \<Rightarrow> [] | Some v \<Rightarrow> [(k, v)]) \<Longrightarrow>
      xs = (case ov of None \<Rightarrow> [] | Some v \<Rightarrow> [(k, v)])" for xs and ov :: "'b option"
    by (cases ov) (auto dest: mset_eq_singleton simp del: mset.simps(2))
  ultimately show ?thesis unfolding filter_key_alist [OF assms(2)] by blast
qed

lemma values_of_map:
  "values_of k (map (\<lambda>(k, v). \<lparr>Key = k, Value = f v\<rparr>) xs) = map (\<lambda>x. f (snd x)) (filter (\<lambda>x. fst x = k) xs)"
  by (induction xs) (auto simp: values_of_def)

lemma values_of_append [simp]: "values_of k (xs @ ys) = values_of k xs @ values_of k ys" "values_of k [] = []"
  by (simp_all add: values_of_def)

lemma values_of_concat: "values_of k (concat xss) = concat (map (values_of k) xss)"
  by (induction xss) (simp_all add: values_of_def)

lemma wc_values:
  assumes "\<And>mp. mset (visit mp) = mset mp"
  shows "values_of k (wc_mapF IsLetter visit f text) =
    (let ws = words_of IsLetter text in if k \<in> set ws then [Itoa (int (count_list ws k))] else [])"
  using filter_key_range [of visit, OF assms count_words_distinct]
  by (simp add: wc_mapF_def values_of_map count_words_lookup Let_def)

lemma ii_values:
  assumes "\<And>mp. mset (visit mp) = mset mp"
  shows "values_of k (ii_mapF IsLetter visit f text) = (if k \<in> set (words_of IsLetter text) then [f] else [])"
  using filter_key_range [of visit, OF assms count_words_distinct]
  by (simp add: ii_mapF_def values_of_map count_words_lookup)

lemma keys_visit:
  assumes "\<And>mp. mset (visit mp) = mset mp"
  shows "Key ` set (wc_mapF IsLetter visit f text) = set (words_of IsLetter text)"
    and "Key ` set (ii_mapF IsLetter visit f text) = set (words_of IsLetter text)"
proof -
  let ?mp = "count_words (words_of IsLetter text)"
  have "set (visit ?mp) = set ?mp" using assms [of ?mp] by (metis set_mset_mset)
  moreover have "fst ` set ?mp = set (words_of IsLetter text)"
    unfolding dom_map_of_conv_image_fst [symmetric] by (auto simp: count_words_lookup dom_def split: if_splits)
  ultimately have "fst ` set (visit ?mp) = set (words_of IsLetter text)" by simp
  then show "Key ` set (wc_mapF IsLetter visit f text) = set (words_of IsLetter text)"
    "Key ` set (ii_mapF IsLetter visit f text) = set (words_of IsLetter text)"
    by (auto simp: wc_mapF_def ii_mapF_def Let_def image_image case_prod_beta)
qed

section \<open>Text\<close>

text \<open>Words are made of letters, which are correctly encoded runes: a byte that is not valid
  UTF-8 is not a letter.\<close>

lemma fields_utf8:
  assumes "\<And>r. r \<in> set rs \<Longrightarrow> \<not> f r \<Longrightarrow> is_rune r" and "\<And>w. cur = Some w \<Longrightarrow> utf8 w"
  shows "list_all utf8 (read_fields f rs cur)"
  using assms
proof (induction f rs cur rule: read_fields.induct)
  case (1 f cur)
  then show ?case by (auto split: option.splits)
next
  case (2 f r rs cur)
  have one: "\<not> f r \<Longrightarrow> utf8 r" using 2(5) utf8_concat [of "[r]"] by simp
  show ?case
    using 2 one utf8_append by (cases "f r"; cases cur) simp_all
qed

lemma words_utf8:
  assumes "\<And>r. IsLetter r \<Longrightarrow> is_rune r" and "w \<in> set (words_of IsLetter t)"
  shows "utf8 w"
proof -
  have "list_all utf8 (words_of IsLetter t)"
    unfolding words_of_def FieldsFunc_def by (rule fields_utf8) (use assms(1) in auto)
  with assms(2) show ?thesis by (simp add: list_all_iff)
qed

lemma itoa_utf8: "utf8 (Itoa n)"
proof (rule utf8_ascii)
  have "is_digit c \<Longrightarrow> (of_char c :: nat) < 128" for c by (auto simp: is_digit_def)
  then have "list_all (\<lambda>c. (of_char c :: nat) < 128) (itoa k)" for k
    using itoa_digits [of k] by (auto simp: list_all_iff)
  then show "list_all (\<lambda>c. (of_char c :: nat) < 128) (Itoa n)" by (simp add: Itoa_def)
qed

lemma join_utf8: "list_all utf8 xs \<Longrightarrow> utf8 sep \<Longrightarrow> utf8 (Join xs sep)"
proof -
  assume a: "list_all utf8 xs" "utf8 sep"
  have "utf8 (concat (map (\<lambda>y. sep @ y) ys))" if "list_all utf8 ys" for ys
    using that a(2) by (induction ys) (simp_all add: utf8_append utf8_ascii)
  with a(1) show ?thesis by (cases xs) (simp_all add: Join_def utf8_append utf8_ascii)
qed

section \<open>What the jobs compute\<close>

definition texts :: "fsys \<Rightarrow> string list \<Rightarrow> string list" where
  "texts fs fls = map (map_zero [] (contents fs)) fls"

definition all_words :: "(string \<Rightarrow> bool) \<Rightarrow> fsys \<Rightarrow> string list \<Rightarrow> string list" where
  "all_words IsLetter fs fls = concat (map (words_of IsLetter) (texts fs fls))"

lemma wc_all_values:
  assumes "\<And>mp. mset (visit mp) = mset mp"
  shows "values_of k (all_pairs (wc_mapF IsLetter visit) fs fls) =
    map (\<lambda>t. Itoa (int (count_list (words_of IsLetter t) k)))
      (filter (\<lambda>t. k \<in> set (words_of IsLetter t)) (texts fs fls))"
  by (induction fls)
    (simp_all add: all_pairs_def texts_def values_of_concat comp_def wc_values [OF assms] Let_def)

lemma sum_counts:
  assumes "set vs \<subseteq> {0..<2 ^ 63}"
  shows "gfold (\<lambda>value tot. case Atoi value of None \<Rightarrow> Inl (LogFatal []) | Some cur \<Rightarrow> Inr (tot + cur))
    (map Itoa vs) a = Inr (a + sum_list vs)"
  using assms by (induction vs arbitrary: a) (simp_all add: Atoi_Itoa)

lemma count_list_concat:
  "int (count_list (concat (map ws ts)) k) =
   sum_list (map (\<lambda>t. int (count_list (ws t) k)) (filter (\<lambda>t. k \<in> set (ws t)) ts))"
  by (induction ts) (simp_all add: count_list_0_iff)

lemma count_list_le_length: "count_list xs k \<le> length xs"
  by (induction xs) auto

lemma wc_reduce:
  assumes visit: "\<And>mp. mset (visit mp) = mset mp"
    and small: "int (length (all_words IsLetter fs fls)) < 2 ^ 63"
  shows "wc_reduceF k (values_of k (all_pairs (wc_mapF IsLetter visit) fs fls)) =
    Inr (Itoa (int (count_list (all_words IsLetter fs fls) k)))"
proof -
  let ?ws = "words_of IsLetter" and ?ts = "filter (\<lambda>t. k \<in> set (words_of IsLetter t)) (texts fs fls)"
  let ?vs = "map (\<lambda>t. int (count_list (?ws t) k)) ?ts"
  have tot: "sum_list ?vs = int (count_list (all_words IsLetter fs fls) k)"
    by (simp add: all_words_def count_list_concat)
  have "set ?vs \<subseteq> {0..<2 ^ 63}"
  proof
    fix v assume v: "v \<in> set ?vs"
    then have "v \<le> sum_list ?vs" by (intro member_le_sum_list) auto
    also have "\<dots> \<le> int (length (all_words IsLetter fs fls))"
      unfolding tot using count_list_le_length by simp
    finally show "v \<in> {0..<2 ^ 63}" using small v by auto
  qed
  from sum_counts [OF this, of 0] tot show ?thesis
    by (simp add: wc_reduceF_def wc_all_values [OF visit] comp_def)
qed

lemma keys_all:
  assumes "\<And>f t. Key ` set (mapF f t) = set (ws t)"
  shows "keys_of (all_pairs mapF fs fls) = sort (remdups (concat (map ws (texts fs fls))))"
proof -
  have "Key ` set (all_pairs mapF fs fls) = set (concat (map ws (texts fs fls)))"
    using assms by (auto simp: all_pairs_def texts_def image_UN)
  then show ?thesis
    unfolding keys_of_def by (intro sorted_distinct_set_unique) simp_all
qed

lemma ii_all_values:
  assumes "\<And>mp. mset (visit mp) = mset mp"
  shows "values_of k (all_pairs (ii_mapF IsLetter visit) fs fls) =
    filter (\<lambda>f. k \<in> set (words_of IsLetter (map_zero [] (contents fs) f))) fls"
  by (induction fls) (simp_all add: all_pairs_def values_of_concat comp_def ii_values [OF assms])

lemma all_pairs_utf8:
  assumes "\<And>f t kv. f \<in> set fls \<Longrightarrow> kv \<in> set (mapF f t) \<Longrightarrow> utf8_kv kv"
  shows "list_all utf8_kv (all_pairs mapF fs fls)"
  using assms by (auto simp: all_pairs_def list_all_iff)

lemma pairs_utf8:
  assumes letters: "\<And>r. IsLetter r \<Longrightarrow> is_rune r" and visit: "\<And>mp. mset (visit mp) = mset mp"
  shows "list_all utf8_kv (all_pairs (wc_mapF IsLetter visit) fs fls)"
    and "list_all utf8 fls \<Longrightarrow> list_all utf8_kv (all_pairs (ii_mapF IsLetter visit) fs fls)"
proof -
  have wc: "utf8 (Key kv) \<and> utf8 (Value kv)" if "kv \<in> set (wc_mapF IsLetter visit f t)" for kv f t
  proof -
    have "Key kv \<in> set (words_of IsLetter t)" using keys_visit(1) [OF visit] that by blast
    moreover have "utf8 (Value kv)" using that itoa_utf8 by (auto simp: wc_mapF_def Let_def)
    ultimately show ?thesis using words_utf8 [of IsLetter, OF letters] by blast
  qed
  have ii: "utf8 (Key kv) \<and> Value kv = f" if "kv \<in> set (ii_mapF IsLetter visit f t)" for kv f t
  proof -
    have "Key kv \<in> set (words_of IsLetter t)" using keys_visit(2) [OF visit] that by blast
    moreover have "Value kv = f" using that by (auto simp: ii_mapF_def Let_def)
    ultimately show ?thesis using words_utf8 [of IsLetter, OF letters] by blast
  qed
  show "list_all utf8_kv (all_pairs (wc_mapF IsLetter visit) fs fls)"
    by (rule all_pairs_utf8) (use wc in \<open>simp add: utf8_kv_def\<close>)
  show "list_all utf8 fls \<Longrightarrow> list_all utf8_kv (all_pairs (ii_mapF IsLetter visit) fs fls)"
    by (rule all_pairs_utf8) (use ii in \<open>simp add: utf8_kv_def list_all_iff\<close>)
qed

end
