(* ===== verification/MR_Schedule.thy ===== *)
theory MR_Schedule
  imports MapReduce
begin

text \<open>
  The distributed scheduler (\<^verbatim>\<open>src/mapreduce/schedule.go\<close>): the loop that hands tasks to idle
  workers, one \<open>execute\<close> goroutine per attempt, the unbuffered \<open>registerChannel\<close> over
  which workers become idle, and the wait group the function returns on. A state holds the
  goroutines blocked in a send on the channel (\<open>sd_offers\<close>) and the attempts that have not
  ended; a receive takes any of the blocked senders.
\<close>

section \<open>State and operations\<close>

datatype exec_pc = Calling | WaitNew

record sched =
  sd_ntasks :: nat
  sd_next :: nat
  sd_execs :: "(string \<times> nat \<times> exec_pc) list"
  sd_offers :: "string list"
  sd_wg :: int
  sd_log :: "(DoTaskArgs \<times> bool) list"
  sd_returned :: bool

definition schedule_ntasks :: "jobPhase \<Rightarrow> Master \<Rightarrow> int" where
  "schedule_ntasks phase mr = (case phase of mapPhase \<Rightarrow> int (length (files mr)) | reducePhase \<Rightarrow> nReduce mr)"

definition schedule_nios :: "jobPhase \<Rightarrow> Master \<Rightarrow> int" where
  "schedule_nios phase mr = (case phase of mapPhase \<Rightarrow> nReduce mr | reducePhase \<Rightarrow> int (length (files mr)))"

definition schedule_start :: "jobPhase \<Rightarrow> Master \<Rightarrow> sched go" where
  "schedule_start phase mr =
     (if schedule_ntasks phase mr < 0 then Inl NegativeWaitGroup
      else Inr \<lparr>sd_ntasks = nat (schedule_ntasks phase mr), sd_next = 0, sd_execs = [],
                sd_offers = registerChannel mr, sd_wg = schedule_ntasks phase mr, sd_log = [],
                sd_returned = False\<rparr>)"

text \<open>The arguments \<open>execute\<close> builds for its call.\<close>

definition execute_args :: "jobPhase \<Rightarrow> Master \<Rightarrow> nat \<Rightarrow> DoTaskArgs go" where
  "execute_args phase mr taskId =
     gbind (go_idx (files mr) (int taskId)) (\<lambda>f.
     Inr \<lparr>JobName = jobName mr, File = f, Phase = phase, TaskNumber = int taskId,
          NumOtherPhase = schedule_nios phase mr\<rparr>)"

definition remove_nth :: "nat \<Rightarrow> 'a list \<Rightarrow> 'a list" where
  "remove_nth k xs = take k xs @ drop (Suc k) xs"

text \<open>A worker registers while the scheduler runs.\<close>

definition sched_register :: "string \<Rightarrow> sched \<Rightarrow> sched" where
  "sched_register w s = s\<lparr>sd_offers := sd_offers s @ [w]\<rparr>"

text \<open>The loop receives an idle worker and starts a goroutine for the next task.\<close>

definition sched_dispatch :: "nat \<Rightarrow> sched \<Rightarrow> sched" where
  "sched_dispatch p s =
     s\<lparr>sd_offers := remove_nth p (sd_offers s),
       sd_execs := sd_execs s @ [(sd_offers s ! p, sd_next s, Calling)],
       sd_next := sd_next s + 1\<rparr>"

text \<open>The call of attempt \<open>k\<close> returns: on success the task is done and the goroutine offers
  its worker again; otherwise it waits for another worker.\<close>

definition sched_call :: "jobPhase \<Rightarrow> Master \<Rightarrow> nat \<Rightarrow> bool \<Rightarrow> sched \<Rightarrow> sched go" where
  "sched_call phase mr k ok s =
     (case sd_execs s ! k of (w, t, pc) \<Rightarrow>
      gbind (execute_args phase mr t) (\<lambda>args.
      let s = s\<lparr>sd_log := sd_log s @ [(args, ok)]\<rparr> in
      if ok then
        if sd_wg s \<le> 0 then Inl NegativeWaitGroup
        else Inr (s\<lparr>sd_wg := sd_wg s - 1, sd_execs := remove_nth k (sd_execs s),
                    sd_offers := sd_offers s @ [w]\<rparr>)
      else Inr (s\<lparr>sd_execs := (sd_execs s)[k := (w, t, WaitNew)]\<rparr>)))"

text \<open>An attempt that failed receives another worker, starts a new attempt of its task there,
  and then offers the worker that failed.\<close>

definition sched_retry :: "nat \<Rightarrow> nat \<Rightarrow> sched \<Rightarrow> sched" where
  "sched_retry k p s =
     (case sd_execs s ! k of (w, t, pc) \<Rightarrow>
      s\<lparr>sd_execs := (sd_execs s)[k := (sd_offers s ! p, t, Calling)],
        sd_offers := remove_nth p (sd_offers s) @ [w]\<rparr>)"

inductive sched_step :: "jobPhase \<Rightarrow> Master \<Rightarrow> sched \<Rightarrow> sched \<Rightarrow> bool"
  for phase :: jobPhase and mr :: Master where
  Register: "sched_step phase mr s (sched_register w s)"
| Dispatch: "sd_next s < sd_ntasks s \<Longrightarrow> p < length (sd_offers s) \<Longrightarrow>
    sched_step phase mr s (sched_dispatch p s)"
| Call: "k < length (sd_execs s) \<Longrightarrow> snd (snd (sd_execs s ! k)) = Calling \<Longrightarrow>
    sched_call phase mr k ok s = Inr t \<Longrightarrow> sched_step phase mr s t"
| Retry: "k < length (sd_execs s) \<Longrightarrow> snd (snd (sd_execs s ! k)) = WaitNew \<Longrightarrow>
    p < length (sd_offers s) \<Longrightarrow> sched_step phase mr s (sched_retry k p s)"
| Return: "sd_next s = sd_ntasks s \<Longrightarrow> sd_wg s = 0 \<Longrightarrow>
    sched_step phase mr s (s\<lparr>sd_returned := True\<rparr>)"

inductive_cases sched_stepE: "sched_step phase mr s t"

section \<open>Every task is done exactly once\<close>

definition done_tasks :: "sched \<Rightarrow> int list" where
  "done_tasks s = map (\<lambda>(a, ok). TaskNumber a) (filter snd (sd_log s))"

definition sinv :: "jobPhase \<Rightarrow> Master \<Rightarrow> sched \<Rightarrow> bool" where
  "sinv phase mr s \<longleftrightarrow> sd_next s \<le> sd_ntasks s \<and>
     mset (map (\<lambda>(w, t, pc). int t) (sd_execs s)) + mset (done_tasks s) = mset (map int [0..<sd_next s]) \<and>
     sd_wg s = int (sd_ntasks s) - int (length (done_tasks s)) \<and>
     (sd_returned s \<longrightarrow> sd_next s = sd_ntasks s \<and> sd_wg s = 0) \<and>
     int (sd_ntasks s) = schedule_ntasks phase mr \<and>
     (\<forall>a\<in>fst ` set (sd_log s). 0 \<le> TaskNumber a \<and> TaskNumber a < int (sd_ntasks s) \<and>
        execute_args phase mr (nat (TaskNumber a)) = Inr a)"

lemma map_split_nth:
  assumes "k < length xs"
  shows "map f xs = map f (take k xs) @ f (xs ! k) # map f (drop (Suc k) xs)"
  using id_take_nth_drop [OF assms] by (metis list.simps(9) map_append)

lemma mset_map_remove_nth:
  assumes "k < length xs"
  shows "mset (map f xs) = add_mset (f (xs ! k)) (mset (map f (remove_nth k xs)))"
  unfolding map_split_nth [OF assms] by (simp add: remove_nth_def)

lemma mset_map_upd_same:
  assumes "k < length xs" and "f x = f (xs ! k)"
  shows "map f (xs[k := x]) = map f xs"
  using assms by (metis list_update_id map_update)

lemma execute_args_fields:
  assumes "execute_args phase mr t = Inr a"
  shows "t < length (files mr)" "JobName a = jobName mr" "File a = files mr ! t" "Phase a = phase"
    "TaskNumber a = int t" "NumOtherPhase a = schedule_nios phase mr"
  using assms by (auto simp: execute_args_def go_simps)

lemma sinv_start:
  assumes "schedule_start phase mr = Inr s"
  shows "sinv phase mr s"
  using assms by (auto simp: schedule_start_def sinv_def done_tasks_def split: if_splits)

lemma sinv_exec_task:
  assumes "sinv phase mr s" and "k < length (sd_execs s)"
  shows "fst (snd (sd_execs s ! k)) < sd_ntasks s"
proof -
  let ?f = "\<lambda>(w :: string, t, pc :: exec_pc). int t"
  have eq: "mset (map ?f (sd_execs s)) + mset (done_tasks s) = mset (map int [0..<sd_next s])"
    and le: "sd_next s \<le> sd_ntasks s" using assms(1) by (auto simp: sinv_def)
  have "?f (sd_execs s ! k) \<in> set (map ?f (sd_execs s))" using assms(2) by simp
  then have "?f (sd_execs s ! k) \<in># mset (map ?f (sd_execs s)) + mset (done_tasks s)" by simp
  then have "?f (sd_execs s ! k) \<in> set (map int [0..<sd_next s])" unfolding eq by simp
  then show ?thesis using le by (auto split: prod.splits)
qed

lemma sinv_call:
  assumes inv: "sinv phase mr s" and k: "k < length (sd_execs s)"
    and call: "sched_call phase mr k ok s = Inr t"
  shows "sinv phase mr t"
proof -
  obtain w i pc where e: "sd_execs s ! k = (w, i, pc)" by (cases "sd_execs s ! k")
  from call e obtain a where a: "execute_args phase mr i = Inr a"
    and t: "t = (let s = s\<lparr>sd_log := sd_log s @ [(a, ok)]\<rparr> in
      if ok then s\<lparr>sd_wg := sd_wg s - 1, sd_execs := remove_nth k (sd_execs s), sd_offers := sd_offers s @ [w]\<rparr>
      else s\<lparr>sd_execs := (sd_execs s)[k := (w, i, WaitNew)]\<rparr>)" and wg: "ok \<longrightarrow> 0 < sd_wg s"
    by (auto simp: sched_call_def gbind_eq_Inr Let_def split: if_splits)
  have an: "TaskNumber a = int i" "i < sd_ntasks s"
    using execute_args_fields(5) [OF a] sinv_exec_task [OF inv k] e by simp_all
  show ?thesis
  proof (cases ok)
    case True
    have "mset (map (\<lambda>(w, t, pc). int t) (sd_execs s)) =
        add_mset (int i) (mset (map (\<lambda>(w, t, pc). int t) (remove_nth k (sd_execs s))))"
      using mset_map_remove_nth [OF k] e by (metis (mono_tags, lifting) case_prod_conv)
    with inv True wg a an show ?thesis
      by (auto simp: sinv_def t done_tasks_def)
  next
    case False
    have "map (\<lambda>(w, t, pc). int t) ((sd_execs s)[k := (w, i, WaitNew)]) = map (\<lambda>(w, t, pc). int t) (sd_execs s)"
      using e by (intro mset_map_upd_same [OF k]) simp
    with inv False a an show ?thesis by (auto simp: sinv_def t done_tasks_def)
  qed
qed

lemma sinv_step:
  assumes inv: "sinv phase mr s" and st: "sched_step phase mr s t"
  shows "sinv phase mr t"
  using st
proof (cases rule: sched_step.cases)
  case (Register w)
  with inv show ?thesis by (auto simp: sinv_def sched_register_def done_tasks_def)
next
  case (Dispatch p)
  with inv show ?thesis by (auto simp: sinv_def sched_dispatch_def done_tasks_def)
next
  case (Call k ok)
  with inv sinv_call show ?thesis by blast
next
  case (Retry k p)
  obtain w i pc where e: "sd_execs s ! k = (w, i, pc)" by (cases "sd_execs s ! k")
  have "map (\<lambda>(w, t, pc). int t) ((sd_execs s)[k := (sd_offers s ! p, i, Calling)]) =
      map (\<lambda>(w, t, pc). int t) (sd_execs s)"
    using e by (intro mset_map_upd_same [OF Retry(2)]) simp
  with inv e Retry(1) show ?thesis by (auto simp: sinv_def sched_retry_def done_tasks_def)
next
  case Return
  with inv show ?thesis by (auto simp: sinv_def done_tasks_def)
qed

text \<open>The scheduler of a phase as a machine, and its invariant in every state it reaches.\<close>

definition sched_init :: "jobPhase \<Rightarrow> Master \<Rightarrow> sched \<Rightarrow> bool" where
  "sched_init phase mr s \<longleftrightarrow> schedule_start phase mr = Inr s"

abbreviation sched_reachable :: "jobPhase \<Rightarrow> Master \<Rightarrow> sched \<Rightarrow> bool" where
  "sched_reachable phase mr \<equiv> reach (sched_init phase mr) (sched_step phase mr)"

interpretation sched_inv: inductive_invariant "sched_init phase mr" "sched_step phase mr" "sinv phase mr"
  for phase mr
  by unfold_locales (auto simp: sched_init_def intro: sinv_start sinv_step)

lemma sinv_log:
  assumes "sinv phase mr s" and "a \<in> fst ` set (sd_log s)"
  shows "execute_args phase mr (nat (TaskNumber a)) = Inr a"
    "0 \<le> TaskNumber a \<and> TaskNumber a < schedule_ntasks phase mr"
  using assms unfolding sinv_def by metis+

lemma sinv_sizes:
  assumes "sinv phase mr s"
  shows "length (sd_execs s) + length (done_tasks s) = sd_next s"
proof -
  have "size (mset (map (\<lambda>(w, t, pc). int t) (sd_execs s)) + mset (done_tasks s)) = sd_next s"
    using assms by (simp add: sinv_def)
  then show ?thesis by simp
qed

lemma sinv_returned:
  assumes inv: "sinv phase mr s" and r: "sd_returned s"
  shows "sd_execs s = []" "mset (done_tasks s) = mset [0..schedule_ntasks phase mr - 1]"
proof -
  have "int (length (done_tasks s)) = int (sd_ntasks s)" "sd_next s = sd_ntasks s"
    using inv r by (auto simp: sinv_def)
  with sinv_sizes [OF inv] show e: "sd_execs s = []" by simp
  have "map int [0..<L] = [0..int L - 1]" for L
  proof (induction L)
    case (Suc L)
    have "[0..int L] = [0..int L - 1] @ [int L]" by (simp add: upto_rec2)
    with Suc show ?case by simp
  qed simp
  then show "mset (done_tasks s) = mset [0..schedule_ntasks phase mr - 1]"
    using inv r e by (simp add: sinv_def)
qed

section \<open>Runs\<close>

datatype sched_event = SRegister string | SDispatch nat | SCall nat bool | SRetry nat nat | SReturn

fun sched_exec :: "jobPhase \<Rightarrow> Master \<Rightarrow> sched_event \<Rightarrow> sched \<Rightarrow> sched go" where
  "sched_exec phase mr (SRegister w) s = Inr (sched_register w s)"
| "sched_exec phase mr (SDispatch p) s =
     Inr (if sd_next s < sd_ntasks s \<and> p < length (sd_offers s) then sched_dispatch p s else s)"
| "sched_exec phase mr (SCall k ok) s =
     (if k < length (sd_execs s) \<and> snd (snd (sd_execs s ! k)) = Calling
      then sched_call phase mr k ok s else Inr s)"
| "sched_exec phase mr (SRetry k p) s =
     Inr (if k < length (sd_execs s) \<and> snd (snd (sd_execs s ! k)) = WaitNew \<and> p < length (sd_offers s)
          then sched_retry k p s else s)"
| "sched_exec phase mr SReturn s =
     Inr (if sd_next s = sd_ntasks s \<and> sd_wg s = 0 then s\<lparr>sd_returned := True\<rparr> else s)"

lemma sched_exec_step:
  assumes "sched_exec phase mr e s = Inr t"
  shows "t = s \<or> sched_step phase mr s t"
  using assms by (cases e) (auto intro: sched_step.intros split: if_splits)

lemma sched_run_reachable:
  assumes "gfold (sched_exec phase mr) es s = Inr t" and "sched_reachable phase mr s"
  shows "sched_reachable phase mr t"
  using assms
proof (induction es arbitrary: s)
  case (Cons e es)
  then obtain u where u: "sched_exec phase mr e s = Inr u" "gfold (sched_exec phase mr) es u = Inr t"
    by (auto simp: gbind_eq_Inr)
  with sched_exec_step [OF u(1)] Cons.prems(2) have "sched_reachable phase mr u"
    by (auto intro: reach_step)
  with u(2) show ?case by (rule Cons.IH)
qed simp

section \<open>Absence of panics, and completion\<close>

lemma sched_call_ok:
  assumes inv: "sinv phase mr s" and files: "schedule_ntasks phase mr \<le> int (length (files mr))"
    and k: "k < length (sd_execs s)"
  shows "\<exists>t. sched_call phase mr k ok s = Inr t"
proof -
  obtain w i pc where e: "sd_execs s ! k = (w, i, pc)" by (cases "sd_execs s ! k")
  have "i < sd_ntasks s" using sinv_exec_task [OF inv k] e by simp
  then have "i < length (files mr)" using inv files by (simp add: sinv_def)
  moreover have "0 < sd_wg s"
    using sinv_sizes [OF inv] inv k by (auto simp: sinv_def)
  ultimately show ?thesis
    using e by (auto simp: sched_call_def execute_args_def go_idx_def Let_def)
qed

definition pending :: "sched \<Rightarrow> nat" where
  "pending s = 2 * (sd_ntasks s - sd_next s) +
     sum_list (map (\<lambda>(w, t, pc). case pc of Calling \<Rightarrow> 1 | WaitNew \<Rightarrow> 2) (sd_execs s))"

definition has_worker :: "sched \<Rightarrow> bool" where
  "has_worker s \<longleftrightarrow> sd_offers s \<noteq> [] \<or> (\<exists>(w, t, pc)\<in>set (sd_execs s). pc = Calling)"

lemma sum_list_remove_nth:
  fixes f :: "'a \<Rightarrow> nat"
  assumes "k < length xs"
  shows "sum_list (map f xs) = f (xs ! k) + sum_list (map f (remove_nth k xs))"
  unfolding map_split_nth [OF assms] by (simp add: remove_nth_def)

lemma sum_list_upd:
  fixes f :: "'a \<Rightarrow> nat"
  assumes "k < length xs"
  shows "sum_list (map f (xs[k := x])) + f (xs ! k) = f x + sum_list (map f xs)"
proof -
  have "sum_list (map f (xs[k := x])) = f x + sum_list (map f (remove_nth k xs))"
    using sum_list_remove_nth [of k "xs[k := x]" f] assms by (simp add: remove_nth_def)
  with sum_list_remove_nth [OF assms, of f] show ?thesis by simp
qed

lemma pending_call:
  assumes "k < length (sd_execs s)" "snd (snd (sd_execs s ! k)) = Calling"
    "sched_call phase mr k True s = Inr t"
  shows "pending t < pending s" "has_worker t" "\<not> sd_returned s \<Longrightarrow> \<not> sd_returned t"
proof -
  obtain w i where e: "sd_execs s ! k = (w, i, Calling)" using assms(2) by (cases "sd_execs s ! k") auto
  with assms(3) have t: "sd_execs t = remove_nth k (sd_execs s)" "sd_ntasks t = sd_ntasks s"
    "sd_next t = sd_next s" "sd_offers t = sd_offers s @ [w]" "sd_returned t = sd_returned s"
    by (auto simp: sched_call_def gbind_eq_Inr Let_def split: if_splits)
  show "pending t < pending s"
    using sum_list_remove_nth [OF assms(1), of "\<lambda>(w, t, pc). case pc of Calling \<Rightarrow> 1 | WaitNew \<Rightarrow> 2"] e
    by (simp add: pending_def t)
  show "has_worker t" "\<not> sd_returned s \<Longrightarrow> \<not> sd_returned t" by (simp_all add: has_worker_def t)
qed

lemma pending_retry:
  assumes "k < length (sd_execs s)" "snd (snd (sd_execs s ! k)) = WaitNew" "p < length (sd_offers s)"
  shows "pending (sched_retry k p s) < pending s" "has_worker (sched_retry k p s)"
proof -
  obtain w i where e: "sd_execs s ! k = (w, i, WaitNew)" using assms(2) by (cases "sd_execs s ! k") auto
  show "pending (sched_retry k p s) < pending s"
    using sum_list_upd [OF assms(1), of "\<lambda>(w, t, pc). case pc of Calling \<Rightarrow> 1 | WaitNew \<Rightarrow> 2"
        "(sd_offers s ! p, i, Calling)"] e
    by (simp add: pending_def sched_retry_def)
  show "has_worker (sched_retry k p s)" using e by (simp add: has_worker_def sched_retry_def)
qed

lemma pending_dispatch:
  assumes "sd_next s < sd_ntasks s"
  shows "pending (sched_dispatch p s) < pending s" "has_worker (sched_dispatch p s)"
  using assms by (auto simp: pending_def has_worker_def sched_dispatch_def)

lemma sched_progress:
  assumes "sinv phase mr s" and "has_worker s"
  shows "(\<exists>k<length (sd_execs s). snd (snd (sd_execs s ! k)) = Calling) \<or>
    (\<exists>k<length (sd_execs s). snd (snd (sd_execs s ! k)) = WaitNew \<and> sd_offers s \<noteq> []) \<or>
    sd_execs s = [] \<and> sd_next s < sd_ntasks s \<and> sd_offers s \<noteq> [] \<or>
    sd_execs s = [] \<and> sd_next s = sd_ntasks s"
proof (cases "sd_execs s = []")
  case True
  moreover have "sd_next s \<le> sd_ntasks s" using assms(1) by (simp add: sinv_def)
  moreover have "sd_offers s \<noteq> []" using True assms(2) by (simp add: has_worker_def)
  ultimately show ?thesis by auto
next
  case False
  then have z: "0 < length (sd_execs s)" by simp
  show ?thesis
  proof (cases "snd (snd (sd_execs s ! 0))")
    case Calling
    with z show ?thesis by blast
  next
    case WaitNew
    show ?thesis
    proof (cases "sd_offers s = []")
      case True
      then obtain e where "e \<in> set (sd_execs s)" "snd (snd e) = Calling"
        using assms(2) by (force simp: has_worker_def)
      then show ?thesis by (metis in_set_conv_nth)
    next
      case False
      with z WaitNew show ?thesis by blast
    qed
  qed
qed

text \<open>From every state in which some worker is idle or executing, the phase can complete
  without further registrations: it does when no more calls fail.\<close>

lemma can_return:
  assumes "sinv phase mr s" and "schedule_ntasks phase mr \<le> int (length (files mr))"
    and "has_worker s" and "\<not> sd_returned s"
  shows "\<exists>t. (sched_step phase mr)\<^sup>*\<^sup>* s t \<and> sd_returned t"
  using assms
proof (induction "pending s" arbitrary: s rule: less_induct)
  case less
  have next_step: ?case if "sched_step phase mr s t" "pending t < pending s" "has_worker t" "\<not> sd_returned t" for t
    using less.hyps [OF that(2) sinv_step [OF less.prems(1) that(1)] less.prems(2) that(3,4)] that(1)
    by (meson converse_rtranclp_into_rtranclp)
  from sched_progress [OF less.prems(1,3)] consider
      k where "k < length (sd_execs s)" "snd (snd (sd_execs s ! k)) = Calling"
    | k where "k < length (sd_execs s)" "snd (snd (sd_execs s ! k)) = WaitNew" "sd_offers s \<noteq> []"
    | "sd_execs s = []" "sd_next s < sd_ntasks s" "sd_offers s \<noteq> []"
    | "sd_execs s = []" "sd_next s = sd_ntasks s" by blast
  then show ?case
  proof cases
    case 1
    obtain t where t: "sched_call phase mr k True s = Inr t"
      using sched_call_ok [OF less.prems(1,2) 1(1)] by blast
    show ?thesis
      using next_step [OF sched_step.Call [OF 1 t]] pending_call [OF 1 t] less.prems(4) by blast
  next
    case 2
    then have p: "0 < length (sd_offers s)" by simp
    show ?thesis
      using next_step [OF sched_step.Retry [OF 2(1,2) p]] pending_retry [OF 2(1,2) p] less.prems(4)
      by (auto simp: sched_retry_def split: prod.splits)
  next
    case 3
    then have p: "0 < length (sd_offers s)" by simp
    show ?thesis
      using next_step [OF sched_step.Dispatch [OF 3(2) p]] pending_dispatch [OF 3(2)] less.prems(4)
      by (auto simp: sched_dispatch_def)
  next
    case 4
    then have "sd_wg s = 0" using sinv_sizes [OF less.prems(1)] less.prems(1) by (auto simp: sinv_def)
    then have "sched_step phase mr s (s\<lparr>sd_returned := True\<rparr>)"
      using 4 by (intro sched_step.Return)
    then show ?thesis by (intro exI [of _ "s\<lparr>sd_returned := True\<rparr>"]) auto
  qed
qed

end
