(* ===== verification/MR_Rpc.thy ===== *)
theory MR_Rpc
  imports MR_Schedule "HOL-Library.Multiset"
begin

text \<open>
  The RPC servers of MapReduce: the loop of \<open>RunWorker\<close> (\<^verbatim>\<open>src/mapreduce/worker.go\<close>) with the
  goroutines that serve its connections, and the registration server of the master
  (\<^verbatim>\<open>src/mapreduce/master_rpc.go\<close>). The function \<open>call\<close> of \<^verbatim>\<open>common_rpc.go\<close> opens a connection for each
  request, so a connection is the request it carries. What a task does to the files is the subject
  of \<open>MR_Correct\<close>.
\<close>

section \<open>The worker\<close>

datatype wk_req = TaskReq DoTaskArgs | StopReq

datatype wk_pc = Top | Counting | Exited

text \<open>Two histories are kept: the connections accepted, and for each \<open>Shutdown\<close> served the number
  it reported together with the number of connections accepted by then.\<close>

record wk_run =
  wr_wk :: Worker
  wr_pc :: wk_pc
  wr_serving :: "wk_req list"
  wr_accepted :: "wk_req list"
  wr_replies :: "(int \<times> nat) list"

text \<open>The call of \<open>Master.Register\<close>; a failure is only printed. \<open>call\<close> changes the world \<open>'w\<close>
  that the worker is in.\<close>

definition wk_register ::
  "(string \<Rightarrow> string \<Rightarrow> RegisterArgs \<Rightarrow> 'w \<Rightarrow> unit option \<times> 'w) \<Rightarrow> string \<Rightarrow> Worker \<Rightarrow> 'w \<Rightarrow> 'w" where
  "wk_register call master wk w = snd (call master ''Master.Register'' \<lparr>RA_Worker = wk_name wk\<rparr> w)"

definition RunWorker ::
  "(string \<Rightarrow> bool) \<Rightarrow> (string \<Rightarrow> string \<Rightarrow> RegisterArgs \<Rightarrow> 'w \<Rightarrow> unit option \<times> 'w) \<Rightarrow> string \<Rightarrow> string \<Rightarrow>
   (string \<Rightarrow> string \<Rightarrow> KeyValue list) \<Rightarrow> (string \<Rightarrow> string list \<Rightarrow> string go) \<Rightarrow> int \<Rightarrow> 'w \<Rightarrow> (wk_run \<times> 'w) go" where
  "RunWorker listen call MasterAddress me mapF reduceF n w =
     (let wk = newWorker me mapF reduceF n in
      if listen me
      then Inr (\<lparr>wr_wk = wk, wr_pc = Top, wr_serving = [], wr_accepted = [], wr_replies = []\<rparr>,
                wk_register call MasterAddress wk w)
      else Inl (LogFatal ''RunWorker: worker ''))"

definition wk_accept :: "wk_req \<Rightarrow> wk_run \<Rightarrow> wk_run" where
  "wk_accept r s =
     (case RunWorker_accept True (wr_wk s) of
        None \<Rightarrow> s\<lparr>wr_pc := Exited\<rparr>
      | Some wk \<Rightarrow> s\<lparr>wr_wk := wk, wr_pc := Counting, wr_serving := wr_serving s @ [r],
                    wr_accepted := wr_accepted s @ [r]\<rparr>)"

definition wk_count :: "wk_run \<Rightarrow> wk_run" where
  "wk_count s = s\<lparr>wr_wk := RunWorker_count (wr_wk s), wr_pc := Top\<rparr>"

definition wk_serve :: "nat \<Rightarrow> wk_run \<Rightarrow> wk_run" where
  "wk_serve k s =
     (let s' = s\<lparr>wr_serving := remove_nth k (wr_serving s)\<rparr> in
      case wr_serving s ! k of
        TaskReq a \<Rightarrow> s'
      | StopReq \<Rightarrow> (case Shutdown (wr_wk s) of (wk, res) \<Rightarrow>
          s'\<lparr>wr_wk := wk, wr_replies := wr_replies s @ [(Ntasks res, length (wr_accepted s))]\<rparr>))"

inductive wk_step :: "wk_run \<Rightarrow> wk_run \<Rightarrow> bool" where
  Accept: "wr_pc s = Top \<Longrightarrow> wk_step s (wk_accept r s)"
| AcceptError: "wr_pc s = Top \<Longrightarrow> wk_step s (s\<lparr>wr_pc := Exited\<rparr>)"
| Count: "wr_pc s = Counting \<Longrightarrow> wk_step s (wk_count s)"
| Serve: "k < length (wr_serving s) \<Longrightarrow> wk_step s (wk_serve k s)"

definition wk_start :: "int \<Rightarrow> wk_run \<Rightarrow> bool" where
  "wk_start n s \<longleftrightarrow> (\<exists>listen call master me mapF reduceF. RunWorker listen call master me mapF reduceF n () = Inr (s, ()))"

abbreviation stops :: "wk_req list \<Rightarrow> nat" where
  "stops rs \<equiv> length (filter (\<lambda>r. r = StopReq) rs)"

text \<open>The invariant: \<open>nTasks\<close> counts the connections, less the one that the loop has yet to
  count and less the \<open>Shutdown\<close>s served; \<open>nRPC\<close> is what is left of the budget, which the last
  \<open>Shutdown\<close> has set to one.\<close>

definition wk_inv :: "int \<Rightarrow> wk_run \<Rightarrow> bool" where
  "wk_inv n s \<longleftrightarrow>
     nTasks (wr_wk s) + int (length (wr_replies s)) + (if wr_pc s = Counting then 1 else 0) = int (length (wr_accepted s)) \<and>
     stops (wr_accepted s) = stops (wr_serving s) + length (wr_replies s) \<and>
     (\<forall>i<length (wr_replies s). case wr_replies s ! i of (v, a) \<Rightarrow> a \<le> length (wr_accepted s) \<and>
        Suc i \<le> stops (take a (wr_accepted s)) \<and>
        (v = int a - int i \<or> v = int a - int i - 1)) \<and>
     nRPC (wr_wk s) = (if wr_replies s = [] then n - int (length (wr_accepted s))
        else 1 - (int (length (wr_accepted s)) - int (snd (last (wr_replies s))))) \<and>
     (0 \<le> n \<or> wr_replies s \<noteq> [] \<longrightarrow> 0 \<le> nRPC (wr_wk s))"

lemma stops_remove:
  assumes "k < length rs"
  shows "stops rs = stops (remove_nth k rs) + (if rs ! k = StopReq then 1 else 0)"
proof -
  have "stops rs = stops (take k rs @ rs ! k # drop (Suc k) rs)"
    by (simp only: id_take_nth_drop [OF assms, symmetric])
  then show ?thesis by (simp add: remove_nth_def)
qed

lemma wk_inv_start: "wk_start n s \<Longrightarrow> wk_inv n s"
  by (auto simp: wk_start_def RunWorker_def wk_inv_def newWorker_def Let_def split: if_splits)

lemma wk_inv_step:
  assumes inv: "wk_inv n s" and st: "wk_step s t"
  shows "wk_inv n t"
  using st
proof (cases rule: wk_step.cases)
  case (Accept r)
  then show ?thesis
    using inv by (auto simp: wk_accept_def RunWorker_accept_def wk_inv_def split: if_splits)
next
  case AcceptError
  then show ?thesis using inv by (auto simp: wk_inv_def)
next
  case Count
  then show ?thesis using inv by (auto simp: wk_count_def RunWorker_count_def wk_inv_def)
next
  case (Serve k)
  then show ?thesis
  proof (cases "wr_serving s ! k")
    case (TaskReq a)
    then show ?thesis using inv Serve stops_remove [of k "wr_serving s"] by (auto simp: wk_serve_def wk_inv_def)
  next
    case StopReq
    then show ?thesis using inv Serve stops_remove [of k "wr_serving s"]
      by (cases "wr_pc s = Counting") (auto simp: wk_serve_def wk_inv_def Shutdown_def nth_append less_Suc_eq)
  qed
qed

interpretation wk_runs: inductive_invariant "wk_start n" wk_step "wk_inv n" for n
  by unfold_locales (rule wk_inv_start, assumption, rule wk_inv_step)

text \<open>What a worker reports when a single \<open>Shutdown\<close> was sent: the tasks accepted by then, or one
  more when the loop has counted the connection of the \<open>Shutdown\<close> itself before it is served.\<close>

lemma wk_report:
  assumes inv: "wk_inv n s" and one: "stops (wr_accepted s) = 1" and rep: "wr_replies s = (v, a) # rest"
  shows "rest = []" "stops (take a (wr_accepted s)) = 1"
    "int (a - 1) \<le> v" "v \<le> int (a - 1) + 1" "length (wr_accepted s) \<le> a + 1" "0 < a"
proof -
  have "length (wr_replies s) \<le> 1" using inv one unfolding wk_inv_def by linarith
  then show r: "rest = []" using rep by simp
  have i: "a \<le> length (wr_accepted s)" "Suc 0 \<le> stops (take a (wr_accepted s))" "v = int a \<or> v = int a - 1"
    "0 \<le> nRPC (wr_wk s)" "nRPC (wr_wk s) = 1 - (int (length (wr_accepted s)) - int a)"
    using inv unfolding wk_inv_def by (auto simp: rep r)
  have "stops (wr_accepted s) = stops (take a (wr_accepted s)) + stops (drop a (wr_accepted s))"
    by (metis append_take_drop_id filter_append length_append)
  with i(2) one show "stops (take a (wr_accepted s)) = 1" by simp
  from i(2) show "0 < a" by (cases a) simp_all
  then show "int (a - 1) \<le> v" "v \<le> int (a - 1) + 1" using i(3) by auto
  show "length (wr_accepted s) \<le> a + 1" using i(4,5) by linarith
qed

lemma wk_budget:
  assumes "wk_inv n s" and "0 \<le> n" and "wr_replies s = []"
  shows "int (length (wr_accepted s)) \<le> n"
  using assms by (auto simp: wk_inv_def)

section \<open>The registration server of the master\<close>

datatype mr_req = RegisterReq RegisterArgs | ShutdownReq

datatype mr_pc = Select | Accepting | Done

record mr_rpc =
  mp_mr :: Master
  mp_l :: bool
  mp_pc :: mr_pc
  mp_serving :: "mr_req list"
  mp_accepted :: "mr_req list"

definition startRPCServer :: "(string \<Rightarrow> bool) \<Rightarrow> Master \<Rightarrow> mr_rpc go" where
  "startRPCServer listen mr =
     (if listen (address mr)
      then Inr \<lparr>mp_mr = mr, mp_l = True, mp_pc = Select, mp_serving = [], mp_accepted = []\<rparr>
      else Inl (LogFatal ''RegstrationServer''))"

definition rpc_select :: "mr_rpc \<Rightarrow> mr_rpc" where
  "rpc_select s = s\<lparr>mp_pc := if shutdown_closed (mp_mr s) then Done else Accepting\<rparr>"

text \<open>\<open>Accept\<close> fails when the listener is closed (and may fail otherwise); the loop then ends.\<close>

definition rpc_accept :: "mr_req option \<Rightarrow> mr_rpc \<Rightarrow> mr_rpc" where
  "rpc_accept conn s =
     (case conn of
        Some r \<Rightarrow> s\<lparr>mp_pc := Select, mp_serving := mp_serving s @ [r], mp_accepted := mp_accepted s @ [r]\<rparr>
      | None \<Rightarrow> s\<lparr>mp_pc := Done\<rparr>)"

definition rpc_serve :: "nat \<Rightarrow> mr_rpc \<Rightarrow> mr_rpc go" where
  "rpc_serve k s =
     (let s' = s\<lparr>mp_serving := remove_nth k (mp_serving s)\<rparr> in
      case mp_serving s ! k of
        RegisterReq args \<Rightarrow> Inr (s'\<lparr>mp_mr := Register args (mp_mr s)\<rparr>)
      | ShutdownReq \<Rightarrow> gbind (master_Shutdown (mp_mr s)) (\<lambda>mr. Inr (s'\<lparr>mp_mr := mr, mp_l := False\<rparr>)))"

inductive rpc_step :: "mr_rpc \<Rightarrow> mr_rpc \<Rightarrow> bool" where
  Select: "mp_pc s = Select \<Longrightarrow> rpc_step s (rpc_select s)"
| Accept: "mp_pc s = Accepting \<Longrightarrow> mp_l s \<or> conn = None \<Longrightarrow> rpc_step s (rpc_accept conn s)"
| Serve: "k < length (mp_serving s) \<Longrightarrow> rpc_serve k s = Inr t \<Longrightarrow> rpc_step s t"

definition rpc_start :: "string \<Rightarrow> mr_rpc \<Rightarrow> bool" where
  "rpc_start master s \<longleftrightarrow> (\<exists>listen. startRPCServer listen (newMaster master) = Inr s)"

abbreviation shutdowns :: "mr_req list \<Rightarrow> nat" where
  "shutdowns rs \<equiv> length (filter (\<lambda>r. r = ShutdownReq) rs)"

text \<open>The workers are those whose registration has been served, and the listener is open until
  a \<open>Shutdown\<close> has been served.\<close>

definition registered :: "mr_req list \<Rightarrow> string multiset" where
  "registered rs = mset (concat (map (\<lambda>r. case r of RegisterReq a \<Rightarrow> [RA_Worker a] | ShutdownReq \<Rightarrow> []) rs))"

definition rpc_inv :: "mr_rpc \<Rightarrow> bool" where
  "rpc_inv s \<longleftrightarrow>
     shutdowns (mp_accepted s) = shutdowns (mp_serving s) + (if shutdown_closed (mp_mr s) then 1 else 0) \<and>
     registered (mp_accepted s) = registered (mp_serving s) + mset (workers (mp_mr s)) \<and>
     mp_l s = (\<not> shutdown_closed (mp_mr s))"

lemma registered_append: "registered (xs @ ys) = registered xs + registered ys"
  by (simp add: registered_def)

lemma registered_remove:
  assumes "k < length rs"
  shows "registered rs = registered [rs ! k] + registered (remove_nth k rs)"
proof -
  have "registered rs = registered (take k rs @ rs ! k # drop (Suc k) rs)"
    by (simp only: id_take_nth_drop [OF assms, symmetric])
  then show ?thesis by (simp add: remove_nth_def registered_def)
qed

lemma shutdowns_remove:
  assumes "k < length rs"
  shows "shutdowns rs = shutdowns (remove_nth k rs) + (if rs ! k = ShutdownReq then 1 else 0)"
proof -
  have "shutdowns rs = shutdowns (take k rs @ rs ! k # drop (Suc k) rs)"
    by (simp only: id_take_nth_drop [OF assms, symmetric])
  then show ?thesis by (simp add: remove_nth_def)
qed

lemma rpc_inv_step:
  assumes inv: "rpc_inv s" and st: "rpc_step s t"
  shows "rpc_inv t"
  using st
proof (cases rule: rpc_step.cases)
  case Select
  then show ?thesis using inv by (simp add: rpc_select_def rpc_inv_def)
next
  case (Accept conn)
  then show ?thesis using inv by (auto simp: rpc_accept_def rpc_inv_def registered_append split: option.split)
next
  case (Serve k)
  note rem = registered_remove [OF Serve(1)] shutdowns_remove [OF Serve(1)]
  show ?thesis
  proof (cases "mp_serving s ! k")
    case (RegisterReq args)
    moreover have "registered [RegisterReq args] = {#RA_Worker args#}" by (simp add: registered_def)
    ultimately show ?thesis using inv Serve(2) rem
      by (auto simp: rpc_serve_def rpc_inv_def Register_def)
  next
    case ShutdownReq
    moreover have "registered [ShutdownReq] = {#}" by (simp add: registered_def)
    ultimately show ?thesis using inv Serve(2) rem
      by (auto simp: rpc_serve_def rpc_inv_def master_Shutdown_def split: if_splits)
  qed
qed

lemma rpc_inv_start: "rpc_start master s \<Longrightarrow> rpc_inv s"
  by (auto simp: rpc_start_def startRPCServer_def newMaster_def rpc_inv_def registered_def split: if_splits)

interpretation rpc_runs: inductive_invariant "rpc_start master" rpc_step rpc_inv for master
  by unfold_locales (rule rpc_inv_start, assumption, rule rpc_inv_step)

text \<open>With one \<open>Shutdown\<close>, which is what \<open>stopRPCServer\<close> sends, serving never closes the channel
  twice, and afterwards no connection is accepted.\<close>

lemma rpc_serve_no_panic:
  assumes "rpc_inv s" and "shutdowns (mp_accepted s) \<le> 1" and "k < length (mp_serving s)"
  shows "\<exists>t. rpc_serve k s = Inr t"
  using assms shutdowns_remove [OF assms(3)]
  by (cases "mp_serving s ! k") (auto simp: rpc_serve_def master_Shutdown_def rpc_inv_def split: if_splits)

lemma rpc_closed_stays:
  assumes "rpc_inv s" and "\<not> mp_l s" and "rpc_step\<^sup>*\<^sup>* s t"
  shows "mp_accepted t = mp_accepted s"
proof -
  have "rpc_inv t \<and> \<not> mp_l t \<and> mp_accepted t = mp_accepted s"
    using assms(3)
  proof (induction rule: rtranclp_induct)
    case base
    then show ?case using assms by simp
  next
    case (step t u)
    from rpc_inv_step [OF _ step.hyps(2)] step.IH have "rpc_inv u" by blast
    moreover from step.hyps(2) step.IH have "\<not> mp_l u \<and> mp_accepted u = mp_accepted s"
      by (cases rule: rpc_step.cases) (auto simp: rpc_select_def rpc_accept_def rpc_serve_def master_Shutdown_def Let_def
          split: mr_req.splits if_splits)
    ultimately show ?case by blast
  qed
  then show ?thesis by blast
qed

text \<open>The loop ends once the channel is closed: from \<open>Select\<close> and from \<open>Accept\<close> alike its next
  section is its last.\<close>

lemma rpc_loop_ends:
  assumes "rpc_inv s" and "shutdown_closed (mp_mr s)" and "mp_pc s \<noteq> Done"
  shows "\<exists>t. rpc_step s t \<and> mp_pc t = Done"
proof (cases "mp_pc s")
  case Select
  then show ?thesis using assms(2) rpc_step.Select [of s] by (auto simp: rpc_select_def)
next
  case Accepting
  then show ?thesis using rpc_step.Accept [of s None] by (auto simp: rpc_accept_def)
qed (use assms(3) in simp)

end
