(* ===== verification/MR_Termination.thy ===== *)
theory MR_Termination
  imports MR_Schedule
begin

text \<open>
  Termination of the distributed scheduler: the steps of a phase are bounded by its tasks, the
  calls that fail and the workers that register (an interpretation of \<open>bounded_runs\<close>), and a
  phase that cannot take another step has returned unless every worker is held by an attempt
  whose call failed.
\<close>

section \<open>Bounded runs\<close>

text \<open>What an event pays: a new worker one step, a failed call the step itself and the retry it
  makes necessary.\<close>

fun sched_pay :: "sched_event \<Rightarrow> nat" where
  "sched_pay (SRegister w) = 1"
| "sched_pay (SCall k ok) = (if ok then 0 else 2)"
| "sched_pay e = 0"

definition sched_pot :: "sched \<Rightarrow> nat" where
  "sched_pot s = pending s + (if sd_returned s then 0 else 1)"

fun is_failure :: "sched_event \<Rightarrow> bool" where
  "is_failure (SCall k ok) = (\<not> ok)"
| "is_failure e = False"

fun is_register :: "sched_event \<Rightarrow> bool" where
  "is_register (SRegister w) = True"
| "is_register e = False"

abbreviation failures :: "sched_event list \<Rightarrow> nat" where
  "failures es \<equiv> length (filter is_failure es)"

abbreviation registrations :: "sched_event list \<Rightarrow> nat" where
  "registrations es \<equiv> length (filter is_register es)"

lemma sum_sched_pay: "sum_list (map sched_pay es) = 2 * failures es + registrations es"
proof (induction es)
  case (Cons e es)
  then show ?case by (cases e) auto
qed simp

lemma pending_call_failed:
  assumes "k < length (sd_execs s)" "snd (snd (sd_execs s ! k)) = Calling"
    "sched_call phase mr k False s = Inr t"
  shows "pending t = Suc (pending s)" "sd_returned t = sd_returned s"
proof -
  obtain w i where e: "sd_execs s ! k = (w, i, Calling)" using assms(2) by (cases "sd_execs s ! k") auto
  with assms(3) have t: "sd_execs t = (sd_execs s)[k := (w, i, WaitNew)]" "sd_ntasks t = sd_ntasks s"
    "sd_next t = sd_next s" and "sd_returned t = sd_returned s"
    by (auto simp: sched_call_def gbind_eq_Inr Let_def split: if_splits)
  then show "sd_returned t = sd_returned s" by simp
  show "pending t = Suc (pending s)"
    using sum_list_upd [OF assms(1), of "\<lambda>(w, t, pc). case pc of Calling \<Rightarrow> 1 | WaitNew \<Rightarrow> 2" "(w, i, WaitNew)"] e
    by (simp add: pending_def t del: One_nat_def)
qed

lemma sched_pot_exec:
  assumes "sched_exec phase mr e s = Inr t" and "t \<noteq> s"
  shows "sched_pot t < sched_pot s + sched_pay e"
proof (cases e)
  case (SRegister w)
  with assms show ?thesis by (auto simp: sched_pot_def pending_def sched_register_def)
next
  case (SDispatch p)
  with assms show ?thesis using pending_dispatch(1) [of s p]
    by (auto simp: sched_pot_def sched_dispatch_def split: if_splits)
next
  case (SCall k ok)
  with assms have c: "k < length (sd_execs s)" "snd (snd (sd_execs s ! k)) = Calling"
    "sched_call phase mr k ok s = Inr t" by (auto split: if_splits)
  show ?thesis
  proof (cases ok)
    case True
    with c have "pending t < pending s" "sd_returned t = sd_returned s"
      using pending_call(1) [OF c(1,2)]
      by (auto simp: sched_call_def gbind_eq_Inr Let_def split: if_splits prod.splits)
    with SCall show ?thesis by (simp add: sched_pot_def)
  next
    case False
    with c SCall pending_call_failed [OF c(1,2)] show ?thesis by (simp add: sched_pot_def)
  qed
next
  case (SRetry k p)
  with assms show ?thesis using pending_retry(1) [of k s p]
    by (auto simp: sched_pot_def sched_retry_def split: if_splits prod.splits)
next
  case SReturn
  with assms show ?thesis by (auto simp: sched_pot_def pending_def split: if_splits)
qed

interpretation sched_runs: bounded_runs "sched_exec phase mr" "sinv phase mr" sched_pot sched_pay
  for phase mr
proof unfold_locales
  show "sinv phase mr t" if "sinv phase mr s" "sched_exec phase mr e s = Inr t" for e s t
    using sched_exec_step [OF that(2)] that(1) sinv_step by auto
qed (rule sched_pot_exec)

section \<open>Workers\<close>

text \<open>Workers are never lost: each is idle or held by one attempt, and the attempts that wait
  are at most as many as the calls that failed.\<close>

definition waiting :: "sched \<Rightarrow> nat" where
  "waiting s = length (filter (\<lambda>(w, t, pc). pc = WaitNew) (sd_execs s))"

lemma length_remove_nth: "k < length xs \<Longrightarrow> Suc (length (remove_nth k xs)) = length xs"
  by (simp add: remove_nth_def)

lemma waiting_sum: "waiting s = sum_list (map (\<lambda>(w, t, pc). if pc = WaitNew then 1 else 0) (sd_execs s))"
proof -
  have "length (filter (\<lambda>(w, t, pc). pc = WaitNew) xs) =
      sum_list (map (\<lambda>(w, t, pc). if pc = WaitNew then 1 else 0) xs)" for xs :: "(string \<times> nat \<times> exec_pc) list"
    by (induction xs) auto
  then show ?thesis by (simp add: waiting_def)
qed

lemma exec_accounts:
  assumes "sched_exec phase mr e s = Inr t"
  shows "length (sd_offers t) + length (sd_execs t) =
      length (sd_offers s) + length (sd_execs s) + (if is_register e then 1 else 0)"
    and "waiting t \<le> waiting s + (if is_failure e then 1 else 0)"
proof -
  have "length (sd_offers t) + length (sd_execs t) =
      length (sd_offers s) + length (sd_execs s) + (if is_register e then 1 else 0) \<and>
    waiting t \<le> waiting s + (if is_failure e then 1 else 0)"
  proof (cases e)
    case (SCall k ok)
    let ?f = "\<lambda>(w :: string, t :: nat, pc). if pc = WaitNew then 1 else 0 :: nat"
    consider "t = s" | "k < length (sd_execs s)" "sched_call phase mr k ok s = Inr t"
      using assms SCall by (auto split: if_splits)
    then show ?thesis
    proof cases
      case 2
      obtain w i pc where x: "sd_execs s ! k = (w, i, pc)" by (cases "sd_execs s ! k")
      show ?thesis
        using 2 x SCall length_remove_nth [OF 2(1)] sum_list_remove_nth [OF 2(1), of ?f]
          sum_list_upd [OF 2(1), of ?f "(w, i, WaitNew)"]
        by (cases ok) (auto simp: sched_call_def waiting_sum gbind_eq_Inr Let_def split: if_splits)
    qed (simp add: SCall)
  next
    case (SRetry k p)
    let ?f = "\<lambda>(w :: string, t :: nat, pc). if pc = WaitNew then 1 else 0 :: nat"
    show ?thesis
    proof (cases "k < length (sd_execs s) \<and> p < length (sd_offers s)")
      case True
      obtain w i pc where x: "sd_execs s ! k = (w, i, pc)" by (cases "sd_execs s ! k")
      have k: "k < length (sd_execs s)" using True by simp
      show ?thesis
        using assms True x SRetry length_remove_nth [of p "sd_offers s"]
          sum_list_upd [OF k, of ?f "(sd_offers s ! p, i, Calling)"]
        by (auto simp: sched_retry_def waiting_sum split: if_splits)
    qed (use assms SRetry in \<open>auto split: if_splits\<close>)
  qed (use assms length_remove_nth in \<open>force simp: sched_register_def sched_dispatch_def waiting_sum
      split: if_splits\<close>)+
  then show "length (sd_offers t) + length (sd_execs t) =
      length (sd_offers s) + length (sd_execs s) + (if is_register e then 1 else 0)"
    and "waiting t \<le> waiting s + (if is_failure e then 1 else 0)" by simp_all
qed

lemma run_accounts:
  assumes "gfold (sched_exec phase mr) es s = Inr t"
  shows "length (sd_offers t) + length (sd_execs t) = length (sd_offers s) + length (sd_execs s) + registrations es
    \<and> waiting t \<le> waiting s + failures es"
  using assms by (rule gfold_trace_inv) (auto dest: exec_accounts)

lemma few_waiting_has_worker:
  assumes "waiting s < length (sd_offers s) + length (sd_execs s)"
  shows "has_worker s"
proof (rule ccontr)
  assume "\<not> has_worker s"
  then have o: "sd_offers s = []" and all: "\<forall>x\<in>set (sd_execs s). snd (snd x) \<noteq> Calling"
    by (auto simp: has_worker_def)
  have "pc = WaitNew" if "pc \<noteq> Calling" for pc using that by (cases pc) auto
  with all have "filter (\<lambda>(w, t, pc). pc = WaitNew) (sd_execs s) = sd_execs s"
    by (intro filter_True) (auto simp: case_prod_beta)
  with assms o show False by (simp add: waiting_def)
qed

section \<open>Where a phase stops\<close>

definition quiescent :: "jobPhase \<Rightarrow> Master \<Rightarrow> sched \<Rightarrow> bool" where
  "quiescent phase mr s \<longleftrightarrow> (\<forall>e. is_register e \<or> sched_exec phase mr e s = Inr s)"

text \<open>A phase that cannot go on has returned, as long as some worker is not lost to a failed
  call.\<close>

lemma quiescent_returned:
  assumes inv: "sinv phase mr s" and files: "schedule_ntasks phase mr \<le> int (length (files mr))"
    and "has_worker s" and q: "quiescent phase mr s"
  shows "sd_returned s"
proof -
  have q: "\<not> is_register e \<Longrightarrow> sched_exec phase mr e s = Inr s" for e using q by (auto simp: quiescent_def)
  from sched_progress [OF inv assms(3)] show ?thesis
  proof (elim disjE exE conjE)
    fix k assume k: "k < length (sd_execs s)" "snd (snd (sd_execs s ! k)) = Calling"
    then obtain t where t: "sched_call phase mr k True s = Inr t" using sched_call_ok [OF inv files] by blast
    with q [of "SCall k True"] k have "t = s" by simp
    with pending_call(1) [OF k t] show ?thesis by simp
  next
    fix k assume k: "k < length (sd_execs s)" "snd (snd (sd_execs s ! k)) = WaitNew" "sd_offers s \<noteq> []"
    with q [of "SRetry k 0"] have "sched_retry k 0 s = s" by simp
    with pending_retry(1) [of k s 0] k show ?thesis by simp
  next
    assume d: "sd_next s < sd_ntasks s" "sd_offers s \<noteq> []"
    with q [of "SDispatch 0"] have "sched_dispatch 0 s = s" by simp
    with pending_dispatch(1) [OF d(1), of 0] show ?thesis by simp
  next
    assume e: "sd_execs s = []" "sd_next s = sd_ntasks s"
    then have "sd_wg s = 0" using sinv_sizes [OF inv] inv by (auto simp: sinv_def)
    with e q [of SReturn] have "s\<lparr>sd_returned := True\<rparr> = s" by simp
    then show ?thesis by (metis sched.select_convs(7) sched.surjective sched.update_convs(7))
  qed
qed

end
