(* ===== verification/MR_Distributed.thy ===== *)
theory MR_Distributed
  imports MR_Rpc MR_Termination MR_Correct
begin

text \<open>
  A distributed job as a whole (\<open>Distributed\<close> and \<open>run\<close> of \<^verbatim>\<open>src/mapreduce/master.go\<close>): the master's
  registration server, the two phases of the scheduler one after the other on the same
  \<open>registerChannel\<close>, the workers that execute the calls on the shared file system, then
  \<open>killWorkers\<close>, \<open>stopRPCServer\<close> and \<open>merge\<close>. Each call runs its task as a whole, at any moment
  between its start and its return; a call that fails may have run its task, may run it at any
  later moment (the worker only seems dead to the master), or may never run it.
\<close>

section \<open>The system\<close>

datatype job_pc = InPhase jobPhase | Killing | Stopping | Merging | Finished

record dist =
  ds_mr :: Master
  ds_pc :: job_pc
  ds_sched :: sched
  ds_ran :: "bool list"
  ds_late :: "(string \<times> DoTaskArgs) list"
  ds_fs :: fsys

datatype dist_event =
    DRegister RegisterArgs
  | DDispatch nat
  | DExec nat
  | DCall nat bool
  | DRetry nat nat
  | DLate nat
  | DReturn
  | DNext
  | DKill "string \<Rightarrow> int option"
  | DStop bool
  | DMerge

text \<open>The scheduler and the master share the channel.\<close>

definition set_sched :: "sched \<Rightarrow> dist \<Rightarrow> dist" where
  "set_sched s d = d\<lparr>ds_sched := s, ds_mr := (ds_mr d)\<lparr>registerChannel := sd_offers s\<rparr>\<rparr>"

definition Distributed :: "(string \<Rightarrow> bool) \<Rightarrow> string \<Rightarrow> string list \<Rightarrow> int \<Rightarrow> string \<Rightarrow> fsys \<Rightarrow> dist go" where
  "Distributed listen job fls nreduce master fs =
     gbind (startRPCServer listen (newMaster master)) (\<lambda>srv.
     let mr = (mp_mr srv)\<lparr>jobName := job, files := fls, nReduce := nreduce\<rparr> in
     gbind (schedule_start mapPhase mr) (\<lambda>s.
     Inr \<lparr>ds_mr = mr, ds_pc = InPhase mapPhase, ds_sched = s, ds_ran = [], ds_late = [], ds_fs = fs\<rparr>))"

text \<open>Attempt \<open>k\<close> is a call that has not returned.\<close>

definition calling :: "nat \<Rightarrow> dist \<Rightarrow> bool" where
  "calling k d \<longleftrightarrow> k < length (sd_execs (ds_sched d)) \<and> snd (snd (sd_execs (ds_sched d) ! k)) = Calling"

text \<open>The worker of attempt \<open>k\<close> runs the task.\<close>

definition dist_run :: "(string \<Rightarrow> Worker) \<Rightarrow> jobPhase \<Rightarrow> nat \<Rightarrow> dist \<Rightarrow> dist go" where
  "dist_run wks ph k d =
     (case sd_execs (ds_sched d) ! k of (w, t, pc) \<Rightarrow>
      gbind (execute_args ph (ds_mr d) t) (\<lambda>a.
      gbind (DoTask a (wks w) (ds_fs d)) (\<lambda>fs.
      Inr (d\<lparr>ds_fs := fs, ds_ran := (ds_ran d)[k := True]\<rparr>))))"

text \<open>The call of attempt \<open>k\<close> returns. When it fails before its task has run, the request may
  still be on its way.\<close>

definition dist_call :: "jobPhase \<Rightarrow> nat \<Rightarrow> bool \<Rightarrow> dist \<Rightarrow> dist go" where
  "dist_call ph k ok d =
     (case sd_execs (ds_sched d) ! k of (w, t, pc) \<Rightarrow>
      gbind (execute_args ph (ds_mr d) t) (\<lambda>a.
      gbind (sched_call ph (ds_mr d) k ok (ds_sched d)) (\<lambda>s.
      Inr (set_sched s (d\<lparr>ds_ran := if ok then remove_nth k (ds_ran d) else ds_ran d,
                          ds_late := if ok \<or> ds_ran d ! k then ds_late d else ds_late d @ [(w, a)]\<rparr>)))))"

definition dist_late :: "(string \<Rightarrow> Worker) \<Rightarrow> nat \<Rightarrow> dist \<Rightarrow> dist go" where
  "dist_late wks j d =
     (case ds_late d ! j of (w, a) \<Rightarrow>
      gbind (DoTask a (wks w) (ds_fs d)) (\<lambda>fs. Inr (d\<lparr>ds_fs := fs, ds_late := remove_nth j (ds_late d)\<rparr>)))"

text \<open>\<open>schedule\<close> has returned from a phase, and \<open>run\<close> goes on.\<close>

definition dist_next :: "jobPhase \<Rightarrow> dist \<Rightarrow> dist go" where
  "dist_next ph d =
     (case ph of
        mapPhase \<Rightarrow> gbind (schedule_start reducePhase (ds_mr d)) (\<lambda>s.
          Inr (set_sched s (d\<lparr>ds_pc := InPhase reducePhase, ds_ran := []\<rparr>)))
      | reducePhase \<Rightarrow> Inr (d\<lparr>ds_pc := Killing\<rparr>))"

definition dist_kill :: "(string \<Rightarrow> int option) \<Rightarrow> dist \<Rightarrow> dist" where
  "dist_kill rep d = d\<lparr>ds_mr := (ds_mr d)\<lparr>stats := killWorkers rep (ds_mr d)\<rparr>, ds_pc := Stopping\<rparr>"

definition stopRPCServer :: "bool \<Rightarrow> dist \<Rightarrow> dist go" where
  "stopRPCServer ok d =
     (if ok then gbind (master_Shutdown (ds_mr d)) (\<lambda>mr. Inr (d\<lparr>ds_mr := mr, ds_pc := Merging\<rparr>))
      else Inr (d\<lparr>ds_pc := Merging\<rparr>))"

definition dist_merge :: "dist \<Rightarrow> dist go" where
  "dist_merge d =
     gbind (merge (ds_mr d) (ds_fs d)) (\<lambda>fs.
     Inr (d\<lparr>ds_fs := fs, ds_mr := (ds_mr d)\<lparr>doneChannel := doneChannel (ds_mr d) @ [True]\<rparr>, ds_pc := Finished\<rparr>))"

definition Wait :: "Master \<Rightarrow> Master go" where
  "Wait mr = (case doneChannel mr of [] \<Rightarrow> Inl Blocked | _ # rest \<Rightarrow> Inr (mr\<lparr>doneChannel := rest\<rparr>))"

definition in_phase :: "(jobPhase \<Rightarrow> dist go) \<Rightarrow> dist \<Rightarrow> dist go" where
  "in_phase f d = (case ds_pc d of InPhase ph \<Rightarrow> f ph | _ \<Rightarrow> Inr d)"

fun dist_exec :: "(string \<Rightarrow> Worker) \<Rightarrow> dist_event \<Rightarrow> dist \<Rightarrow> dist go" where
  "dist_exec wks (DRegister args) d =
     Inr (if shutdown_closed (ds_mr d) then d
          else set_sched (sched_register (RA_Worker args) (ds_sched d)) (d\<lparr>ds_mr := Register args (ds_mr d)\<rparr>))"
| "dist_exec wks (DDispatch p) d = in_phase (\<lambda>ph.
     Inr (if sd_next (ds_sched d) < sd_ntasks (ds_sched d) \<and> p < length (sd_offers (ds_sched d))
          then set_sched (sched_dispatch p (ds_sched d)) (d\<lparr>ds_ran := ds_ran d @ [False]\<rparr>) else d)) d"
| "dist_exec wks (DExec k) d = in_phase (\<lambda>ph.
     if calling k d \<and> \<not> ds_ran d ! k then dist_run wks ph k d else Inr d) d"
| "dist_exec wks (DCall k ok) d = in_phase (\<lambda>ph.
     if calling k d \<and> (ok \<longrightarrow> ds_ran d ! k) then dist_call ph k ok d else Inr d) d"
| "dist_exec wks (DRetry k p) d = in_phase (\<lambda>ph.
     Inr (if k < length (sd_execs (ds_sched d)) \<and> snd (snd (sd_execs (ds_sched d) ! k)) = WaitNew \<and>
            p < length (sd_offers (ds_sched d))
          then set_sched (sched_retry k p (ds_sched d)) (d\<lparr>ds_ran := (ds_ran d)[k := False]\<rparr>) else d)) d"
| "dist_exec wks (DLate j) d = (if j < length (ds_late d) then dist_late wks j d else Inr d)"
| "dist_exec wks DReturn d = in_phase (\<lambda>ph.
     gbind (sched_exec ph (ds_mr d) SReturn (ds_sched d)) (\<lambda>s. Inr (set_sched s d))) d"
| "dist_exec wks DNext d = in_phase (\<lambda>ph. if sd_returned (ds_sched d) then dist_next ph d else Inr d) d"
| "dist_exec wks (DKill rep) d = Inr (if ds_pc d = Killing then dist_kill rep d else d)"
| "dist_exec wks (DStop ok) d = (if ds_pc d = Stopping then stopRPCServer ok d else Inr d)"
| "dist_exec wks DMerge d = (if ds_pc d = Merging then dist_merge d else Inr d)"

section \<open>What the tasks of a job do to the files\<close>

text \<open>The parameters of a job: the functions its workers run (\<open>j_red\<close> is the value \<open>j_reduce\<close>
  returns) and the file system it starts on.\<close>

record jspec =
  j_job :: string
  j_fls :: "string list"
  j_n :: int
  j_map :: "string \<Rightarrow> string \<Rightarrow> KeyValue list"
  j_reduce :: "string \<Rightarrow> string list \<Rightarrow> string go"
  j_red :: "string \<Rightarrow> string list \<Rightarrow> string"
  j_fs :: fsys

abbreviation j_all :: "jspec \<Rightarrow> KeyValue list" where
  "j_all J \<equiv> all_pairs (j_map J) (j_fs J) (j_fls J)"

abbreviation j_out :: "jspec \<Rightarrow> string" where
  "j_out J \<equiv> ''mrtmp.'' @ j_job J"

definition inputs_apart :: "string \<Rightarrow> string list \<Rightarrow> bool" where
  "inputs_apart job fls \<longleftrightarrow> (\<forall>f\<in>set fls. f \<noteq> ''mrtmp.'' @ job \<and> (\<forall>r. f \<noteq> mergeName job r))"

definition jspec_ok :: "(string \<Rightarrow> Worker) \<Rightarrow> jspec \<Rightarrow> bool" where
  "jspec_ok wks J \<longleftrightarrow> job_ok (j_job J) (j_fls J) (j_n J) (j_fs J) \<and> inputs_apart (j_job J) (j_fls J) \<and>
     j_n J \<le> int (length (j_fls J)) \<and> returns (j_reduce J) (j_red J) (j_all J) \<and>
     (\<forall>w. wk_Map (wks w) = j_map J \<and> wk_Reduce (wks w) = j_reduce J)"

fun task_of :: "jspec \<Rightarrow> DoTaskArgs \<Rightarrow> bool" where
  "task_of J a \<longleftrightarrow> JobName a = j_job J \<and>
     (case Phase a of
        mapPhase \<Rightarrow> 0 \<le> TaskNumber a \<and> TaskNumber a < int (length (j_fls J)) \<and>
          File a = j_fls J ! nat (TaskNumber a) \<and> NumOtherPhase a = j_n J
      | reducePhase \<Rightarrow> 0 \<le> TaskNumber a \<and> TaskNumber a < j_n J \<and> NumOtherPhase a = int (length (j_fls J)))"

definition task_done :: "jspec \<Rightarrow> fsys \<Rightarrow> DoTaskArgs \<Rightarrow> bool" where
  "task_done J fs a \<longleftrightarrow>
     (case Phase a of
        mapPhase \<Rightarrow> \<forall>r\<in>{0..<j_n J}. contents fs (reduceName (j_job J) (TaskNumber a) r) =
          Some (concat (map json_encode (part_kvs (j_n J) r (input_pairs (j_map J) (j_fs J) (j_fls J) (nat (TaskNumber a))))))
      | reducePhase \<Rightarrow> contents fs (mergeName (j_job J) (TaskNumber a)) =
          Some (concat (map json_encode (reduced (j_red J) (part_kvs (j_n J) (TaskNumber a) (j_all J))))))"

definition phase_done :: "jspec \<Rightarrow> jobPhase \<Rightarrow> fsys \<Rightarrow> bool" where
  "phase_done J ph fs \<longleftrightarrow> (\<forall>a. task_of J a \<and> Phase a = ph \<longrightarrow> task_done J fs a)"

definition files_ok :: "jspec \<Rightarrow> fsys \<Rightarrow> bool" where
  "files_ok J fs \<longleftrightarrow> creatable fs = creatable (j_fs J) \<and> (\<forall>f\<in>set (j_fls J). contents fs f = contents (j_fs J) f)"

text \<open>What a step of a task leaves of what earlier tasks did.\<close>

definition files_kept :: "jspec \<Rightarrow> fsys \<Rightarrow> fsys \<Rightarrow> bool" where
  "files_kept J fs fs' \<longleftrightarrow> (\<forall>b. task_of J b \<and> task_done J fs b \<longrightarrow> task_done J fs' b) \<and>
     contents fs' (j_out J) = contents fs (j_out J)"

lemma out_not_task_file: "reduceName job m r \<noteq> ''mrtmp.'' @ job" "mergeName job r \<noteq> ''mrtmp.'' @ job"
  by (simp_all add: reduceName_def mergeName_def)

lemma map_task_done:
  assumes ok: "jspec_ok wks J" and f: "files_ok J fs" and a: "task_of J a" "Phase a = mapPhase"
  shows "\<exists>fs'. DoTask a (wks w) fs = Inr fs' \<and> files_ok J fs' \<and> task_done J fs' a \<and> files_kept J fs fs'"
proof -
  let ?m = "TaskNumber a" and ?job = "j_job J" and ?n = "j_n J" and ?fls = "j_fls J"
  have m: "0 \<le> ?m" "nat ?m < length ?fls" "int (nat ?m) = ?m" and n: "0 < ?n" "?n < 2 ^ 32"
    and args: "JobName a = ?job" "File a = ?fls ! nat ?m" "NumOtherPhase a = ?n"
    and jok: "job_ok ?job ?fls ?n (j_fs J)"
    using a ok by (auto simp: jspec_ok_def job_ok_def)
  have inf: "?fls ! nat ?m \<in> set ?fls" using m by simp
  then have data: "contents fs (?fls ! nat ?m) = Some (map_zero [] (contents (j_fs J)) (?fls ! nat ?m))"
    using f jok by (auto simp: files_ok_def job_ok_def map_zero_def)
  have "\<forall>r\<in>{0..<?n}. creatable fs (reduceName ?job ?m r)"
    using f jok m by (auto simp: files_ok_def job_ok_def dest: bspec spec [where x = "nat ?m"])
  from doMap_ok [OF n data m(1) this, of "j_map J"] obtain fs' where
    fs': "doMap ?job ?m (?fls ! nat ?m) ?n (j_map J) fs = Inr fs'" "creatable fs' = creatable fs"
    and new: "\<forall>r\<in>{0..<?n}. contents fs' (reduceName ?job ?m r) = Some (concat (map json_encode
        (part_kvs ?n r (input_pairs (j_map J) (j_fs J) ?fls (nat ?m)))))"
    and old: "\<And>g. g \<notin> reduceName ?job ?m ` {0..<?n} \<Longrightarrow> contents fs' g = contents fs g"
    by (auto simp: input_pairs_def)
  have other: "contents fs' (reduceName ?job i r) = contents fs (reduceName ?job i r)"
    if "0 \<le> i" "0 \<le> r" "i \<noteq> ?m" for i r using that m(1) by (intro old) (auto simp: names_inject)
  have merged: "contents fs' (mergeName ?job r) = contents fs (mergeName ?job r)" for r
    using reduceName_mergeName [OF m(1)] by (intro old) (metis imageE)
  have "task_done J fs' b" if b: "task_of J b" "task_done J fs b" for b
  proof (cases "Phase b = mapPhase \<and> TaskNumber b = ?m")
    case True
    with new show ?thesis by (simp add: task_done_def)
  next
    case False
    with b show ?thesis by (cases "Phase b") (auto simp: task_done_def other merged)
  qed
  moreover have "contents fs' g = contents (j_fs J) g" if "g \<in> set ?fls" for g
  proof -
    have "g \<notin> reduceName ?job ?m ` {0..<?n}" using jok that m unfolding job_ok_def by (metis imageE)
    with old f that show ?thesis by (simp add: files_ok_def)
  qed
  moreover have "contents fs' (j_out J) = contents fs (j_out J)"
    using out_not_task_file(1) [of ?job ?m] by (intro old) force
  moreover have "DoTask a (wks w) fs = Inr fs'"
    using fs'(1) a args ok by (simp add: DoTask_def jspec_ok_def)
  ultimately show ?thesis using new fs'(2) f a(2) by (auto simp: files_ok_def files_kept_def task_done_def)
qed

lemma reduce_task_done:
  assumes ok: "jspec_ok wks J" and f: "files_ok J fs" and a: "task_of J a" "Phase a = reducePhase"
    and maps: "phase_done J mapPhase fs"
  shows "\<exists>fs'. DoTask a (wks w) fs = Inr fs' \<and> files_ok J fs' \<and> task_done J fs' a \<and> files_kept J fs fs'"
proof -
  let ?r = "TaskNumber a" and ?job = "j_job J" and ?n = "j_n J" and ?fls = "j_fls J"
  let ?kvs = "\<lambda>i. part_kvs ?n ?r (input_pairs (j_map J) (j_fs J) ?fls (nat i))"
  have r: "0 \<le> ?r" "?r < ?n" and args: "JobName a = ?job" "NumOtherPhase a = int (length ?fls)"
    and jok: "job_ok ?job ?fls ?n (j_fs J)" and ret: "returns (j_reduce J) (j_red J) (j_all J)"
    using a ok by (auto simp: jspec_ok_def)
  have all: "concat (map ?kvs [0..int (length ?fls) - 1]) = part_kvs ?n ?r (j_all J)"
    by (simp add: all_pairs_nth part_kvs_concat comp_def flip: map_int_upt)
  have inp: "contents fs (reduceName ?job i ?r) = Some (concat (map json_encode (?kvs i)))"
    if "0 \<le> i" "i < int (length ?fls)" for i
  proof -
    let ?b = "\<lparr>JobName = ?job, File = ?fls ! nat i, Phase = mapPhase, TaskNumber = i, NumOtherPhase = ?n\<rparr>"
    have "task_done J fs ?b" using maps that by (auto simp: phase_done_def)
    with r show ?thesis by (simp add: task_done_def)
  qed
  have cr: "creatable fs (mergeName ?job ?r)" using f jok r by (auto simp: files_ok_def job_ok_def)
  have ret': "returns (j_reduce J) (j_red J) (concat (map ?kvs [0..int (length ?fls) - 1]))"
    unfolding all by (rule returns_part [OF ret])
  from doReduce_ok [OF inp cr ret'] obtain fs' where
    fs': "doReduce ?job ?r (int (length ?fls)) (j_reduce J) fs = Inr fs'" "creatable fs' = creatable fs"
    and new: "contents fs' (mergeName ?job ?r) =
      Some (concat (map json_encode (reduced (j_red J) (part_kvs ?n ?r (j_all J)))))"
    and old: "\<And>g. g \<noteq> mergeName ?job ?r \<Longrightarrow> contents fs' g = contents fs g"
    unfolding all by blast
  have "task_done J fs' b" if b: "task_of J b" "task_done J fs b" for b
  proof (cases "Phase b = reducePhase \<and> TaskNumber b = ?r")
    case True
    with new show ?thesis by (simp add: task_done_def)
  next
    case False
    with b r show ?thesis
      by (cases "Phase b") (auto simp: task_done_def mergeName_inject reduceName_mergeName intro!: old [THEN trans])
  qed
  moreover have "contents fs' g = contents (j_fs J) g" if "g \<in> set ?fls" for g
    using old [of g] f ok that by (auto simp: files_ok_def jspec_ok_def inputs_apart_def)
  moreover have "contents fs' (j_out J) = contents fs (j_out J)"
    using out_not_task_file(2) [of ?job ?r] by (intro old) (rule not_sym)
  moreover have "DoTask a (wks w) fs = Inr fs'"
    using fs'(1) a args ok by (simp add: DoTask_def jspec_ok_def)
  ultimately show ?thesis using new fs'(2) f a(2) by (auto simp: files_ok_def files_kept_def task_done_def)
qed

section \<open>The invariant of a job\<close>

definition jmr :: "jspec \<Rightarrow> Master" where
  "jmr J = (newMaster [])\<lparr>jobName := j_job J, files := j_fls J, nReduce := j_n J\<rparr>"

definition is_mr :: "jspec \<Rightarrow> Master \<Rightarrow> bool" where
  "is_mr J mr \<longleftrightarrow> jobName mr = j_job J \<and> files mr = j_fls J \<and> nReduce mr = j_n J"

lemma jmr_fields [simp]: "jobName (jmr J) = j_job J" "files (jmr J) = j_fls J" "nReduce (jmr J) = j_n J"
  by (simp_all add: jmr_def)

lemma is_mr_eqs:
  assumes "is_mr J mr"
  shows "schedule_ntasks ph mr = schedule_ntasks ph (jmr J)" "schedule_nios ph mr = schedule_nios ph (jmr J)"
    "execute_args ph mr = execute_args ph (jmr J)" "sched_call ph mr = sched_call ph (jmr J)"
    "merge mr = merge (jmr J)"
proof -
  show n: "schedule_ntasks ph mr = schedule_ntasks ph (jmr J)" "schedule_nios ph mr = schedule_nios ph (jmr J)"
    using assms by (simp_all add: is_mr_def schedule_ntasks_def schedule_nios_def split: jobPhase.split)
  show e: "execute_args ph mr = execute_args ph (jmr J)"
    using assms n by (simp add: is_mr_def execute_args_def fun_eq_iff)
  then show "sched_call ph mr = sched_call ph (jmr J)" by (simp add: sched_call_def fun_eq_iff)
  have "merge_read mr = merge_read (jmr J)" using assms by (simp add: is_mr_def merge_read_def fun_eq_iff)
  then show "merge mr = merge (jmr J)" using assms by (intro ext) (simp add: is_mr_def merge_def)
qed

definition phase_inv :: "jspec \<Rightarrow> jobPhase \<Rightarrow> sched \<Rightarrow> bool list \<Rightarrow> fsys \<Rightarrow> bool" where
  "phase_inv J ph s rn fs \<longleftrightarrow> sinv ph (jmr J) s \<and> length rn = length (sd_execs s) \<and>
     (\<forall>k<length rn. rn ! k \<longrightarrow>
        (\<forall>a. execute_args ph (jmr J) (fst (snd (sd_execs s ! k))) = Inr a \<longrightarrow> task_done J fs a)) \<and>
     (\<forall>a. (a, True) \<in> set (sd_log s) \<longrightarrow> task_done J fs a) \<and>
     (ph = reducePhase \<longrightarrow> phase_done J mapPhase fs)"

definition late_ok :: "jspec \<Rightarrow> (string \<times> DoTaskArgs) list \<Rightarrow> fsys \<Rightarrow> bool" where
  "late_ok J late fs \<longleftrightarrow> (\<forall>(w, a)\<in>set late. task_of J a \<and> (Phase a = reducePhase \<longrightarrow> phase_done J mapPhase fs))"

definition dinv :: "jspec \<Rightarrow> dist \<Rightarrow> bool" where
  "dinv J d \<longleftrightarrow> is_mr J (ds_mr d) \<and> files_ok J (ds_fs d) \<and> late_ok J (ds_late d) (ds_fs d) \<and>
     (case ds_pc d of
        InPhase ph \<Rightarrow> phase_inv J ph (ds_sched d) (ds_ran d) (ds_fs d)
      | _ \<Rightarrow> phase_done J mapPhase (ds_fs d) \<and> phase_done J reducePhase (ds_fs d)) \<and>
     (shutdown_closed (ds_mr d) \<longrightarrow> ds_pc d = Merging \<or> ds_pc d = Finished) \<and>
     doneChannel (ds_mr d) = (if ds_pc d = Finished then [True] else []) \<and>
     (ds_pc d = Finished \<longrightarrow> contents (ds_fs d) (j_out J) = Some (result_text (j_red J) (j_all J)))"

lemma execute_args_task_of:
  assumes "execute_args ph (jmr J) t = Inr a" and "int t < schedule_ntasks ph (jmr J)"
  shows "task_of J a" "Phase a = ph"
  using execute_args_fields [OF assms(1)] assms(2)
  by (auto simp: schedule_ntasks_def schedule_nios_def split: jobPhase.splits)

lemma sinv_exec_args:
  assumes "sinv ph (jmr J) s" and "k < length (sd_execs s)"
    and "execute_args ph (jmr J) (fst (snd (sd_execs s ! k))) = Inr a"
  shows "task_of J a" "Phase a = ph"
proof -
  have "int (fst (snd (sd_execs s ! k))) < schedule_ntasks ph (jmr J)"
    using sinv_exec_task [OF assms(1,2)] assms(1) by (simp add: sinv_def)
  then show "task_of J a" "Phase a = ph" using execute_args_task_of [OF assms(3)] by auto
qed

lemma sinv_log_args:
  assumes "sinv ph (jmr J) s" and "(a, ok) \<in> set (sd_log s)"
  shows "task_of J a" "Phase a = ph"
proof -
  have "a \<in> fst ` set (sd_log s)" using assms(2) by force
  from sinv_log [OF assms(1) this] show "task_of J a" "Phase a = ph"
    using execute_args_task_of [of ph J "nat (TaskNumber a)" a] by auto
qed

lemma phase_done_kept: "phase_done J ph fs \<Longrightarrow> files_kept J fs fs' \<Longrightarrow> phase_done J ph fs'"
  by (auto simp: phase_done_def files_kept_def)

lemma phase_inv_kept:
  assumes "phase_inv J ph s rn fs" and k: "files_kept J fs fs'"
  shows "phase_inv J ph s rn fs'"
proof -
  have s: "sinv ph (jmr J) s" "length rn = length (sd_execs s)" using assms(1) by (auto simp: phase_inv_def)
  note keep = k [unfolded files_kept_def, THEN conjunct1, rule_format, OF conjI]
  show ?thesis
    using assms(1) keep [OF sinv_exec_args(1) [OF s(1)]] keep [OF sinv_log_args(1) [OF s(1)]] phase_done_kept [OF _ k]
    unfolding phase_inv_def by (metis (no_types, lifting))
qed

lemma dinv_files:
  assumes "dinv J d" and "files_ok J fs'" and k: "files_kept J (ds_fs d) fs'"
  shows "dinv J (d\<lparr>ds_fs := fs'\<rparr>)"
proof -
  have out: "contents fs' (j_out J) = contents (ds_fs d) (j_out J)" using k by (simp add: files_kept_def)
  have late: "late_ok J (ds_late d) fs'" using assms(1) phase_done_kept [OF _ k] by (fastforce simp: dinv_def late_ok_def)
  show ?thesis
    using assms(1,2) out late phase_done_kept [OF _ k] phase_inv_kept [OF _ k]
    by (auto simp: dinv_def split: job_pc.splits)
qed

lemma task_runs:
  assumes "jspec_ok wks J" and "files_ok J fs" and "task_of J a" and "Phase a = reducePhase \<longrightarrow> phase_done J mapPhase fs"
  shows "\<exists>fs'. DoTask a (wks w) fs = Inr fs' \<and> files_ok J fs' \<and> task_done J fs' a \<and> files_kept J fs fs'"
  using map_task_done [OF assms(1-3)] reduce_task_done [OF assms(1-3)] assms(4) by (cases "Phase a") auto

lemma returned_phase_done:
  assumes "phase_inv J ph s rn fs" and "sd_returned s"
  shows "phase_done J ph fs"
proof -
  have inv: "sinv ph (jmr J) s" and log: "\<And>a. (a, True) \<in> set (sd_log s) \<Longrightarrow> task_done J fs a"
    using assms(1) by (auto simp: phase_inv_def)
  show ?thesis unfolding phase_done_def
  proof (intro allI impI; elim conjE)
    fix b assume b: "task_of J b" "Phase b = ph"
    have "TaskNumber b \<in> {0..schedule_ntasks ph (jmr J) - 1}"
      using b by (cases ph) (auto simp: schedule_ntasks_def)
    then have "TaskNumber b \<in> set (done_tasks s)"
      using mset_eq_setD [OF sinv_returned(2) [OF inv assms(2)]] by (simp only: set_upto)
    then obtain a where a: "(a, True) \<in> set (sd_log s)" "TaskNumber a = TaskNumber b"
      by (auto simp: done_tasks_def)
    have "Phase a = Phase b" using sinv_log_args(2) [OF inv a(1)] b by simp
    then have "task_done J fs a = task_done J fs b" unfolding task_done_def a(2) by (simp only:)
    with log [OF a(1)] show "task_done J fs b" by simp
  qed
qed

section \<open>Every event keeps the invariant\<close>

lemma set_sched_simps [simp]:
  "ds_sched (set_sched s d) = s" "ds_pc (set_sched s d) = ds_pc d" "ds_ran (set_sched s d) = ds_ran d"
  "ds_late (set_sched s d) = ds_late d" "ds_fs (set_sched s d) = ds_fs d"
  "ds_mr (set_sched s d) = (ds_mr d)\<lparr>registerChannel := sd_offers s\<rparr>"
  by (simp_all add: set_sched_def)

lemma is_mr_upd [simp]:
  "is_mr J (mr\<lparr>registerChannel := x\<rparr>) = is_mr J mr" "is_mr J (mr\<lparr>stats := y\<rparr>) = is_mr J mr"
  "is_mr J (mr\<lparr>doneChannel := z\<rparr>) = is_mr J mr" "is_mr J (mr\<lparr>shutdown_closed := b\<rparr>) = is_mr J mr"
  "is_mr J (mr\<lparr>workers := ws\<rparr>) = is_mr J mr"
  by (simp_all add: is_mr_def)

text \<open>A step of the scheduler, with what becomes of the record of the tasks that have run.\<close>

lemma dinv_sched:
  assumes "dinv J d" and "ds_pc d = InPhase ph" and "phase_inv J ph s r (ds_fs d)"
    and "late_ok J late (ds_fs d)"
  shows "dinv J (set_sched s (d\<lparr>ds_ran := r, ds_late := late\<rparr>))"
  using assms by (simp add: dinv_def)

lemma phase_inv_ran:
  assumes "phase_inv J ph s rn fs" and "k < length rn" and "rn ! k"
    and "execute_args ph (jmr J) (fst (snd (sd_execs s ! k))) = Inr a"
  shows "task_done J fs a"
  using assms unfolding phase_inv_def by blast

lemma phase_inv_mark:
  assumes "phase_inv J ph s rn fs" and "execute_args ph (jmr J) (fst (snd (sd_execs s ! k))) = Inr a"
    and "task_done J fs a"
  shows "phase_inv J ph s (rn[k := True]) fs"
proof -
  have "task_done J fs b" if "i < length rn" "rn[k := True] ! i"
    "execute_args ph (jmr J) (fst (snd (sd_execs s ! i))) = Inr b" for i b
    using phase_inv_ran [OF assms(1) that(1) _ that(3)] assms(2,3) that by (cases "i = k") auto
  then show ?thesis using assms(1) by (simp add: phase_inv_def)
qed

lemma phase_inv_step:
  assumes "phase_inv J ph s rn fs" and "sched_step ph (jmr J) s t" and "sd_log t = sd_log s"
    and "length rn' = length (sd_execs t)"
    and kept: "\<forall>k<length rn'. rn' ! k \<longrightarrow> k < length rn \<and> rn ! k \<and> fst (snd (sd_execs t ! k)) = fst (snd (sd_execs s ! k))"
  shows "phase_inv J ph t rn' fs"
proof -
  have "task_done J fs a" if "k < length rn'" "rn' ! k" "execute_args ph (jmr J) (fst (snd (sd_execs t ! k))) = Inr a" for k a
    using phase_inv_ran [OF assms(1), of k a] kept that by auto
  then show ?thesis using assms(1,3,4) sinv_step [OF _ assms(2)] by (simp add: phase_inv_def)
qed

lemma dinv_register:
  assumes "dinv J d"
  shows "\<exists>d'. dist_exec wks (DRegister args) d = Inr d' \<and> dinv J d'"
proof (cases "shutdown_closed (ds_mr d)")
  case True
  with assms show ?thesis by simp
next
  case False
  let ?s = "sched_register (RA_Worker args) (ds_sched d)"
  have "phase_inv J ph ?s (ds_ran d) (ds_fs d)" if "phase_inv J ph (ds_sched d) (ds_ran d) (ds_fs d)" for ph
    using that by (rule phase_inv_step [OF _ sched_step.Register])
      (use that in \<open>auto simp: sched_register_def phase_inv_def\<close>)
  with assms False show ?thesis by (auto simp: dinv_def Register_def split: job_pc.splits)
qed

lemma dinv_dispatch:
  assumes "dinv J d"
  shows "\<exists>d'. dist_exec wks (DDispatch p) d = Inr d' \<and> dinv J d'"
proof (cases "\<exists>ph. ds_pc d = InPhase ph \<and> sd_next (ds_sched d) < sd_ntasks (ds_sched d) \<and> p < length (sd_offers (ds_sched d))")
  case True
  then obtain ph where ph: "ds_pc d = InPhase ph" and g: "sd_next (ds_sched d) < sd_ntasks (ds_sched d)"
    "p < length (sd_offers (ds_sched d))" by blast
  have inv: "phase_inv J ph (ds_sched d) (ds_ran d) (ds_fs d)" "late_ok J (ds_late d) (ds_fs d)"
    using assms ph by (auto simp: dinv_def)
  have "phase_inv J ph (sched_dispatch p (ds_sched d)) (ds_ran d @ [False]) (ds_fs d)"
    using inv(1) by (rule phase_inv_step [OF _ sched_step.Dispatch [OF g]])
      (use inv(1) in \<open>auto simp: sched_dispatch_def phase_inv_def nth_append split: if_splits\<close>)
  from dinv_sched [OF assms ph this inv(2)] ph g show ?thesis by (simp add: in_phase_def)
qed (use assms in \<open>auto simp: in_phase_def split: job_pc.split\<close>)

lemma dinv_retry:
  assumes "dinv J d"
  shows "\<exists>d'. dist_exec wks (DRetry k p) d = Inr d' \<and> dinv J d'"
proof (cases "\<exists>ph. ds_pc d = InPhase ph \<and> k < length (sd_execs (ds_sched d)) \<and>
    snd (snd (sd_execs (ds_sched d) ! k)) = WaitNew \<and> p < length (sd_offers (ds_sched d))")
  case True
  then obtain ph where ph: "ds_pc d = InPhase ph" and g: "k < length (sd_execs (ds_sched d))"
    "snd (snd (sd_execs (ds_sched d) ! k)) = WaitNew" "p < length (sd_offers (ds_sched d))" by blast
  have inv: "phase_inv J ph (ds_sched d) (ds_ran d) (ds_fs d)" "late_ok J (ds_late d) (ds_fs d)"
    using assms ph by (auto simp: dinv_def)
  obtain w i pc where e: "sd_execs (ds_sched d) ! k = (w, i, pc)" by (cases "sd_execs (ds_sched d) ! k")
  have "phase_inv J ph (sched_retry k p (ds_sched d)) ((ds_ran d)[k := False]) (ds_fs d)"
    using inv(1) by (rule phase_inv_step [OF _ sched_step.Retry [OF g]])
      (use inv(1) e in \<open>auto simp: sched_retry_def phase_inv_def nth_list_update_cases split: if_splits\<close>)
  from dinv_sched [OF assms ph this inv(2)] ph g show ?thesis by (simp add: in_phase_def)
qed (use assms in \<open>auto simp: in_phase_def split: job_pc.split\<close>)

lemma dinv_return:
  assumes "dinv J d"
  shows "\<exists>d'. dist_exec wks DReturn d = Inr d' \<and> dinv J d'"
proof (cases "\<exists>ph. ds_pc d = InPhase ph")
  case True
  then obtain ph where ph: "ds_pc d = InPhase ph" by blast
  let ?s = "if sd_next (ds_sched d) = sd_ntasks (ds_sched d) \<and> sd_wg (ds_sched d) = 0
    then (ds_sched d)\<lparr>sd_returned := True\<rparr> else ds_sched d"
  have inv: "phase_inv J ph (ds_sched d) (ds_ran d) (ds_fs d)" "late_ok J (ds_late d) (ds_fs d)"
    using assms ph by (auto simp: dinv_def)
  have "phase_inv J ph ?s (ds_ran d) (ds_fs d)"
  proof (cases "sd_next (ds_sched d) = sd_ntasks (ds_sched d) \<and> sd_wg (ds_sched d) = 0")
    case True
    then have "phase_inv J ph ((ds_sched d)\<lparr>sd_returned := True\<rparr>) (ds_ran d) (ds_fs d)"
      using inv(1) by (intro phase_inv_step [OF inv(1) sched_step.Return]) (auto simp: phase_inv_def)
    with True show ?thesis by simp
  qed (use inv(1) in auto)
  from dinv_sched [OF assms ph this inv(2)] ph show ?thesis by (simp add: in_phase_def)
qed (use assms in \<open>auto simp: in_phase_def split: job_pc.split\<close>)

lemma dinv_run:
  assumes "dinv J d" and ok: "jspec_ok wks J"
  shows "\<exists>d'. dist_exec wks (DExec k) d = Inr d' \<and> dinv J d'"
proof (cases "\<exists>ph. ds_pc d = InPhase ph \<and> calling k d \<and> \<not> ds_ran d ! k")
  case True
  then obtain ph where ph: "ds_pc d = InPhase ph" and g: "calling k d" "\<not> ds_ran d ! k" by blast
  let ?s = "ds_sched d"
  have pinv: "phase_inv J ph ?s (ds_ran d) (ds_fs d)" and f: "files_ok J (ds_fs d)" and mr: "is_mr J (ds_mr d)"
    using assms(1) ph by (auto simp: dinv_def)
  then have inv: "sinv ph (jmr J) ?s" and len: "length (ds_ran d) = length (sd_execs ?s)" by (auto simp: phase_inv_def)
  obtain w t pc where e: "sd_execs ?s ! k = (w, t, pc)" by (cases "sd_execs ?s ! k")
  have k: "k < length (sd_execs ?s)" using g by (simp add: calling_def)
  have "t < length (j_fls J)"
    using sinv_exec_task [OF inv k] e inv ok by (cases ph) (auto simp: sinv_def schedule_ntasks_def jspec_ok_def)
  then obtain a where a: "execute_args ph (jmr J) t = Inr a" by (auto simp: execute_args_def go_idx_def)
  with sinv_exec_args [OF inv k, of a] e have ta: "task_of J a" "Phase a = ph" by simp_all
  then obtain fs' where fs': "DoTask a (wks w) (ds_fs d) = Inr fs'" "files_ok J fs'" "task_done J fs' a"
    "files_kept J (ds_fs d) fs'"
    using task_runs [OF ok f ta(1), of w] pinv by (auto simp: phase_inv_def)
  have "phase_inv J ph ?s ((ds_ran d)[k := True]) fs'"
    using phase_inv_mark [OF phase_inv_kept [OF pinv fs'(4)] _ fs'(3), of k] a e by simp
  with dinv_files [OF assms(1) fs'(2,4)] ph have "dinv J (d\<lparr>ds_fs := fs', ds_ran := (ds_ran d)[k := True]\<rparr>)"
    by (simp add: dinv_def)
  with ph g e a fs'(1) is_mr_eqs(3) [OF mr] show ?thesis by (simp add: in_phase_def dist_run_def)
qed (use assms in \<open>auto simp: in_phase_def split: job_pc.split\<close>)

lemma dinv_late:
  assumes "dinv J d" and ok: "jspec_ok wks J"
  shows "\<exists>d'. dist_exec wks (DLate j) d = Inr d' \<and> dinv J d'"
proof (cases "j < length (ds_late d)")
  case True
  obtain w a where e: "ds_late d ! j = (w, a)" by (cases "ds_late d ! j")
  have l: "late_ok J (ds_late d) (ds_fs d)" and f: "files_ok J (ds_fs d)" using assms(1) by (auto simp: dinv_def)
  have "(w, a) \<in> set (ds_late d)" using True e by (metis nth_mem)
  with l have "task_of J a" "Phase a = reducePhase \<longrightarrow> phase_done J mapPhase (ds_fs d)" by (auto simp: late_ok_def)
  then obtain fs' where fs': "DoTask a (wks w) (ds_fs d) = Inr fs'" "files_ok J fs'" "files_kept J (ds_fs d) fs'"
    using task_runs [OF ok f, of a w] by blast
  have "dinv J (d\<lparr>ds_fs := fs'\<rparr>)" using dinv_files [OF assms(1) fs'(2,3)] .
  moreover have "set (remove_nth j (ds_late d)) \<subseteq> set (ds_late d)"
    by (auto simp: remove_nth_def dest: in_set_takeD in_set_dropD)
  then have "late_ok J (remove_nth j (ds_late d)) fs'" if "late_ok J (ds_late d) fs'"
    using that by (fastforce simp: late_ok_def)
  ultimately have "dinv J (d\<lparr>ds_fs := fs', ds_late := remove_nth j (ds_late d)\<rparr>)"
    by (auto simp: dinv_def split: job_pc.splits)
  with True e fs'(1) show ?thesis by (simp add: dist_late_def)
qed (use assms in simp)

lemma nth_remove_nth:
  assumes "i < length (remove_nth k xs)" and "k < length xs"
  shows "remove_nth k xs ! i = xs ! (if i < k then i else Suc i)" "(if i < k then i else Suc i) < length xs"
  using assms by (auto simp: remove_nth_def nth_append min_def)

lemma sched_call_fields:
  assumes "sched_call ph mr k ok s = Inr t" and "sd_execs s ! k = (w, i, pc)"
  shows "\<exists>a. execute_args ph mr i = Inr a \<and> sd_log t = sd_log s @ [(a, ok)] \<and>
    sd_execs t = (if ok then remove_nth k (sd_execs s) else (sd_execs s)[k := (w, i, WaitNew)])"
  using assms by (cases ok) (auto simp: sched_call_def gbind_eq_Inr Let_def split: if_splits)

lemma phase_inv_call:
  assumes p: "phase_inv J ph s rn fs" and k: "k < length (sd_execs s)"
    and c: "sched_call ph (jmr J) k ok s = Inr t" and ok: "ok \<longrightarrow> rn ! k"
  shows "phase_inv J ph t (if ok then remove_nth k rn else rn) fs"
proof -
  let ?rn = "if ok then remove_nth k rn else rn"
  obtain w i pc where e: "sd_execs s ! k = (w, i, pc)" by (cases "sd_execs s ! k")
  from sched_call_fields [OF c e] obtain a where a: "execute_args ph (jmr J) i = Inr a"
    and log: "sd_log t = sd_log s @ [(a, ok)]"
    and ex: "sd_execs t = (if ok then remove_nth k (sd_execs s) else (sd_execs s)[k := (w, i, WaitNew)])" by blast
  have len: "length rn = length (sd_execs s)" and inv: "sinv ph (jmr J) s" using p by (auto simp: phase_inv_def)
  have fin: "task_done J fs a" if ok using phase_inv_ran [OF p, of k a] k len ok that a e by simp
  have "task_done J fs b" if "j < length ?rn" "?rn ! j" "execute_args ph (jmr J) (fst (snd (sd_execs t ! j))) = Inr b" for j b
  proof (cases ok)
    case True
    let ?j = "if j < k then j else Suc j"
    have "remove_nth k rn ! j = rn ! ?j" "?j < length rn" "remove_nth k (sd_execs s) ! j = sd_execs s ! ?j"
      using nth_remove_nth [of j k rn] nth_remove_nth [of j k "sd_execs s"] that(1) True k len
      by (simp_all add: remove_nth_def)
    with phase_inv_ran [OF p, of ?j b] that True ex show ?thesis by simp
  next
    case False
    have "fst (snd (sd_execs t ! j)) = fst (snd (sd_execs s ! j))"
      using ex False e that(1) len by (cases "j = k") auto
    with phase_inv_ran [OF p, of j b] that False show ?thesis by simp
  qed
  moreover have "length ?rn = length (sd_execs t)" using ex len by (simp add: remove_nth_def)
  moreover have "task_done J fs b" if "(b, True) \<in> set (sd_log t)" for b
    using that p fin log by (auto simp: phase_inv_def)
  ultimately show ?thesis using p sinv_call [OF inv k c] by (simp add: phase_inv_def)
qed

lemma dinv_call:
  assumes "dinv J d" and ok: "jspec_ok wks J"
  shows "\<exists>d'. dist_exec wks (DCall k b) d = Inr d' \<and> dinv J d'"
proof (cases "\<exists>ph. ds_pc d = InPhase ph \<and> calling k d \<and> (b \<longrightarrow> ds_ran d ! k)")
  case True
  then obtain ph where ph: "ds_pc d = InPhase ph" and g: "calling k d" "b \<longrightarrow> ds_ran d ! k" by blast
  have p: "phase_inv J ph (ds_sched d) (ds_ran d) (ds_fs d)" and mr: "is_mr J (ds_mr d)"
    and l: "late_ok J (ds_late d) (ds_fs d)" and inv: "sinv ph (jmr J) (ds_sched d)"
    using assms(1) ph by (auto simp: dinv_def phase_inv_def)
  have k: "k < length (sd_execs (ds_sched d))" using g by (simp add: calling_def)
  have "schedule_ntasks ph (jmr J) \<le> int (length (files (jmr J)))"
    using ok by (cases ph) (auto simp: schedule_ntasks_def jspec_ok_def)
  from sched_call_ok [OF inv this k] obtain s' where c: "sched_call ph (jmr J) k b (ds_sched d) = Inr s'" by blast
  obtain w t pc where e: "sd_execs (ds_sched d) ! k = (w, t, pc)" by (cases "sd_execs (ds_sched d) ! k")
  from sched_call_fields [OF c e] obtain a where a: "execute_args ph (jmr J) t = Inr a" by blast
  have "task_of J a" "Phase a = ph" using sinv_exec_args [OF inv k, of a] a e by simp_all
  then have "late_ok J (if b \<or> ds_ran d ! k then ds_late d else ds_late d @ [(w, a)]) (ds_fs d)"
    using l p by (auto simp: late_ok_def phase_inv_def)
  from dinv_sched [OF assms(1) ph phase_inv_call [OF p k c g(2)] this]
  show ?thesis using ph g e a c is_mr_eqs(3,4) [OF mr] by (simp add: in_phase_def dist_call_def)
qed (use assms in \<open>auto simp: in_phase_def split: job_pc.split\<close>)

lemma dinv_next:
  assumes "dinv J d" and ok: "jspec_ok wks J"
  shows "\<exists>d'. dist_exec wks DNext d = Inr d' \<and> dinv J d'"
proof (cases "\<exists>ph. ds_pc d = InPhase ph \<and> sd_returned (ds_sched d)")
  case True
  then obtain ph where ph: "ds_pc d = InPhase ph" and r: "sd_returned (ds_sched d)" by blast
  have p: "phase_inv J ph (ds_sched d) (ds_ran d) (ds_fs d)" and mr: "is_mr J (ds_mr d)"
    using assms(1) ph by (auto simp: dinv_def)
  note fin = returned_phase_done [OF p r]
  show ?thesis
  proof (cases ph)
    case mapPhase
    define s where "s = \<lparr>sd_ntasks = nat (j_n J), sd_next = 0, sd_execs = [], sd_offers = registerChannel (ds_mr d),
      sd_wg = j_n J, sd_log = [], sd_returned = False\<rparr>"
    have s: "schedule_start reducePhase (ds_mr d) = Inr s"
      using mr ok by (simp add: schedule_start_def schedule_ntasks_def s_def is_mr_def jspec_ok_def job_ok_def)
    have "sinv reducePhase (jmr J) s"
      using ok by (simp add: s_def sinv_def done_tasks_def schedule_ntasks_def jspec_ok_def job_ok_def)
    then have "phase_inv J reducePhase s [] (ds_fs d)" using fin mapPhase by (simp add: phase_inv_def s_def)
    with assms(1) ph have "dinv J (set_sched s (d\<lparr>ds_pc := InPhase reducePhase, ds_ran := []\<rparr>))"
      by (simp add: dinv_def)
    with ph r s mapPhase show ?thesis by (simp add: in_phase_def dist_next_def)
  next
    case reducePhase
    with p fin assms(1) ph have "dinv J (d\<lparr>ds_pc := Killing\<rparr>)" by (simp add: dinv_def phase_inv_def)
    with ph r reducePhase show ?thesis by (simp add: in_phase_def dist_next_def)
  qed
qed (use assms in \<open>auto simp: in_phase_def split: job_pc.split\<close>)

lemma dinv_merge:
  assumes "dinv J d" and ok: "jspec_ok wks J"
  shows "\<exists>d'. dist_exec wks DMerge d = Inr d' \<and> dinv J d'"
proof (cases "ds_pc d = Merging")
  case True
  have mr: "is_mr J (ds_mr d)" and f: "files_ok J (ds_fs d)" and l: "late_ok J (ds_late d) (ds_fs d)"
    and maps: "phase_done J mapPhase (ds_fs d)" and reds: "phase_done J reducePhase (ds_fs d)"
    and ch: "doneChannel (ds_mr d) = []"
    using assms(1) True by (auto simp: dinv_def)
  have jok: "job_ok (j_job J) (j_fls J) (j_n J) (j_fs J)" and ret: "returns (j_reduce J) (j_red J) (j_all J)"
    and apart: "inputs_apart (j_job J) (j_fls J)" using ok by (auto simp: jspec_ok_def)
  have inp: "contents (ds_fs d) (mergeName (j_job J) r) =
      Some (concat (map json_encode (reduced (j_red J) (part_kvs (j_n J) r (j_all J)))))" if "r \<in> {0..<j_n J}" for r
  proof -
    let ?b = "\<lparr>JobName = j_job J, File = [], Phase = reducePhase, TaskNumber = r, NumOtherPhase = int (length (j_fls J))\<rparr>"
    have "task_done J (ds_fs d) ?b" using reds that by (auto simp: phase_done_def)
    then show ?thesis by (simp add: task_done_def)
  qed
  from merge_writes [of "jmr J" "ds_fs d" "j_red J" "j_all J" "j_reduce J"] obtain fs' where
    fs': "merge (jmr J) (ds_fs d) = Inr fs'" "contents fs' (j_out J) = Some (result_text (j_red J) (j_all J))"
      "creatable fs' = creatable (ds_fs d)" "\<And>g. g \<noteq> j_out J \<Longrightarrow> contents fs' g = contents (ds_fs d) g"
    using jok inp ret f by (auto simp: job_ok_def files_ok_def)
  have kept: "task_done J fs' b" if "task_done J (ds_fs d) b" for b
    using that fs'(4) out_not_task_file by (auto simp: task_done_def split: jobPhase.splits)
  then have "phase_done J ph fs'" if "phase_done J ph (ds_fs d)" for ph using that by (auto simp: phase_done_def)
  moreover have "files_ok J fs'" using f fs'(3,4) apart by (auto simp: files_ok_def inputs_apart_def)
  moreover have "late_ok J (ds_late d) fs'" using l calculation(1) by (fastforce simp: late_ok_def)
  ultimately have "dinv J (d\<lparr>ds_fs := fs', ds_mr := (ds_mr d)\<lparr>doneChannel := [True]\<rparr>, ds_pc := Finished\<rparr>)"
    using mr maps reds fs'(2) by (simp add: dinv_def)
  with True fs'(1) is_mr_eqs(5) [OF mr] ch show ?thesis by (simp add: dist_merge_def)
qed (use assms in simp)

text \<open>No event makes a process panic, and the invariant is kept.\<close>

lemma dinv_exec:
  assumes "dinv J d" and "jspec_ok wks J"
  shows "\<exists>d'. dist_exec wks e d = Inr d' \<and> dinv J d'"
proof (cases e)
  case (DKill rep)
  with assms show ?thesis by (auto simp: dinv_def dist_kill_def)
next
  case (DStop b)
  with assms show ?thesis by (auto simp: dinv_def stopRPCServer_def master_Shutdown_def)
qed (use dinv_register [OF assms(1)] dinv_dispatch [OF assms(1)] dinv_run [OF assms] dinv_call [OF assms]
    dinv_retry [OF assms(1)] dinv_late [OF assms] dinv_return [OF assms(1)] dinv_next [OF assms] dinv_merge [OF assms]
    in \<open>simp_all only:\<close>)

lemma dinv_run_events:
  assumes "dinv J d" and "jspec_ok wks J"
  shows "\<exists>d'. gfold (dist_exec wks) es d = Inr d' \<and> dinv J d'"
  using assms(1)
proof (induction es arbitrary: d)
  case (Cons e es)
  from dinv_exec [OF Cons.prems assms(2), of e] obtain u where "dist_exec wks e d = Inr u" "dinv J u" by blast
  with Cons.IH [of u] show ?case by simp
qed simp

lemma dinv_start:
  assumes "Distributed listen (j_job J) (j_fls J) (j_n J) master (j_fs J) = Inr d"
  shows "dinv J d"
proof -
  have "ds_mr d = (newMaster master)\<lparr>jobName := j_job J, files := j_fls J, nReduce := j_n J\<rparr>"
    "ds_pc d = InPhase mapPhase" "ds_ran d = []" "ds_late d = []" "ds_fs d = j_fs J"
    and s: "ds_sched d = \<lparr>sd_ntasks = length (j_fls J), sd_next = 0, sd_execs = [], sd_offers = [],
      sd_wg = int (length (j_fls J)), sd_log = [], sd_returned = False\<rparr>"
    using assms by (auto simp: Distributed_def gbind_eq_Inr Let_def startRPCServer_def schedule_start_def
        schedule_ntasks_def newMaster_def split: if_splits)
  moreover have "sinv mapPhase (jmr J) (ds_sched d)"
    by (simp add: s sinv_def done_tasks_def schedule_ntasks_def)
  ultimately show ?thesis
    by (simp add: dinv_def is_mr_def files_ok_def late_ok_def phase_inv_def newMaster_def)
qed

end
