(* ===== verification/Rpc_Client.thy ===== *)
theory Rpc_Client
  imports Go_Prelude
begin

text \<open>
  What the clients of the lab services share: the \<open>call\<close> function over a Unix socket, and the
  loops that try the servers of a list in turn and start again after a pause. The rest of the
  system is a world of type \<open>'w\<close> that every call and every pause may change; a call returns
  \<^const>\<open>None\<close> when the code's \<open>call\<close> returns false. The loops of the code have no bound, so
  they take fuel here, the number of rounds; running out of fuel is the result \<^const>\<open>None\<close>.
\<close>

section \<open>Calls over a socket\<close>

text \<open>\<open>rpc.Dial\<close> and \<open>Client.Call\<close> of \<open>net/rpc\<close> are arguments.\<close>

definition call ::
  "(string \<Rightarrow> 'w \<Rightarrow> bool) \<Rightarrow> (string \<Rightarrow> string \<Rightarrow> 'a \<Rightarrow> 'w \<Rightarrow> 'r option \<times> 'w) \<Rightarrow>
   string \<Rightarrow> string \<Rightarrow> 'a \<Rightarrow> 'w \<Rightarrow> 'r option \<times> 'w" where
  "call dial rpc srv rpcname args w = (if dial srv w then rpc srv rpcname args w else (None, w))"

section \<open>Trying one server after the other\<close>

text \<open>One pass over the servers: a reply that is \<open>good\<close> ends the search, a reply that is
  \<open>stop\<close> ends it without a result.\<close>

fun try_servers ::
  "('s \<Rightarrow> 'w \<Rightarrow> 'r option \<times> 'w) \<Rightarrow> ('r \<Rightarrow> bool) \<Rightarrow> ('r \<Rightarrow> bool) \<Rightarrow> 's list \<Rightarrow> 'w \<Rightarrow> 'r option \<times> 'w" where
  "try_servers c good stop [] w = (None, w)"
| "try_servers c good stop (srv # srvs) w =
     (case c srv w of
        (None, w) \<Rightarrow> try_servers c good stop srvs w
      | (Some r, w) \<Rightarrow>
          if good r then (Some r, w)
          else if stop r then (None, w)
          else try_servers c good stop srvs w)"

text \<open>Passes with a pause in between.\<close>

primrec retry :: "('w \<Rightarrow> 'r option \<times> 'w) \<Rightarrow> ('w \<Rightarrow> 'w) \<Rightarrow> nat \<Rightarrow> 'w \<Rightarrow> 'r option \<times> 'w" where
  "retry pass sleep 0 w = (None, w)"
| "retry pass sleep (Suc n) w =
     (case pass w of
        (Some r, w) \<Rightarrow> (Some r, w)
      | (None, w) \<Rightarrow> retry pass sleep n (sleep w))"

lemma try_servers_reply:
  assumes "try_servers c good stop srvs w = (Some r, w')"
  shows "good r \<and> (\<exists>srv\<in>set srvs. \<exists>u. c srv u = (Some r, w'))"
  using assms
  by (induction srvs arbitrary: w) (auto split: prod.splits option.splits if_splits)

lemma try_servers_closed:
  assumes "\<And>srv w. srv \<in> set srvs \<Longrightarrow> w \<in> L \<Longrightarrow> snd (c srv w) \<in> L" and "w \<in> L"
  shows "snd (try_servers c good stop srvs w) \<in> L"
  using assms
proof (induction srvs arbitrary: w)
  case (Cons x xs)
  obtain o1 w1 where x: "c x w = (o1, w1)" by (cases "c x w")
  with Cons.prems have "w1 \<in> L" by (metis list.set_intros(1) snd_conv)
  with Cons x show ?case by (auto split: option.splits)
qed simp

lemma retry_closed:
  assumes "\<And>w. w \<in> L \<Longrightarrow> snd (pass w) \<in> L" and "\<And>w. w \<in> L \<Longrightarrow> sleep w \<in> L" and "w \<in> L"
  shows "snd (retry pass sleep n w) \<in> L"
  using assms(3)
proof (induction n arbitrary: w)
  case (Suc n)
  obtain o1 w1 where p: "pass w = (o1, w1)" by (cases "pass w")
  with assms(1) [OF Suc.prems] have "w1 \<in> L" by simp
  with Suc.IH assms(2) p show ?case by (cases o1) simp_all
qed simp

lemma retry_reply:
  assumes "retry pass sleep n w = (Some r, w')"
  shows "\<exists>u. pass u = (Some r, w')"
  using assms by (induction n arbitrary: w) (auto split: prod.splits option.splits)

lemma retry_add:
  "retry pass sleep (m + n) w =
     (case retry pass sleep m w of (Some r, w) \<Rightarrow> (Some r, w) | (None, w) \<Rightarrow> retry pass sleep n w)"
proof (induction m arbitrary: w)
  case (Suc m)
  then show ?case by (cases "pass w") (auto split: option.splits prod.splits)
qed simp

text \<open>More rounds do not change a result.\<close>

lemma retry_mono:
  "retry pass sleep m w = (Some r, w') \<Longrightarrow> m \<le> n \<Longrightarrow> retry pass sleep n w = (Some r, w')"
  using retry_add [of pass sleep m "n - m" w] by simp

section \<open>A group of servers that will answer\<close>

text \<open>The condition under which a clerk returns: a set of worlds, closed under the calls and
  the pauses, in which one of the servers gives a good reply and none ends the pass.\<close>

definition will_answer ::
  "('s \<Rightarrow> 'w \<Rightarrow> 'r option \<times> 'w) \<Rightarrow> ('r \<Rightarrow> bool) \<Rightarrow> ('r \<Rightarrow> bool) \<Rightarrow> 's list \<Rightarrow> 'w set \<Rightarrow> bool" where
  "will_answer c good stop srvs L \<longleftrightarrow>
     (\<forall>w\<in>L. \<forall>srv\<in>set srvs. snd (c srv w) \<in> L \<and>
        (\<forall>r. fst (c srv w) = Some r \<longrightarrow> stop r \<longrightarrow> good r)) \<and>
     (\<exists>srv\<in>set srvs. \<forall>w\<in>L. \<exists>r. fst (c srv w) = Some r \<and> good r)"

lemma pass_answers:
  assumes wa: "will_answer c good stop srvs L" and w: "w \<in> L"
  shows "\<exists>r. fst (try_servers c good stop srvs w) = Some r \<and> good r"
proof -
  have "\<exists>r. fst (try_servers c good stop xs w) = Some r \<and> good r"
    if "set xs \<subseteq> set srvs" and "\<exists>srv\<in>set xs. \<forall>w\<in>L. \<exists>r. fst (c srv w) = Some r \<and> good r" and "w \<in> L"
    for xs w
    using that
  proof (induction xs arbitrary: w)
    case (Cons x xs)
    obtain o' w1 where x: "c x w = (o', w1)" by (cases "c x w")
    have w1: "w1 \<in> L" using wa Cons.prems(1,3) x unfolding will_answer_def by (metis list.set_intros(1) snd_conv subsetD)
    show ?case
    proof (cases "\<exists>r. o' = Some r \<and> good r")
      case True
      with x show ?thesis by auto
    next
      case False
      then have "\<not> (\<forall>w\<in>L. \<exists>r. fst (c x w) = Some r \<and> good r)" using x Cons.prems(3) by (metis fst_conv)
      then have "\<exists>srv\<in>set xs. \<forall>w\<in>L. \<exists>r. fst (c srv w) = Some r \<and> good r" using Cons.prems(2) by auto
      then have IH: "\<exists>r. fst (try_servers c good stop xs w1) = Some r \<and> good r"
        using Cons.IH [of w1] Cons.prems(1) w1 by simp
      have "\<not> stop r" if "o' = Some r" for r
        using wa False that x Cons.prems(1,3) unfolding will_answer_def by auto
      with IH False x show ?thesis by (auto split: option.splits)
    qed
  qed simp
  from this [of srvs w] wa w show ?thesis unfolding will_answer_def by blast
qed

lemma retry_answers:
  assumes wa: "will_answer c good stop srvs L"
    and "snd (retry (try_servers c good stop srvs) sleep k w) \<in> L" and "k < n"
  shows "\<exists>r. fst (retry (try_servers c good stop srvs) sleep n w) = Some r \<and> good r"
proof -
  let ?p = "try_servers c good stop srvs"
  obtain o' w1 where k: "retry ?p sleep k w = (o', w1)" by (cases "retry ?p sleep k w")
  show ?thesis
  proof (cases o')
    case (Some r)
    with k retry_mono [of ?p sleep k w r w1 n] assms(3) have n: "retry ?p sleep n w = (Some r, w1)" by simp
    from retry_reply [OF n] try_servers_reply [of c good stop srvs _ r w1] n show ?thesis by force
  next
    case None
    then have w1: "w1 \<in> L" using assms(2) k by simp
    obtain j where j: "n = k + Suc j" using assms(3) less_imp_Suc_add by fastforce
    obtain r w2 where "?p w1 = (Some r, w2)" "good r" using pass_answers [OF wa w1] by (metis prod.collapse)
    then show ?thesis unfolding j using retry_add [of ?p sleep k "Suc j" w] k None by simp
  qed
qed

end
