(* ===== verification/Lockservice.thy ===== *)
theory Lockservice
  imports Rpc_Client
begin

text \<open>
  The lock service (\<^verbatim>\<open>src/lockservice\<close>): the server's \<open>Lock\<close> and \<open>Unlock\<close> handlers, its
  accept loop with the mode in which it dies after one more request, and the clerk. The
  backup server plays no part in the code as it is.
\<close>

section \<open>The server\<close>

record LockArgs =
  Lockname :: string

record LockReply =
  OK :: bool

record LockServer =
  ls_dead :: bool
  dying :: bool
  am_primary :: bool
  backup :: string
  locks :: "string \<rightharpoonup> bool"
  ls_listening :: bool

definition Lock :: "LockArgs \<Rightarrow> LockServer \<Rightarrow> LockReply \<times> LockServer" where
  "Lock args ls =
     (let locked = map_zero False (locks ls) (Lockname args) in
      if locked then (\<lparr>OK = False\<rparr>, ls)
      else (\<lparr>OK = True\<rparr>, ls\<lparr>locks := (locks ls)(Lockname args \<mapsto> True)\<rparr>))"

text \<open>The handler is empty: it leaves the reply's zero value and the locks.\<close>

definition Unlock :: "LockArgs \<Rightarrow> LockServer \<Rightarrow> LockReply \<times> LockServer" where
  "Unlock args ls = (\<lparr>OK = False\<rparr>, ls)"

definition ls_kill :: "LockServer \<Rightarrow> LockServer" where
  "ls_kill ls = ls\<lparr>ls_dead := True, ls_listening := False\<rparr>"

text \<open>A connection whose writes are swallowed: what is written counts as written.\<close>

record 'c DeafConn =
  conn :: 'c

definition deaf_Write :: "'c DeafConn \<Rightarrow> 'b list \<Rightarrow> int \<times> 'c DeafConn" where
  "deaf_Write dc p = (int (length p), dc)"

definition deaf_Close :: "('c \<Rightarrow> 'c) \<Rightarrow> 'c DeafConn \<Rightarrow> 'c DeafConn" where
  "deaf_Close close dc = dc\<lparr>conn := close (conn dc)\<rparr>"

definition deaf_Read :: "('c \<Rightarrow> 'b list \<times> 'c) \<Rightarrow> 'c DeafConn \<Rightarrow> 'b list \<times> 'c DeafConn" where
  "deaf_Read read dc = (let (p, c) = read (conn dc) in (p, dc\<lparr>conn := c\<rparr>))"

definition StartServer :: "(string \<Rightarrow> bool) \<Rightarrow> string \<Rightarrow> string \<Rightarrow> bool \<Rightarrow> LockServer go" where
  "StartServer listen primary backup_port primary_here =
     (let me = (if primary_here then primary else backup_port) in
      if listen me then
        Inr \<lparr>ls_dead = False, dying = False, am_primary = primary_here, backup = backup_port,
             locks = Map.empty, ls_listening = True\<rparr>
      else Inl (LogFatal ''listen error: ''))"

text \<open>One turn of the accept loop with a request of a client: the reply, or none when the server
  is dead, was killed while it waited (\<open>k\<close>), fails to accept (\<open>err\<close>) or dies with this
  request.\<close>

datatype request = ReqLock string | ReqUnlock string

definition serve :: "request \<Rightarrow> LockServer \<Rightarrow> LockReply \<times> LockServer" where
  "serve q ls =
     (case q of
        ReqLock n \<Rightarrow> Lock \<lparr>Lockname = n\<rparr> ls
      | ReqUnlock n \<Rightarrow> Unlock \<lparr>Lockname = n\<rparr> ls)"

definition accept_one :: "bool \<Rightarrow> bool \<Rightarrow> request \<Rightarrow> LockServer \<Rightarrow> LockReply option \<times> LockServer" where
  "accept_one k err q ls =
     (if ls_dead ls then (None, ls)
      else let ls = (if k then ls_kill ls else ls) in
        if \<not> err \<and> \<not> ls_dead ls then
          (if dying ls then
             (let ls = ls\<lparr>ls_listening := False\<rparr>; (r, ls) = serve q ls in (None, ls\<lparr>ls_dead := True\<rparr>))
           else apfst Some (serve q ls))
        else if err \<and> \<not> ls_dead ls then (None, ls_kill ls)
        else (None, ls))"

section \<open>The clerk\<close>

record Clerk =
  ck_servers :: "string list"

definition MakeClerk :: "string \<Rightarrow> string \<Rightarrow> Clerk" where
  "MakeClerk primary backup_port = \<lparr>ck_servers = [primary, backup_port]\<rparr>"

definition ck_Lock ::
  "(string \<Rightarrow> string \<Rightarrow> LockArgs \<Rightarrow> 'w \<Rightarrow> LockReply option \<times> 'w) \<Rightarrow> Clerk \<Rightarrow> string \<Rightarrow> 'w \<Rightarrow> bool \<times> 'w" where
  "ck_Lock c ck lockname w =
     (case c (ck_servers ck ! 0) ''LockServer.Lock'' \<lparr>Lockname = lockname\<rparr> w of
        (None, w) \<Rightarrow> (False, w)
      | (Some reply, w) \<Rightarrow> (OK reply, w))"

definition ck_Unlock :: "Clerk \<Rightarrow> string \<Rightarrow> bool" where
  "ck_Unlock ck lockname = False"

section \<open>A history of requests\<close>

text \<open>The server's answers to a sequence of requests.\<close>

fun answers :: "(bool \<times> bool \<times> request) list \<Rightarrow> LockServer \<Rightarrow> LockReply option list \<times> LockServer" where
  "answers [] ls = ([], ls)"
| "answers ((k, err, q) # qs) ls =
     (let (r, ls1) = accept_one k err q ls; (rs, ls2) = answers qs ls1 in (r # rs, ls2))"

text \<open>Whether an answer grants the lock \<open>n\<close>.\<close>

definition grants :: "string \<Rightarrow> (bool \<times> bool \<times> request) \<times> LockReply option \<Rightarrow> bool" where
  "grants n x \<longleftrightarrow> snd (snd (fst x)) = ReqLock n \<and> (\<exists>r. snd x = Some r \<and> OK r)"

definition held_lock :: "LockServer \<Rightarrow> string \<Rightarrow> bool" where
  "held_lock ls n = map_zero False (locks ls) n"

lemmas lock_defs = accept_one_def serve_def Lock_def Unlock_def ls_kill_def held_lock_def Let_def
  case_prod_beta

lemma accept_one_held:
  "held_lock ls n \<Longrightarrow> held_lock (snd (accept_one k err q ls)) n"
  by (auto simp: lock_defs split: request.splits)

lemma accept_one_grant:
  assumes "grants n ((k, err, q), fst (accept_one k err q ls))"
  shows "\<not> held_lock ls n \<and> held_lock (snd (accept_one k err q ls)) n"
  using assms by (auto simp: lock_defs grants_def split: if_splits request.splits)

lemma answers_Cons:
  "answers ((k, err, q) # qs) ls =
     (fst (accept_one k err q ls) # fst (answers qs (snd (accept_one k err q ls))),
      snd (answers qs (snd (accept_one k err q ls))))"
  by (simp add: case_prod_beta)

text \<open>A lock that is held is never granted, and a free lock at most once.\<close>

lemma answers_grants:
  "length (filter (grants n) (zip qs (fst (answers qs ls)))) \<le> (if held_lock ls n then 0 else 1)"
proof (induction qs arbitrary: ls)
  case (Cons x qs)
  obtain k err q where x: "x = (k, err, q)" by (cases x) auto
  let ?ls1 = "snd (accept_one k err q ls)"
  note IH = Cons.IH [of ?ls1]
  show ?case
  proof (cases "grants n (x, fst (accept_one k err q ls))")
    case True
    with accept_one_grant [of n k err q ls] x have "\<not> held_lock ls n" "held_lock ?ls1 n" by auto
    with IH True show ?thesis unfolding x answers_Cons by simp
  next
    case False
    then have "filter (grants n) (zip (x # qs) (fst (answers (x # qs) ls))) =
        filter (grants n) (zip qs (fst (answers qs ?ls1)))" unfolding x answers_Cons by simp
    moreover have "(if held_lock ?ls1 n then 0 else 1 :: nat) \<le> (if held_lock ls n then 0 else 1)"
      using accept_one_held [of ls n k err q] by simp
    ultimately show ?thesis using IH by (simp only:)
  qed
qed simp

end
