(* ===== verification/Rpc_Server.thy ===== *)
theory Rpc_Server
  imports Go_Prelude "HOL-Library.Word"
begin

text \<open>
  The servers that accept connections on a Unix socket: the Paxos library
  (\<^verbatim>\<open>src/paxos/paxos.go\<close>), the primary/backup server (\<^verbatim>\<open>src/pbservice/server.go\<close>), the view
  server (\<^verbatim>\<open>src/viewservice/server.go\<close>), and the servers on top of Paxos
  (\<^verbatim>\<open>src/kvpaxos/server.go\<close>, \<^verbatim>\<open>src/paxos-shardmaster/server.go\<close>,
  \<^verbatim>\<open>src/paxos-shardkv/server.go\<close>, \<^verbatim>\<open>src/diskv/server.go\<close>). Their request handlers are empty in
  the source; modelled are their flags, how they start, and one turn of the accept loop.

  What the loop reads from outside is an input of the turn: whether \<open>Accept\<close> returned a
  connection, whether the server was killed while it waited, and the two random numbers.
\<close>

section \<open>Flags\<close>

record Endpoint =
  dead :: int
  unreliable :: int
  rpcCount :: "32 word"
  listener :: bool

definition isdead :: "'a Endpoint_scheme \<Rightarrow> bool" where
  "isdead s \<longleftrightarrow> dead s \<noteq> 0"

definition isunreliable :: "'a Endpoint_scheme \<Rightarrow> bool" where
  "isunreliable s \<longleftrightarrow> unreliable s \<noteq> 0"

definition Setunreliable :: "bool \<Rightarrow> 'a Endpoint_scheme \<Rightarrow> 'a Endpoint_scheme" where
  "Setunreliable what s = (if what then s\<lparr>unreliable := 1\<rparr> else s\<lparr>unreliable := 0\<rparr>)"

definition close_listener :: "'a Endpoint_scheme \<Rightarrow> 'a Endpoint_scheme" where
  "close_listener s = s\<lparr>listener := False\<rparr>"

section \<open>The accept loop\<close>

datatype conn_fate = NoConn | Closed | ServedDeaf | Served

record accepting =
  conn_ok :: bool
  killed :: bool
  rnd1 :: int
  rnd2 :: int

text \<open>One turn. \<open>kill\<close> is the server's own kill function, \<open>count\<close> what it does to count a
  request and \<open>onerr\<close> what it does when \<open>Accept\<close> fails. A served connection whose write half
  is shut down (\<^const>\<open>ServedDeaf\<close>) never gets its reply.\<close>

definition accept_turn ::
  "('a Endpoint_scheme \<Rightarrow> 'a Endpoint_scheme) \<Rightarrow> ('a Endpoint_scheme \<Rightarrow> 'a Endpoint_scheme) \<Rightarrow>
   ('a Endpoint_scheme \<Rightarrow> 'a Endpoint_scheme) \<Rightarrow> accepting \<Rightarrow> 'a Endpoint_scheme \<Rightarrow>
   conn_fate \<times> 'a Endpoint_scheme" where
  "accept_turn kill count onerr a s =
     (let s = (if killed a then kill s else s) in
      if conn_ok a \<and> \<not> isdead s then
        (if isunreliable s \<and> rnd1 a mod 1000 < 100 then (Closed, s)
         else if isunreliable s \<and> rnd2 a mod 1000 < 200 then (ServedDeaf, count s)
         else (Served, count s))
      else if conn_ok a then (Closed, s)
      else (NoConn, if \<not> isdead s then onerr s else s))"

text \<open>The loop: it ends when the server is found dead, or when the inputs end.\<close>

fun accept_loop ::
  "(accepting \<Rightarrow> 'a Endpoint_scheme \<Rightarrow> conn_fate \<times> 'a Endpoint_scheme) \<Rightarrow> accepting list \<Rightarrow>
   'a Endpoint_scheme \<Rightarrow> conn_fate list \<times> 'a Endpoint_scheme" where
  "accept_loop turn [] s = ([], s)"
| "accept_loop turn (a # as) s =
     (if isdead s then ([], s)
      else let (f, s1) = turn a s; (fs, s2) = accept_loop turn as s1 in (f # fs, s2))"

definition served :: "conn_fate \<Rightarrow> bool" where
  "served f \<longleftrightarrow> f = Served \<or> f = ServedDeaf"

section \<open>The servers\<close>

subsection \<open>Paxos\<close>

datatype Fate = Decided | Pending | Forgotten

record Paxos = Endpoint +
  px_peers :: "string list"
  px_me :: int

text \<open>Closing a listener that is nil is guarded in the code; a peer without one has
  \<^const>\<open>listener\<close> false, so the guarded close is a close.\<close>

definition px_Kill :: "Paxos \<Rightarrow> Paxos" where
  "px_Kill px = (let px = px\<lparr>dead := 1\<rparr> in if listener px then close_listener px else px)"

text \<open>\<open>Make\<close>: with an RPC server of the caller it only registers; without one it listens on its
  own port. \<open>listen\<close> says whether \<open>net.Listen\<close> succeeds.\<close>

definition px_Make :: "(string \<Rightarrow> bool) \<Rightarrow> string list \<Rightarrow> int \<Rightarrow> bool \<Rightarrow> Paxos go" where
  "px_Make listen peers me own =
     (let px = \<lparr>dead = 0, unreliable = 0, rpcCount = 0, listener = False, px_peers = peers, px_me = me\<rparr> in
      if own then
        gbind (go_idx peers me) (\<lambda>port.
        if listen port then Inr (px\<lparr>listener := True\<rparr>) else Inl (LogFatal ''listen error: ''))
      else Inr px)"

text \<open>Unlike the other servers, a Paxos peer does not kill itself when \<open>Accept\<close> fails.\<close>

definition px_accept :: "accepting \<Rightarrow> Paxos \<Rightarrow> conn_fate \<times> Paxos" where
  "px_accept = accept_turn px_Kill (\<lambda>px. px\<lparr>rpcCount := rpcCount px + 1\<rparr>) (\<lambda>px. px)"

subsection \<open>Primary/backup and view service\<close>

record PBServer = Endpoint +
  pb_me :: string
  pb_vshost :: string

definition pb_kill :: "PBServer \<Rightarrow> PBServer" where
  "pb_kill pb = close_listener (pb\<lparr>dead := 1\<rparr>)"

definition pb_StartServer :: "(string \<Rightarrow> bool) \<Rightarrow> string \<Rightarrow> string \<Rightarrow> PBServer go" where
  "pb_StartServer listen vshost me =
     (if listen me then
        Inr \<lparr>dead = 0, unreliable = 0, rpcCount = 0, listener = True, pb_me = me, pb_vshost = vshost\<rparr>
      else Inl (LogFatal ''listen error: ''))"

definition pb_accept :: "accepting \<Rightarrow> PBServer \<Rightarrow> conn_fate \<times> PBServer" where
  "pb_accept = accept_turn pb_kill (\<lambda>pb. pb) pb_kill"

record ViewServer = Endpoint +
  vs_me :: string

definition vs_Kill :: "ViewServer \<Rightarrow> ViewServer" where
  "vs_Kill vs = close_listener (vs\<lparr>dead := 1\<rparr>)"

definition GetRPCCount :: "ViewServer \<Rightarrow> int" where
  "GetRPCCount vs = sint (rpcCount vs)"

definition vs_StartServer :: "(string \<Rightarrow> bool) \<Rightarrow> string \<Rightarrow> ViewServer go" where
  "vs_StartServer listen me =
     (if listen me then
        Inr \<lparr>dead = 0, unreliable = 0, rpcCount = 0, listener = True, vs_me = me\<rparr>
      else Inl (LogFatal ''listen error: ''))"

text \<open>The view server has no unreliable mode.\<close>

definition vs_accept :: "accepting \<Rightarrow> ViewServer \<Rightarrow> conn_fate \<times> ViewServer" where
  "vs_accept a vs =
     (let vs = (if killed a then vs_Kill vs else vs) in
      if conn_ok a \<and> \<not> isdead vs then (Served, vs\<lparr>rpcCount := rpcCount vs + 1\<rparr>)
      else if conn_ok a then (Closed, vs)
      else (NoConn, if \<not> isdead vs then vs_Kill vs else vs))"

subsection \<open>Servers on top of Paxos\<close>

record KVPaxos = Endpoint +
  kp_me :: int
  kp_px :: Paxos

definition kp_kill :: "KVPaxos \<Rightarrow> KVPaxos" where
  "kp_kill kv = (close_listener (kv\<lparr>dead := 1\<rparr>))\<lparr>kp_px := px_Kill (kp_px kv)\<rparr>"

definition kp_StartServer :: "(string \<Rightarrow> bool) \<Rightarrow> string list \<Rightarrow> int \<Rightarrow> KVPaxos go" where
  "kp_StartServer listen servers me =
     gbind (px_Make listen servers me False) (\<lambda>px.
     gbind (go_idx servers me) (\<lambda>port.
     if listen port then
       Inr \<lparr>dead = 0, unreliable = 0, rpcCount = 0, listener = True, kp_me = me, kp_px = px\<rparr>
     else Inl (LogFatal ''listen error: '')))"

definition kp_accept :: "accepting \<Rightarrow> KVPaxos \<Rightarrow> conn_fate \<times> KVPaxos" where
  "kp_accept = accept_turn kp_kill (\<lambda>kv. kv) kp_kill"

record ShardKV = Endpoint +
  sk_me :: int
  sk_px :: Paxos
  sk_gid :: int
  sk_masters :: "string list"

definition sk_kill :: "ShardKV \<Rightarrow> ShardKV" where
  "sk_kill kv = (close_listener (kv\<lparr>dead := 1\<rparr>))\<lparr>sk_px := px_Kill (sk_px kv)\<rparr>"

definition sk_StartServer ::
  "(string \<Rightarrow> bool) \<Rightarrow> int \<Rightarrow> string list \<Rightarrow> string list \<Rightarrow> int \<Rightarrow> ShardKV go" where
  "sk_StartServer listen gid shardmasters servers me =
     gbind (px_Make listen servers me False) (\<lambda>px.
     gbind (go_idx servers me) (\<lambda>port.
     if listen port then
       Inr \<lparr>dead = 0, unreliable = 0, rpcCount = 0, listener = True, sk_me = me, sk_px = px,
            sk_gid = gid, sk_masters = shardmasters\<rparr>
     else Inl (LogFatal ''listen error: '')))"

definition sk_accept :: "accepting \<Rightarrow> ShardKV \<Rightarrow> conn_fate \<times> ShardKV" where
  "sk_accept = accept_turn sk_kill (\<lambda>kv. kv) sk_kill"

record DisKV = Endpoint +
  kv_me :: int
  kv_px :: Paxos
  kv_gid :: int
  kv_masters :: "string list"
  kv_dir :: string

definition kv_kill :: "DisKV \<Rightarrow> DisKV" where
  "kv_kill kv = (close_listener (kv\<lparr>dead := 1\<rparr>))\<lparr>kv_px := px_Kill (kv_px kv)\<rparr>"

text \<open>The argument \<open>restart\<close> is not used.\<close>

definition kv_StartServer ::
  "(string \<Rightarrow> bool) \<Rightarrow> int \<Rightarrow> string list \<Rightarrow> string list \<Rightarrow> int \<Rightarrow> string \<Rightarrow> bool \<Rightarrow> DisKV go" where
  "kv_StartServer listen gid shardmasters servers me dir restart =
     gbind (px_Make listen servers me False) (\<lambda>px.
     gbind (go_idx servers me) (\<lambda>port.
     if listen port then
       Inr \<lparr>dead = 0, unreliable = 0, rpcCount = 0, listener = True, kv_me = me, kv_px = px,
            kv_gid = gid, kv_masters = shardmasters, kv_dir = dir\<rparr>
     else Inl (LogFatal ''listen error: '')))"

definition kv_accept :: "accepting \<Rightarrow> DisKV \<Rightarrow> conn_fate \<times> DisKV" where
  "kv_accept = accept_turn kv_kill (\<lambda>kv. kv) kv_kill"

section \<open>What the loops guarantee\<close>

text \<open>The contract of an accept loop: a killed server is dead and stays dead, a dead server
  serves nothing, and a live reliable server serves every connection and stays as it is.\<close>

locale accept_server =
  fixes kill :: "'a Endpoint_scheme \<Rightarrow> 'a Endpoint_scheme"
    and turn :: "accepting \<Rightarrow> 'a Endpoint_scheme \<Rightarrow> conn_fate \<times> 'a Endpoint_scheme"
  assumes kill_dead: "isdead (kill s)"
    and served_live: "served (fst (turn a s)) \<Longrightarrow> conn_ok a \<and> \<not> killed a \<and> \<not> isdead s"
    and killed_dead: "killed a \<or> isdead s \<Longrightarrow> isdead (snd (turn a s))"
    and reliable_serves: "\<not> isdead s \<Longrightarrow> \<not> isunreliable s \<Longrightarrow> conn_ok a \<Longrightarrow> \<not> killed a \<Longrightarrow>
      fst (turn a s) = Served \<and> \<not> isdead (snd (turn a s)) \<and> \<not> isunreliable (snd (turn a s))"
begin

lemma loop_dead: "isdead s \<Longrightarrow> accept_loop turn as s = ([], s)"
  by (cases as) simp_all

lemma loop_killed: "accept_loop turn as (kill s) = ([], kill s)"
  by (rule loop_dead) (rule kill_dead)

lemma loop_reliable:
  assumes "\<not> isdead s" and "\<not> isunreliable s" and "\<forall>a\<in>set as. conn_ok a \<and> \<not> killed a"
  shows "fst (accept_loop turn as s) = replicate (length as) Served"
  using assms
proof (induction as arbitrary: s)
  case (Cons a as)
  obtain f s1 where t: "turn a s = (f, s1)" by (cases "turn a s")
  have a: "conn_ok a" "\<not> killed a" and as: "\<forall>a\<in>set as. conn_ok a \<and> \<not> killed a"
    using Cons.prems(3) by simp_all
  from reliable_serves [OF Cons.prems(1,2) a]
  have f: "f = Served" and s1: "\<not> isdead s1" "\<not> isunreliable s1" unfolding t by simp_all
  have "fst (accept_loop turn (a # as) s) = f # fst (accept_loop turn as s1)"
    using Cons.prems(1) t by (simp add: case_prod_beta)
  with Cons.IH [OF s1 as] f show ?case by simp
qed simp

lemma loop_stops:
  assumes "killed a"
  shows "length (filter served (fst (accept_loop turn (as @ a # bs) s))) \<le> length as \<and>
    fst (accept_loop turn (as @ a # bs) s) = fst (accept_loop turn (as @ [a]) s)"
proof (induction as arbitrary: s)
  case Nil
  obtain f s1 where t: "turn a s = (f, s1)" by (cases "turn a s")
  have "\<not> served f" using served_live [of a s] assms t by auto
  moreover have "isdead s1" using killed_dead [of a s] assms t by auto
  ultimately show ?case using t by (simp add: loop_dead)
next
  case (Cons x as)
  obtain f s1 where t: "turn x s = (f, s1)" by (cases "turn x s")
  have "length (filter served (fst (accept_loop turn (as @ a # bs) s1))) \<le> length as"
    and eq: "fst (accept_loop turn (as @ a # bs) s1) = fst (accept_loop turn (as @ [a]) s1)"
    using Cons.IH [of s1] by blast+
  then have "length (filter served (f # fst (accept_loop turn (as @ a # bs) s1))) \<le> Suc (length as)"
    by simp
  with eq t show ?case by (simp add: case_prod_beta)
qed

end

locale counting_server = accept_server +
  assumes turn_count: "rpcCount (snd (turn a s)) = rpcCount s + (if served (fst (turn a s)) then 1 else 0)"
begin

lemma loop_count:
  "rpcCount (snd (accept_loop turn as s)) =
     rpcCount s + of_nat (length (filter served (fst (accept_loop turn as s))))"
proof (induction as arbitrary: s)
  case (Cons a as)
  obtain f s1 where t: "turn a s = (f, s1)" by (cases "turn a s")
  have "rpcCount s1 = rpcCount s + (if served f then 1 else 0)" using turn_count [of a s] t by simp
  with Cons [of s1] t show ?case by (simp add: case_prod_beta)
qed simp

end

text \<open>What makes a turn an instance of the contract.\<close>

definition proper :: "('a Endpoint_scheme \<Rightarrow> 'a Endpoint_scheme) \<Rightarrow> bool" where
  "proper count \<longleftrightarrow> (\<forall>s. dead (count s) = dead s \<and> unreliable (count s) = unreliable s)"

lemma accept_turn_server:
  assumes "\<And>s. isdead (kill s)" and "proper count" and "onerr = kill \<or> onerr = (\<lambda>s. s)"
  shows "accept_server kill (accept_turn kill count onerr)"
proof
  have c: "isdead (count s) = isdead s" "isunreliable (count s) = isunreliable s" for s
    using assms(2) by (simp_all add: proper_def isdead_def isunreliable_def)
  fix s a
  show "isdead (kill s)" by (rule assms(1))
  show "conn_ok a \<and> \<not> killed a \<and> \<not> isdead s" if "served (fst (accept_turn kill count onerr a s))"
    using that assms(1) by (auto simp: accept_turn_def Let_def served_def split: if_splits)
  show "isdead (snd (accept_turn kill count onerr a s))" if "killed a \<or> isdead s"
    using that assms(1) by (auto simp: accept_turn_def Let_def)
  show "fst (accept_turn kill count onerr a s) = Served \<and> \<not> isdead (snd (accept_turn kill count onerr a s)) \<and>
      \<not> isunreliable (snd (accept_turn kill count onerr a s))"
    if "\<not> isdead s" "\<not> isunreliable s" "conn_ok a" "\<not> killed a"
    using that by (simp add: accept_turn_def c)
qed

lemmas kill_defs = isdead_def close_listener_def px_Kill_def pb_kill_def vs_Kill_def kp_kill_def
  sk_kill_def kv_kill_def Let_def

lemma kills_dead: "isdead (kp_kill kp)" "isdead (sk_kill sk)" "isdead (kv_kill kv)"
  by (cases kp, simp add: kill_defs) (cases sk, simp add: kill_defs, cases kv, simp add: kill_defs)

interpretation pb: accept_server pb_kill pb_accept
  unfolding pb_accept_def by (rule accept_turn_server) (simp_all add: kill_defs proper_def)

interpretation kp: accept_server kp_kill kp_accept
  unfolding kp_accept_def by (rule accept_turn_server) (simp_all add: kills_dead proper_def)

interpretation sk: accept_server sk_kill sk_accept
  unfolding sk_accept_def by (rule accept_turn_server) (simp_all add: kills_dead proper_def)

interpretation dkv: accept_server kv_kill kv_accept
  unfolding kv_accept_def by (rule accept_turn_server) (simp_all add: kills_dead proper_def)

interpretation px: counting_server px_Kill px_accept
proof (rule counting_server.intro)
  show "accept_server px_Kill px_accept"
    unfolding px_accept_def by (rule accept_turn_server) (simp_all add: kill_defs proper_def)
  show "counting_server_axioms px_accept"
    by unfold_locales (simp add: px_accept_def accept_turn_def kill_defs served_def)
qed

interpretation vs: counting_server vs_Kill vs_accept
proof
  fix s a
  show "isdead (vs_Kill s)" by (simp add: kill_defs)
  show "conn_ok a \<and> \<not> killed a \<and> \<not> isdead s" if "served (fst (vs_accept a s))"
    using that by (auto simp: vs_accept_def kill_defs served_def split: if_splits)
  show "isdead (snd (vs_accept a s))" if "killed a \<or> isdead s"
    using that by (auto simp: vs_accept_def kill_defs)
  show "fst (vs_accept a s) = Served \<and> \<not> isdead (snd (vs_accept a s)) \<and> \<not> isunreliable (snd (vs_accept a s))"
    if "\<not> isdead s" "\<not> isunreliable s" "conn_ok a" "\<not> killed a"
    using that by (simp add: vs_accept_def isdead_def isunreliable_def)
  show "rpcCount (snd (vs_accept a s)) = rpcCount s + (if served (fst (vs_accept a s)) then 1 else 0)"
    by (simp add: vs_accept_def kill_defs served_def)
qed

end
