(* ===== verification/Shard_Clerk.thy ===== *)
theory Shard_Clerk
  imports Rpc_Client
begin

text \<open>
  The clients of the sharded key/value services: the shardmaster clerks
  (\<^verbatim>\<open>src/shardmaster/client.go\<close> over labrpc, \<^verbatim>\<open>src/paxos-shardmaster/client.go\<close> over sockets)
  and the key/value clerks (\<^verbatim>\<open>src/shardkv/client.go\<close>, \<^verbatim>\<open>src/diskv/client.go\<close>). The servers
  behind them are empty in the source, so the answers to the calls are arguments.
\<close>

section \<open>Shardmaster: common.go and client.go\<close>

definition NShards :: int where
  "NShards = 10"

record Config =
  Num :: int
  Shards :: "int list"
  Groups :: "int \<rightharpoonup> string list"

text \<open>\<open>Shards\<close> is an array of \<open>NShards\<close> elements.\<close>

definition config_ok :: "Config \<Rightarrow> bool" where
  "config_ok cfg \<longleftrightarrow> int (length (Shards cfg)) = NShards"

definition zero_config :: Config where
  "zero_config = \<lparr>Num = 0, Shards = replicate (nat NShards) 0, Groups = Map.empty\<rparr>"

record JoinArgs =
  JA_Servers :: "(int \<times> string list) list"

record LeaveArgs =
  LA_GIDs :: "int list"

record MoveArgs =
  MA_Shard :: int
  MA_GID :: int

record QueryArgs =
  QA_Num :: int

text \<open>The replies of \<open>Join\<close>, \<open>Leave\<close> and \<open>Move\<close> have the same two fields.\<close>

record MasterReply =
  WrongLeader :: bool
  Err :: string

record QueryReply = MasterReply +
  QR_Config :: Config

text \<open>\<open>servers\<close> are the clerk's client ends and \<open>c srv args\<close> is a call on one of them.\<close>

definition Query ::
  "('s \<Rightarrow> QueryArgs \<Rightarrow> 'w \<Rightarrow> QueryReply option \<times> 'w) \<Rightarrow> ('w \<Rightarrow> 'w) \<Rightarrow> 's list \<Rightarrow> nat \<Rightarrow> int \<Rightarrow> 'w \<Rightarrow>
   Config option \<times> 'w" where
  "Query c sleep servers n num w =
     (let args = \<lparr>QA_Num = num\<rparr> in
      apfst (map_option QR_Config)
        (retry (try_servers (\<lambda>srv. c srv args) (\<lambda>reply. \<not> WrongLeader reply) (\<lambda>reply. False) servers)
          sleep n w))"

definition Join ::
  "('s \<Rightarrow> JoinArgs \<Rightarrow> 'w \<Rightarrow> MasterReply option \<times> 'w) \<Rightarrow> ('w \<Rightarrow> 'w) \<Rightarrow> 's list \<Rightarrow> nat \<Rightarrow>
   (int \<times> string list) list \<Rightarrow> 'w \<Rightarrow> unit option \<times> 'w" where
  "Join c sleep servers n svs w =
     (let args = \<lparr>JA_Servers = svs\<rparr> in
      apfst (map_option (\<lambda>reply. ()))
        (retry (try_servers (\<lambda>srv. c srv args) (\<lambda>reply. \<not> WrongLeader reply) (\<lambda>reply. False) servers)
          sleep n w))"

definition Leave ::
  "('s \<Rightarrow> LeaveArgs \<Rightarrow> 'w \<Rightarrow> MasterReply option \<times> 'w) \<Rightarrow> ('w \<Rightarrow> 'w) \<Rightarrow> 's list \<Rightarrow> nat \<Rightarrow>
   int list \<Rightarrow> 'w \<Rightarrow> unit option \<times> 'w" where
  "Leave c sleep servers n gids w =
     (let args = \<lparr>LA_GIDs = gids\<rparr> in
      apfst (map_option (\<lambda>reply. ()))
        (retry (try_servers (\<lambda>srv. c srv args) (\<lambda>reply. \<not> WrongLeader reply) (\<lambda>reply. False) servers)
          sleep n w))"

definition Move ::
  "('s \<Rightarrow> MoveArgs \<Rightarrow> 'w \<Rightarrow> MasterReply option \<times> 'w) \<Rightarrow> ('w \<Rightarrow> 'w) \<Rightarrow> 's list \<Rightarrow> nat \<Rightarrow>
   int \<Rightarrow> int \<Rightarrow> 'w \<Rightarrow> unit option \<times> 'w" where
  "Move c sleep servers n shard gid w =
     (let args = \<lparr>MA_Shard = shard, MA_GID = gid\<rparr> in
      apfst (map_option (\<lambda>reply. ()))
        (retry (try_servers (\<lambda>srv. c srv args) (\<lambda>reply. \<not> WrongLeader reply) (\<lambda>reply. False) servers)
          sleep n w))"

section \<open>The socket version of the shardmaster clerk\<close>

record paxos_JoinArgs =
  PJ_GID :: int
  PJ_Servers :: "string list"

text \<open>The replies of \<open>Join\<close>, \<open>Leave\<close> and \<open>Move\<close> have no field, that of \<open>Query\<close> has the
  configuration: any reply ends the loop. \<open>c srv name args\<close> is the function \<open>call\<close>.\<close>

definition paxos_Query ::
  "(string \<Rightarrow> string \<Rightarrow> QueryArgs \<Rightarrow> 'w \<Rightarrow> Config option \<times> 'w) \<Rightarrow> ('w \<Rightarrow> 'w) \<Rightarrow> string list \<Rightarrow> nat \<Rightarrow> int \<Rightarrow>
   'w \<Rightarrow> Config option \<times> 'w" where
  "paxos_Query c sleep servers n num =
     retry (try_servers (\<lambda>srv. c srv ''ShardMaster.Query'' \<lparr>QA_Num = num\<rparr>)
       (\<lambda>reply. True) (\<lambda>reply. False) servers) sleep n"

definition paxos_Join ::
  "(string \<Rightarrow> string \<Rightarrow> paxos_JoinArgs \<Rightarrow> 'w \<Rightarrow> unit option \<times> 'w) \<Rightarrow> ('w \<Rightarrow> 'w) \<Rightarrow> string list \<Rightarrow> nat \<Rightarrow> int \<Rightarrow>
   string list \<Rightarrow> 'w \<Rightarrow> unit option \<times> 'w" where
  "paxos_Join c sleep servers n gid svs =
     retry (try_servers (\<lambda>srv. c srv ''ShardMaster.Join'' \<lparr>PJ_GID = gid, PJ_Servers = svs\<rparr>)
       (\<lambda>reply. True) (\<lambda>reply. False) servers) sleep n"

definition paxos_Leave ::
  "(string \<Rightarrow> string \<Rightarrow> int \<Rightarrow> 'w \<Rightarrow> unit option \<times> 'w) \<Rightarrow> ('w \<Rightarrow> 'w) \<Rightarrow> string list \<Rightarrow> nat \<Rightarrow> int \<Rightarrow>
   'w \<Rightarrow> unit option \<times> 'w" where
  "paxos_Leave c sleep servers n gid =
     retry (try_servers (\<lambda>srv. c srv ''ShardMaster.Leave'' gid)
       (\<lambda>reply. True) (\<lambda>reply. False) servers) sleep n"

definition paxos_Move ::
  "(string \<Rightarrow> string \<Rightarrow> MoveArgs \<Rightarrow> 'w \<Rightarrow> unit option \<times> 'w) \<Rightarrow> ('w \<Rightarrow> 'w) \<Rightarrow> string list \<Rightarrow> nat \<Rightarrow> int \<Rightarrow> int \<Rightarrow>
   'w \<Rightarrow> unit option \<times> 'w" where
  "paxos_Move c sleep servers n shard gid =
     retry (try_servers (\<lambda>srv. c srv ''ShardMaster.Move'' \<lparr>MA_Shard = shard, MA_GID = gid\<rparr>)
       (\<lambda>reply. True) (\<lambda>reply. False) servers) sleep n"

section \<open>Key/value clerks\<close>

definition key2shard :: "string \<Rightarrow> int" where
  "key2shard key =
     (let shard = 0; shard = (if 0 < length key then of_char (key ! 0) else shard)
      in shard mod NShards)"

record GetArgs =
  GA_Key :: string

record PutAppendArgs =
  PA_Key :: string
  PA_Value :: string
  PA_Op :: string

record PutAppendReply =
  PR_WrongLeader :: bool
  PR_Err :: string

record GetReply =
  GR_WrongLeader :: bool
  GR_Err :: string
  GR_Value :: string

text \<open>The loop that \<open>Get\<close> and \<open>PutAppend\<close> share: one pass over the servers of the group that
  the clerk's configuration assigns the key's shard to, then a pause and the latest
  configuration (\<open>query\<close>). The result is the reply that ended the loop, the clerk's
  configuration and the world.\<close>

primrec shard_loop ::
  "(string \<Rightarrow> 'w \<Rightarrow> 'r option \<times> 'w) \<Rightarrow> ('r \<Rightarrow> bool) \<Rightarrow> ('r \<Rightarrow> bool) \<Rightarrow> ('w \<Rightarrow> Config option \<times> 'w) \<Rightarrow>
   ('w \<Rightarrow> 'w) \<Rightarrow> string \<Rightarrow> nat \<Rightarrow> Config \<Rightarrow> 'w \<Rightarrow> ('r option \<times> Config \<times> 'w) go" where
  "shard_loop c good stop query sleep key 0 cfg w = Inr (None, cfg, w)"
| "shard_loop c good stop query sleep key (Suc n) cfg w =
     gbind (go_idx (Shards cfg) (key2shard key)) (\<lambda>gid.
     case (case Groups cfg gid of
             None \<Rightarrow> (None, w)
           | Some servers \<Rightarrow> try_servers c good stop servers w) of
       (Some reply, w) \<Rightarrow> Inr (Some reply, cfg, w)
     | (None, w) \<Rightarrow>
         (case query (sleep w) of
            (None, w) \<Rightarrow> Inr (None, cfg, w)
          | (Some cfg, w) \<Rightarrow> shard_loop c good stop query sleep key n cfg w))"

text \<open>The clerk of \<^verbatim>\<open>src/shardkv/client.go\<close>: \<open>c srv args\<close> is the call on the client end that
  \<open>make_end\<close> returns for the server.\<close>

definition Get ::
  "(string \<Rightarrow> GetArgs \<Rightarrow> 'w \<Rightarrow> GetReply option \<times> 'w) \<Rightarrow> ('w \<Rightarrow> Config option \<times> 'w) \<Rightarrow> ('w \<Rightarrow> 'w) \<Rightarrow>
   string \<Rightarrow> nat \<Rightarrow> Config \<Rightarrow> 'w \<Rightarrow> (string option \<times> Config \<times> 'w) go" where
  "Get c query sleep key n cfg w =
     (let args = \<lparr>GA_Key = key\<rparr> in
      gbind (shard_loop (\<lambda>srv. c srv args)
        (\<lambda>reply. \<not> GR_WrongLeader reply \<and> (GR_Err reply = ''OK'' \<or> GR_Err reply = ''ErrNoKey''))
        (\<lambda>reply. GR_Err reply = ''ErrWrongGroup'') query sleep key n cfg w) (\<lambda>(reply, s).
      Inr (map_option GR_Value reply, s)))"

definition PutAppend ::
  "(string \<Rightarrow> PutAppendArgs \<Rightarrow> 'w \<Rightarrow> PutAppendReply option \<times> 'w) \<Rightarrow> ('w \<Rightarrow> Config option \<times> 'w) \<Rightarrow>
   ('w \<Rightarrow> 'w) \<Rightarrow> string \<Rightarrow> string \<Rightarrow> string \<Rightarrow> nat \<Rightarrow> Config \<Rightarrow> 'w \<Rightarrow> (unit option \<times> Config \<times> 'w) go" where
  "PutAppend c query sleep key val op n cfg w =
     (let args = \<lparr>PA_Key = key, PA_Value = val, PA_Op = op\<rparr> in
      gbind (shard_loop (\<lambda>srv. c srv args)
        (\<lambda>reply. \<not> PR_WrongLeader reply \<and> PR_Err reply = ''OK'')
        (\<lambda>reply. PR_Err reply = ''ErrWrongGroup'') query sleep key n cfg w) (\<lambda>(reply, s).
      Inr (map_option (\<lambda>reply. ()) reply, s)))"

definition Put where
  "Put c query sleep key val = PutAppend c query sleep key val ''Put''"

definition Append where
  "Append c query sleep key val = PutAppend c query sleep key val ''Append''"

text \<open>The clerk of \<^verbatim>\<open>src/diskv/client.go\<close>: the replies have no \<open>WrongLeader\<close>, and the calls go
  over sockets.\<close>

record dkv_PutAppendReply =
  DP_Err :: string

record dkv_GetReply =
  DG_Err :: string
  DG_Value :: string

definition dkv_Get ::
  "(string \<Rightarrow> string \<Rightarrow> GetArgs \<Rightarrow> 'w \<Rightarrow> dkv_GetReply option \<times> 'w) \<Rightarrow> ('w \<Rightarrow> Config option \<times> 'w) \<Rightarrow>
   ('w \<Rightarrow> 'w) \<Rightarrow> string \<Rightarrow> nat \<Rightarrow> Config \<Rightarrow> 'w \<Rightarrow> (string option \<times> Config \<times> 'w) go" where
  "dkv_Get c query sleep key n cfg w =
     (let args = \<lparr>GA_Key = key\<rparr> in
      gbind (shard_loop (\<lambda>srv. c srv ''DisKV.Get'' args)
        (\<lambda>reply. DG_Err reply = ''OK'' \<or> DG_Err reply = ''ErrNoKey'')
        (\<lambda>reply. DG_Err reply = ''ErrWrongGroup'') query sleep key n cfg w) (\<lambda>(reply, s).
      Inr (map_option DG_Value reply, s)))"

definition dkv_PutAppend ::
  "(string \<Rightarrow> string \<Rightarrow> PutAppendArgs \<Rightarrow> 'w \<Rightarrow> dkv_PutAppendReply option \<times> 'w) \<Rightarrow>
   ('w \<Rightarrow> Config option \<times> 'w) \<Rightarrow> ('w \<Rightarrow> 'w) \<Rightarrow> string \<Rightarrow> string \<Rightarrow> string \<Rightarrow> nat \<Rightarrow> Config \<Rightarrow> 'w \<Rightarrow>
   (unit option \<times> Config \<times> 'w) go" where
  "dkv_PutAppend c query sleep key val op n cfg w =
     (let args = \<lparr>PA_Key = key, PA_Value = val, PA_Op = op\<rparr> in
      gbind (shard_loop (\<lambda>srv. c srv ''DisKV.PutAppend'' args)
        (\<lambda>reply. DP_Err reply = ''OK'') (\<lambda>reply. DP_Err reply = ''ErrWrongGroup'')
        query sleep key n cfg w) (\<lambda>(reply, s).
      Inr (map_option (\<lambda>reply. ()) reply, s)))"

definition dkv_Put where
  "dkv_Put c query sleep key val = dkv_PutAppend c query sleep key val ''Put''"

definition dkv_Append where
  "dkv_Append c query sleep key val = dkv_PutAppend c query sleep key val ''Append''"

section \<open>What the clerks return\<close>

lemma key2shard_range: "0 \<le> key2shard key" "key2shard key < NShards"
  by (simp_all add: key2shard_def NShards_def Let_def)

lemma shard_index:
  assumes "config_ok cfg"
  obtains gid where "go_idx (Shards cfg) (key2shard key) = Inr gid"
  using assms key2shard_range [of key] by (auto simp: config_ok_def go_idx_def)

text \<open>The configurations that a clerk may come to hold.\<close>

definition held :: "('w \<Rightarrow> Config option \<times> 'w) \<Rightarrow> Config \<Rightarrow> Config \<Rightarrow> bool" where
  "held query cfg0 cfg \<longleftrightarrow> cfg = cfg0 \<or> (\<exists>u. fst (query u) = Some cfg)"

lemma shard_loop_no_panic:
  assumes "config_ok cfg" and "\<And>u cfg'. fst (query u) = Some cfg' \<Longrightarrow> config_ok cfg'"
  shows "\<exists>res. shard_loop c good stop query sleep key n cfg w = Inr res"
  using assms(1)
proof (induction n arbitrary: cfg w)
  case (Suc n)
  from shard_index [OF Suc.prems] obtain gid where g: "go_idx (Shards cfg) (key2shard key) = Inr gid" .
  have "\<exists>res. shard_loop c good stop query sleep key n cfg' u = Inr res" if "fst (query v) = Some cfg'" for cfg' u v
    using Suc.IH assms(2) that by blast
  with g show ?case by (auto split: prod.splits option.splits) (metis fst_conv)+
qed simp

text \<open>A reply ends the loop only if it is good and comes from a server of the group to which a
  configuration the clerk held assigns the shard of the key.\<close>

lemma shard_loop_reply:
  assumes "shard_loop c good stop query sleep key n cfg w = Inr (Some r, cfg', w')"
  shows "good r \<and> held query cfg cfg' \<and>
    (\<exists>gid servers srv u. go_idx (Shards cfg') (key2shard key) = Inr gid \<and> Groups cfg' gid = Some servers \<and>
      srv \<in> set servers \<and> c srv u = (Some r, w'))"
  using assms
proof (induction n arbitrary: cfg w)
  case (Suc n)
  obtain gid where g: "go_idx (Shards cfg) (key2shard key) = Inr gid"
    using Suc.prems by (cases "go_idx (Shards cfg) (key2shard key)") auto
  let ?t = "case Groups cfg gid of None \<Rightarrow> (None, w) | Some servers \<Rightarrow> try_servers c good stop servers w"
  obtain o1 w1 where t: "?t = (o1, w1)" by (cases ?t)
  show ?case
  proof (cases o1)
    case (Some r1)
    with t obtain servers where s: "Groups cfg gid = Some servers" "try_servers c good stop servers w = (Some r1, w1)"
      by (auto split: option.splits)
    moreover have "cfg' = cfg" "r1 = r" "w1 = w'" using Suc.prems g t Some by auto
    ultimately show ?thesis using try_servers_reply [OF s(2)] g by (auto simp: held_def)
  next
    case None
    obtain o2 w2 where q: "query (sleep w1) = (o2, w2)" by (cases "query (sleep w1)")
    with Suc.prems g t None obtain cfg2 where c2: "o2 = Some cfg2"
      "shard_loop c good stop query sleep key n cfg2 w2 = Inr (Some r, cfg', w')"
      by (auto split: option.splits)
    moreover have "held query cfg cfg2" using q c2(1) by (auto simp: held_def intro: exI [of _ "sleep w1"])
    ultimately show ?thesis using Suc.IH [OF c2(2)] by (auto simp: held_def)
  qed
qed simp

text \<open>When the group that serves the key answers, one round is enough.\<close>

lemma shard_loop_answers:
  assumes "go_idx (Shards cfg) (key2shard key) = Inr gid" and "Groups cfg gid = Some servers"
    and "will_answer c good stop servers L" and "w \<in> L" and "0 < n"
  shows "\<exists>r w'. shard_loop c good stop query sleep key n cfg w = Inr (Some r, cfg, w') \<and> good r"
proof -
  obtain m where m: "n = Suc m" using assms(5) by (cases n) auto
  obtain r w' where "try_servers c good stop servers w = (Some r, w')" "good r"
    using pass_answers [OF assms(3,4)] by (metis prod.collapse)
  then show ?thesis using assms(1,2) by (simp add: m)
qed

lemma Query_reply:
  assumes "Query c sleep servers n num w = (Some cfg, w')"
  shows "\<exists>srv\<in>set servers. \<exists>u r. c srv \<lparr>QA_Num = num\<rparr> u = (Some r, w') \<and> \<not> WrongLeader r \<and> QR_Config r = cfg"
proof -
  let ?p = "try_servers (\<lambda>srv. c srv \<lparr>QA_Num = num\<rparr>) (\<lambda>reply. \<not> WrongLeader reply) (\<lambda>reply. False) servers"
  obtain r where r: "retry ?p sleep n w = (Some r, w')" "QR_Config r = cfg"
    using assms by (auto simp: Query_def Let_def apfst_def map_prod_def split: prod.splits)
  from retry_reply [OF r(1)] obtain u where "?p u = (Some r, w')" by blast
  from try_servers_reply [OF this] r(2) show ?thesis by blast
qed

lemma Query_answers:
  assumes "will_answer (\<lambda>srv. c srv \<lparr>QA_Num = num\<rparr>) (\<lambda>reply. \<not> WrongLeader reply) (\<lambda>reply. False) servers L"
    and "snd (Query c sleep servers k num w) \<in> L" and "k < n"
  shows "\<exists>cfg. fst (Query c sleep servers n num w) = Some cfg"
proof -
  let ?p = "try_servers (\<lambda>srv. c srv \<lparr>QA_Num = num\<rparr>) (\<lambda>reply. \<not> WrongLeader reply) (\<lambda>reply. False) servers"
  have "snd (retry ?p sleep k w) \<in> L" using assms(2) by (simp add: Query_def Let_def)
  from retry_answers [OF assms(1) this assms(3)] show ?thesis by (auto simp: Query_def Let_def)
qed

lemma Query_closed:
  assumes "\<And>w srv. w \<in> L \<Longrightarrow> snd (c srv \<lparr>QA_Num = num\<rparr> w) \<in> L" and "\<And>w. w \<in> L \<Longrightarrow> sleep w \<in> L" and "w \<in> L"
  shows "snd (Query c sleep servers n num w) \<in> L"
proof -
  let ?p = "try_servers (\<lambda>srv. c srv \<lparr>QA_Num = num\<rparr>) (\<lambda>reply. \<not> WrongLeader reply) (\<lambda>reply. False) servers"
  have "snd (?p w) \<in> L" if "w \<in> L" for w
    by (rule try_servers_closed [OF assms(1) that])
  from retry_closed [of L ?p sleep, OF this assms(2,3)] show ?thesis by (simp add: Query_def Let_def)
qed

text \<open>A clerk with any configuration reaches the group that serves the key, in worlds in which
  the shardmaster answers with the configuration and the group answers.\<close>

lemma shard_loop_recovers:
  assumes cfg0: "config_ok cfg0"
    and closed: "\<And>w srv. w \<in> L \<Longrightarrow> snd (c srv w) \<in> L" "\<And>w. w \<in> L \<Longrightarrow> sleep w \<in> L"
    and master: "\<And>w. w \<in> L \<Longrightarrow> \<exists>w'\<in>L. query w = (Some cfg, w')"
    and grp: "go_idx (Shards cfg) (key2shard key) = Inr gid" "Groups cfg gid = Some servers"
    and ans: "will_answer c good stop servers L" and w: "w \<in> L" and n: "2 \<le> n"
  shows "\<exists>r cfg' w'. shard_loop c good stop query sleep key n cfg0 w = Inr (Some r, cfg', w') \<and> good r"
proof -
  obtain m where m: "n = Suc m" "0 < m" using n by (cases n) auto
  obtain gid0 where g: "go_idx (Shards cfg0) (key2shard key) = Inr gid0" using shard_index [OF cfg0] .
  let ?t = "case Groups cfg0 gid0 of None \<Rightarrow> (None, w) | Some servers \<Rightarrow> try_servers c good stop servers w"
  obtain o1 w1 where t: "?t = (o1, w1)" by (cases ?t)
  have "snd (try_servers c good stop srvs w) \<in> L" for srvs
    by (rule try_servers_closed [OF closed(1) w])
  then have "snd ?t \<in> L" using w by (cases "Groups cfg0 gid0") simp_all
  with t have w1: "w1 \<in> L" by (simp only: snd_conv)
  have step: "shard_loop c good stop query sleep key n cfg0 w = (case (o1, w1) of
       (Some reply, w) \<Rightarrow> Inr (Some reply, cfg0, w)
     | (None, w) \<Rightarrow>
         (case query (sleep w) of
            (None, w) \<Rightarrow> Inr (None, cfg0, w)
          | (Some cfg, w) \<Rightarrow> shard_loop c good stop query sleep key m cfg w))"
    by (simp only: m(1) shard_loop.simps g gbind_Inr t)
  show ?thesis
  proof (cases o1)
    case (Some r)
    with t obtain srvs where "try_servers c good stop srvs w = (Some r, w1)"
      by (cases "Groups cfg0 gid0") simp_all
    from try_servers_reply [OF this] have "good r" by (rule conjunct1)
    then show ?thesis unfolding step Some by simp
  next
    case None
    from master [OF closed(2) [OF w1]] obtain w2 where q: "query (sleep w1) = (Some cfg, w2)" "w2 \<in> L" by blast
    have "shard_loop c good stop query sleep key n cfg0 w =
        shard_loop c good stop query sleep key m cfg w2"
      unfolding step None by (simp add: q(1))
    with shard_loop_answers [OF grp ans q(2) m(2), of query sleep] show ?thesis by (simp only:) blast
  qed
qed

end
