(* ===== verification/Socket_Services.thy ===== *)
theory Socket_Services
  imports Rpc_Server Shard_Clerk
begin

text \<open>
  The remaining operations of the socket services: those of a Paxos peer
  (\<^verbatim>\<open>src/paxos/paxos.go\<close>), which the repository leaves empty, the shardmaster on top of Paxos
  (\<^verbatim>\<open>src/paxos-shardmaster/server.go\<close>), the clerk of \<^verbatim>\<open>src/paxos-shardkv/client.go\<close>, and the view
  service's handlers and clerk (\<^verbatim>\<open>src/viewservice\<close>). A handler with an empty body leaves its server
  as it is and replies the zero value of the reply type.
\<close>

section \<open>Operations of a Paxos peer\<close>

definition px_Start :: "int \<Rightarrow> 'v \<Rightarrow> Paxos \<Rightarrow> Paxos" where
  "px_Start seq v px = px"

definition px_Done :: "int \<Rightarrow> Paxos \<Rightarrow> Paxos" where
  "px_Done seq px = px"

definition px_Max :: "Paxos \<Rightarrow> int" where
  "px_Max px = 0"

definition px_Min :: "Paxos \<Rightarrow> int" where
  "px_Min px = 0"

definition px_Status :: "int \<Rightarrow> Paxos \<Rightarrow> Fate \<times> 'v option" where
  "px_Status seq px = (Pending, None)"

text \<open>Whatever is proposed, no instance is ever decided.\<close>

lemma px_never_decides: "px_Status seq (fold (\<lambda>(i, v). px_Start i v) ps px) = (Pending, None)"
  by (simp add: px_Status_def)

section \<open>The shardmaster on top of Paxos\<close>

record PxShardMaster = Endpoint +
  psm_me :: int
  psm_px :: Paxos
  psm_configs :: "Config list"

definition psm_Join :: "paxos_JoinArgs \<Rightarrow> PxShardMaster \<Rightarrow> PxShardMaster \<times> unit" where
  "psm_Join args sm = (sm, ())"

definition psm_Leave :: "int \<Rightarrow> PxShardMaster \<Rightarrow> PxShardMaster \<times> unit" where
  "psm_Leave gid sm = (sm, ())"

definition psm_Move :: "MoveArgs \<Rightarrow> PxShardMaster \<Rightarrow> PxShardMaster \<times> unit" where
  "psm_Move args sm = (sm, ())"

definition psm_Query :: "QueryArgs \<Rightarrow> PxShardMaster \<Rightarrow> PxShardMaster \<times> Config" where
  "psm_Query args sm = (sm, zero_config)"

definition psm_Kill :: "PxShardMaster \<Rightarrow> PxShardMaster" where
  "psm_Kill sm = (close_listener (sm\<lparr>dead := 1\<rparr>))\<lparr>psm_px := px_Kill (psm_px sm)\<rparr>"

definition psm_StartServer :: "(string \<Rightarrow> bool) \<Rightarrow> string list \<Rightarrow> int \<Rightarrow> PxShardMaster go" where
  "psm_StartServer listen servers me =
     gbind (px_Make listen servers me False) (\<lambda>px.
     gbind (go_idx servers me) (\<lambda>port.
     if listen port then
       Inr \<lparr>dead = 0, unreliable = 0, rpcCount = 0, listener = True, psm_me = me, psm_px = px,
            psm_configs = [zero_config\<lparr>Groups := Map.empty\<rparr>]\<rparr>
     else Inl (LogFatal ''listen error: '')))"

definition psm_accept :: "accepting \<Rightarrow> PxShardMaster \<Rightarrow> conn_fate \<times> PxShardMaster" where
  "psm_accept = accept_turn psm_Kill (\<lambda>sm. sm) psm_Kill"

interpretation psm: accept_server psm_Kill psm_accept
proof -
  have "isdead (psm_Kill s)" for s by (cases s) (simp add: psm_Kill_def kill_defs)
  then show "accept_server psm_Kill psm_accept"
    unfolding psm_accept_def by (rule accept_turn_server) (simp_all add: proper_def)
qed

lemma psm_start_live:
  assumes "psm_StartServer listen servers me = Inr sm" and "\<forall>a\<in>set as. conn_ok a \<and> \<not> killed a"
  shows "fst (accept_loop psm_accept as sm) = replicate (length as) Served"
proof (rule psm.loop_reliable)
  show "\<not> isdead sm" "\<not> isunreliable sm"
    using assms(1) by (auto simp: psm_StartServer_def isdead_def isunreliable_def go_simps split: if_splits)
qed (rule assms(2))

section \<open>The clerk of the sharded service on top of Paxos\<close>

definition psk_Get ::
  "(string \<Rightarrow> string \<Rightarrow> GetArgs \<Rightarrow> 'w \<Rightarrow> dkv_GetReply option \<times> 'w) \<Rightarrow> ('w \<Rightarrow> Config option \<times> 'w) \<Rightarrow>
   ('w \<Rightarrow> 'w) \<Rightarrow> string \<Rightarrow> nat \<Rightarrow> Config \<Rightarrow> 'w \<Rightarrow> (string option \<times> Config \<times> 'w) go" where
  "psk_Get c query sleep key n cfg w =
     (let args = \<lparr>GA_Key = key\<rparr> in
      gbind (shard_loop (\<lambda>srv. c srv ''ShardKV.Get'' args)
        (\<lambda>reply. DG_Err reply = ''OK'' \<or> DG_Err reply = ''ErrNoKey'')
        (\<lambda>reply. DG_Err reply = ''ErrWrongGroup'') query sleep key n cfg w) (\<lambda>(reply, s).
      Inr (map_option DG_Value reply, s)))"

definition psk_PutAppend ::
  "(string \<Rightarrow> string \<Rightarrow> PutAppendArgs \<Rightarrow> 'w \<Rightarrow> dkv_PutAppendReply option \<times> 'w) \<Rightarrow>
   ('w \<Rightarrow> Config option \<times> 'w) \<Rightarrow> ('w \<Rightarrow> 'w) \<Rightarrow> string \<Rightarrow> string \<Rightarrow> string \<Rightarrow> nat \<Rightarrow> Config \<Rightarrow> 'w \<Rightarrow>
   (unit option \<times> Config \<times> 'w) go" where
  "psk_PutAppend c query sleep key val op n cfg w =
     (let args = \<lparr>PA_Key = key, PA_Value = val, PA_Op = op\<rparr> in
      gbind (shard_loop (\<lambda>srv. c srv ''ShardKV.PutAppend'' args)
        (\<lambda>reply. DP_Err reply = ''OK'') (\<lambda>reply. DP_Err reply = ''ErrWrongGroup'')
        query sleep key n cfg w) (\<lambda>(reply, s).
      Inr (map_option (\<lambda>reply. ()) reply, s)))"

definition psk_Put where
  "psk_Put c query sleep key val = psk_PutAppend c query sleep key val ''Put''"

definition psk_Append where
  "psk_Append c query sleep key val = psk_PutAppend c query sleep key val ''Append''"

text \<open>With a shardmaster that replies the zero configuration, as the empty handler does, no shard
  has a group: the clerk asks for ever, whatever the number of rounds.\<close>

lemma shard_loop_no_groups:
  assumes "config_ok cfg" and "Groups cfg = Map.empty"
    and "\<And>u cfg'. fst (query u) = Some cfg' \<Longrightarrow> cfg' = zero_config"
  shows "\<exists>cfg' w'. shard_loop c good stop query sleep key n cfg w = Inr (None, cfg', w')"
  using assms(1,2)
proof (induction n arbitrary: cfg w)
  case (Suc n)
  from shard_index [OF Suc.prems(1)] obtain gid where g: "go_idx (Shards cfg) (key2shard key) = Inr gid" .
  obtain o1 w1 where q: "query (sleep w) = (o1, w1)" by (cases "query (sleep w)")
  have z: "config_ok zero_config" "Groups zero_config = Map.empty"
    by (simp_all add: config_ok_def zero_config_def NShards_def)
  show ?case
  proof (cases o1)
    case None
    with g q Suc.prems(2) show ?thesis by simp
  next
    case (Some cfg')
    then have "cfg' = zero_config" using assms(3) [of "sleep w" cfg'] q by simp
    with g q Some Suc.prems(2) Suc.IH [OF z, of w1] show ?thesis by simp
  qed
qed simp

lemma paxos_Query_reply:
  assumes "paxos_Query c sleep servers n num w = (Some cfg, w')"
  shows "\<exists>srv\<in>set servers. \<exists>u. c srv ''ShardMaster.Query'' \<lparr>QA_Num = num\<rparr> u = (Some cfg, w')"
proof -
  let ?p = "try_servers (\<lambda>srv. c srv ''ShardMaster.Query'' \<lparr>QA_Num = num\<rparr>) (\<lambda>reply. True) (\<lambda>reply. False) servers"
  have "retry ?p sleep n w = (Some cfg, w')" using assms unfolding paxos_Query_def .
  from retry_reply [OF this] obtain u where "?p u = (Some cfg, w')" by blast
  from try_servers_reply [OF this] show ?thesis by blast
qed

lemma psk_Get_never_returns:
  assumes "\<And>srv args u cfg u'. mc srv ''ShardMaster.Query'' args u = (Some cfg, u') \<Longrightarrow>
      \<exists>sm. cfg = snd (psm_Query args sm)"
  shows "\<exists>cfg w'. psk_Get c (paxos_Query mc sleep masters m (- 1)) sleep key n zero_config w = Inr (None, cfg, w')"
proof -
  let ?q = "paxos_Query mc sleep masters m (- 1)"
  have "cfg' = zero_config" if q: "fst (?q u) = Some cfg'" for u cfg'
  proof -
    obtain u' where "?q u = (Some cfg', u')" using q by (metis prod.collapse)
    from paxos_Query_reply [OF this] assms show ?thesis unfolding psm_Query_def by fastforce
  qed
  then have "\<exists>cfg' w'. shard_loop (\<lambda>srv. c srv ''ShardKV.Get'' \<lparr>GA_Key = key\<rparr>)
        (\<lambda>reply. DG_Err reply = ''OK'' \<or> DG_Err reply = ''ErrNoKey'')
        (\<lambda>reply. DG_Err reply = ''ErrWrongGroup'') ?q sleep key n zero_config w = Inr (None, cfg', w')"
    by (intro shard_loop_no_groups) (auto simp: config_ok_def zero_config_def NShards_def)
  then show ?thesis by (auto simp: psk_Get_def)
qed

section \<open>The view service\<close>

record View =
  vw_Viewnum :: "64 word"
  vw_Primary :: string
  vw_Backup :: string

definition zero_view :: View where
  "zero_view = \<lparr>vw_Viewnum = 0, vw_Primary = [], vw_Backup = []\<rparr>"

record PingArgs =
  PG_Me :: string
  PG_Viewnum :: "64 word"

definition vs_Ping :: "PingArgs \<Rightarrow> ViewServer \<Rightarrow> ViewServer \<times> View" where
  "vs_Ping args vs = (vs, zero_view)"

definition vs_Get :: "ViewServer \<Rightarrow> ViewServer \<times> View" where
  "vs_Get vs = (vs, zero_view)"

definition vs_tick :: "ViewServer \<Rightarrow> ViewServer" where
  "vs_tick vs = vs"

record vs_Clerk =
  vck_me :: string
  vck_server :: string

definition vs_MakeClerk :: "string \<Rightarrow> string \<Rightarrow> vs_Clerk" where
  "vs_MakeClerk me server = \<lparr>vck_me = me, vck_server = server\<rparr>"

text \<open>\<open>ping\<close> and \<open>get\<close> are the function \<open>call\<close> on the two methods. The result of \<open>Ping\<close> is a view
  and whether there is an error.\<close>

definition vck_Ping ::
  "(string \<Rightarrow> string \<Rightarrow> PingArgs \<Rightarrow> 'w \<Rightarrow> View option \<times> 'w) \<Rightarrow> vs_Clerk \<Rightarrow> 64 word \<Rightarrow> 'w \<Rightarrow> (View \<times> bool) \<times> 'w" where
  "vck_Ping ping ck viewnum w =
     (case ping (vck_server ck) ''ViewServer.Ping'' \<lparr>PG_Me = vck_me ck, PG_Viewnum = viewnum\<rparr> w of
        (None, w) \<Rightarrow> ((zero_view, True), w)
      | (Some v, w) \<Rightarrow> ((v, False), w))"

definition vck_Get :: "(string \<Rightarrow> string \<Rightarrow> unit \<Rightarrow> 'w \<Rightarrow> View option \<times> 'w) \<Rightarrow> vs_Clerk \<Rightarrow> 'w \<Rightarrow> (View \<times> bool) \<times> 'w" where
  "vck_Get get ck w =
     (case get (vck_server ck) ''ViewServer.Get'' () w of
        (None, w) \<Rightarrow> ((zero_view, False), w)
      | (Some v, w) \<Rightarrow> ((v, True), w))"

definition vck_Primary :: "(string \<Rightarrow> string \<Rightarrow> unit \<Rightarrow> 'w \<Rightarrow> View option \<times> 'w) \<Rightarrow> vs_Clerk \<Rightarrow> 'w \<Rightarrow> string \<times> 'w" where
  "vck_Primary get ck w =
     (case vck_Get get ck w of ((v, ok), w) \<Rightarrow> if ok then (vw_Primary v, w) else ([], w))"

text \<open>The primary of the view that the server holds, and the empty name when it cannot be reached
  or holds no view yet.\<close>

lemma vck_Primary_reply:
  "fst (vck_Primary get ck w) =
     (case fst (get (vck_server ck) ''ViewServer.Get'' () w) of None \<Rightarrow> [] | Some v \<Rightarrow> vw_Primary v)"
  by (cases "get (vck_server ck) ''ViewServer.Get'' () w") (auto simp: vck_Primary_def vck_Get_def split: option.split)

end
