(* ===== verification/Kv_Skeletons.thy ===== *)
theory Kv_Skeletons
  imports Socket_Services
begin

text \<open>
  The services whose request handlers are still empty in the source: the primary/backup service
  (\<^verbatim>\<open>src/pbservice\<close>), the key/value services over Paxos and over Raft (\<^verbatim>\<open>src/kvpaxos\<close>,
  \<^verbatim>\<open>src/kvraft\<close>) and the shard servers over Paxos, in memory and on disk (\<^verbatim>\<open>src/paxos-shardkv\<close>,
  \<^verbatim>\<open>src/diskv\<close>): their message types, handlers and clerks as they are, their switches, and the
  loop that runs a server's periodic work until it is killed.
\<close>

section \<open>Periodic work\<close>

text \<open>\<open>for isdead() == false { tick(); Sleep }\<close>. The list says what the rest of the program does to
  the server during each pause; the result is the server and the number of ticks.\<close>

fun tick_loop :: "('a Endpoint_scheme \<Rightarrow> 'a Endpoint_scheme) \<Rightarrow> ('a Endpoint_scheme \<Rightarrow> 'a Endpoint_scheme) list \<Rightarrow>
   'a Endpoint_scheme \<Rightarrow> 'a Endpoint_scheme \<times> nat" where
  "tick_loop tick [] s = (s, 0)"
| "tick_loop tick (pause # ps) s =
     (if isdead s then (s, 0) else let (s', n) = tick_loop tick ps (pause (tick s)) in (s', Suc n))"

text \<open>The loop ticks in every round until the server is found dead, and not once more.\<close>

locale ticker =
  fixes tick :: "'a Endpoint_scheme \<Rightarrow> 'a Endpoint_scheme"
  assumes tick_dead: "dead (tick s) = dead s"
begin

lemma ticks_alive:
  assumes "\<not> isdead s" and "\<forall>p\<in>set ps. \<forall>s. dead (p s) = dead s"
  shows "snd (tick_loop tick ps s) = length ps"
  using assms
proof (induction ps arbitrary: s)
  case (Cons p ps)
  have "\<not> isdead (p (tick s))" using Cons.prems tick_dead [of s] by (simp add: isdead_def)
  with Cons show ?case by (auto simp: case_prod_beta)
qed simp

lemma ticks_stop:
  assumes "\<not> isdead s" and "\<forall>p\<in>set ps. \<forall>s. dead (p s) = dead s" and "\<And>s. isdead (kill s)"
  shows "snd (tick_loop tick (ps @ kill # qs) s) = Suc (length ps)"
  using assms(1,2)
proof (induction ps arbitrary: s)
  case Nil
  then show ?case using assms(3) by (cases qs) simp_all
next
  case (Cons p ps)
  have "\<not> isdead (p (tick s))" using Cons.prems tick_dead [of s] by (simp add: isdead_def)
  with Cons show ?case by (auto simp: case_prod_beta)
qed

end

section \<open>The primary/backup service\<close>

record pb_PutAppendArgs =
  pPA_Key :: string
  pPA_Value :: string

record pb_PutAppendReply =
  pPR_Err :: string

record pb_GetArgs =
  pGA_Key :: string

record pb_GetReply =
  pGR_Err :: string
  pGR_Value :: string

definition pb_Get :: "pb_GetArgs \<Rightarrow> pb_GetReply \<Rightarrow> PBServer \<Rightarrow> PBServer \<times> pb_GetReply" where
  "pb_Get args reply pb = (pb, reply)"

definition pb_PutAppend :: "pb_PutAppendArgs \<Rightarrow> pb_PutAppendReply \<Rightarrow> PBServer \<Rightarrow> PBServer \<times> pb_PutAppendReply" where
  "pb_PutAppend args reply pb = (pb, reply)"

definition pb_tick :: "PBServer \<Rightarrow> PBServer" where
  "pb_tick pb = pb"

definition pb_setunreliable :: "bool \<Rightarrow> PBServer \<Rightarrow> PBServer" where
  "pb_setunreliable what pb = (if what then pb\<lparr>unreliable := 1\<rparr> else pb\<lparr>unreliable := 0\<rparr>)"

definition pb_tick_loop :: "(PBServer \<Rightarrow> PBServer) list \<Rightarrow> PBServer \<Rightarrow> PBServer \<times> nat" where
  "pb_tick_loop = tick_loop pb_tick"

record pb_Clerk =
  pbk_vs :: vs_Clerk

definition pb_MakeClerk :: "string \<Rightarrow> string \<Rightarrow> pb_Clerk" where
  "pb_MakeClerk vshost me = \<lparr>pbk_vs = vs_MakeClerk me vshost\<rparr>"

definition pbk_Get :: "pb_Clerk \<Rightarrow> string \<Rightarrow> 'w \<Rightarrow> string \<times> 'w" where
  "pbk_Get ck key w = (''???'', w)"

definition pbk_PutAppend :: "pb_Clerk \<Rightarrow> string \<Rightarrow> string \<Rightarrow> string \<Rightarrow> 'w \<Rightarrow> 'w" where
  "pbk_PutAppend ck key value op w = w"

definition pbk_Put :: "pb_Clerk \<Rightarrow> string \<Rightarrow> string \<Rightarrow> 'w \<Rightarrow> 'w" where
  "pbk_Put ck key value = pbk_PutAppend ck key value ''Put''"

definition pbk_Append :: "pb_Clerk \<Rightarrow> string \<Rightarrow> string \<Rightarrow> 'w \<Rightarrow> 'w" where
  "pbk_Append ck key value = pbk_PutAppend ck key value ''Append''"

section \<open>The key/value service over Paxos\<close>

record kp_PutAppendArgs =
  qPA_Key :: string
  qPA_Value :: string
  qPA_Op :: string

record kp_PutAppendReply =
  qPR_Err :: string

record kp_GetArgs =
  qGA_Key :: string

record kp_GetReply =
  qGR_Err :: string
  qGR_Value :: string

definition kp_Get :: "kp_GetArgs \<Rightarrow> kp_GetReply \<Rightarrow> KVPaxos \<Rightarrow> KVPaxos \<times> kp_GetReply" where
  "kp_Get args reply kv = (kv, reply)"

definition kp_PutAppend :: "kp_PutAppendArgs \<Rightarrow> kp_PutAppendReply \<Rightarrow> KVPaxos \<Rightarrow> KVPaxos \<times> kp_PutAppendReply" where
  "kp_PutAppend args reply kv = (kv, reply)"

definition kp_setunreliable :: "bool \<Rightarrow> KVPaxos \<Rightarrow> KVPaxos" where
  "kp_setunreliable what kv = (if what then kv\<lparr>unreliable := 1\<rparr> else kv\<lparr>unreliable := 0\<rparr>)"

record kp_Clerk =
  kpk_servers :: "string list"

definition kp_MakeClerk :: "string list \<Rightarrow> kp_Clerk" where
  "kp_MakeClerk servers = \<lparr>kpk_servers = servers\<rparr>"

definition kpk_Get :: "kp_Clerk \<Rightarrow> string \<Rightarrow> 'w \<Rightarrow> string \<times> 'w" where
  "kpk_Get ck key w = ([], w)"

definition kpk_PutAppend :: "kp_Clerk \<Rightarrow> string \<Rightarrow> string \<Rightarrow> string \<Rightarrow> 'w \<Rightarrow> 'w" where
  "kpk_PutAppend ck key value op w = w"

definition kpk_Put :: "kp_Clerk \<Rightarrow> string \<Rightarrow> string \<Rightarrow> 'w \<Rightarrow> 'w" where
  "kpk_Put ck key value = kpk_PutAppend ck key value ''Put''"

definition kpk_Append :: "kp_Clerk \<Rightarrow> string \<Rightarrow> string \<Rightarrow> 'w \<Rightarrow> 'w" where
  "kpk_Append ck key value = kpk_PutAppend ck key value ''Append''"

section \<open>The key/value service over Raft\<close>

text \<open>Its server, with the Raft peer inside, is part of \<open>Service_Config\<close>; the handlers do not look
  at it, so it is a type variable here.\<close>

record kr_PutAppendArgs =
  rPA_Key :: string
  rPA_Value :: string
  rPA_Op :: string

record kr_PutAppendReply =
  rPR_WrongLeader :: bool
  rPR_Err :: string

record kr_GetArgs =
  rGA_Key :: string

record kr_GetReply =
  rGR_WrongLeader :: bool
  rGR_Err :: string
  rGR_Value :: string

definition kr_Get :: "kr_GetArgs \<Rightarrow> kr_GetReply \<Rightarrow> 'kv \<Rightarrow> 'kv \<times> kr_GetReply" where
  "kr_Get args reply kv = (kv, reply)"

definition kr_PutAppend :: "kr_PutAppendArgs \<Rightarrow> kr_PutAppendReply \<Rightarrow> 'kv \<Rightarrow> 'kv \<times> kr_PutAppendReply" where
  "kr_PutAppend args reply kv = (kv, reply)"

record 'e kr_Clerk =
  krk_servers :: "'e list"

definition kr_MakeClerk :: "'e list \<Rightarrow> 'e kr_Clerk" where
  "kr_MakeClerk servers = \<lparr>krk_servers = servers\<rparr>"

definition krk_Get :: "'e kr_Clerk \<Rightarrow> string \<Rightarrow> 'w \<Rightarrow> string \<times> 'w" where
  "krk_Get ck key w = ([], w)"

definition krk_PutAppend :: "'e kr_Clerk \<Rightarrow> string \<Rightarrow> string \<Rightarrow> string \<Rightarrow> 'w \<Rightarrow> 'w" where
  "krk_PutAppend ck key value op w = w"

definition krk_Put :: "'e kr_Clerk \<Rightarrow> string \<Rightarrow> string \<Rightarrow> 'w \<Rightarrow> 'w" where
  "krk_Put ck key value = krk_PutAppend ck key value ''Put''"

definition krk_Append :: "'e kr_Clerk \<Rightarrow> string \<Rightarrow> string \<Rightarrow> 'w \<Rightarrow> 'w" where
  "krk_Append ck key value = krk_PutAppend ck key value ''Append''"

section \<open>The shard servers\<close>

record psk_PutAppendArgs =
  sPA_Key :: string
  sPA_Value :: string
  sPA_Op :: string

definition sk_Get :: "GetArgs \<Rightarrow> dkv_GetReply \<Rightarrow> ShardKV \<Rightarrow> ShardKV \<times> dkv_GetReply" where
  "sk_Get args reply kv = (kv, reply)"

definition sk_PutAppend :: "psk_PutAppendArgs \<Rightarrow> dkv_PutAppendReply \<Rightarrow> ShardKV \<Rightarrow> ShardKV \<times> dkv_PutAppendReply" where
  "sk_PutAppend args reply kv = (kv, reply)"

definition sk_tick :: "ShardKV \<Rightarrow> ShardKV" where
  "sk_tick kv = kv"

definition sk_Setunreliable :: "bool \<Rightarrow> ShardKV \<Rightarrow> ShardKV" where
  "sk_Setunreliable what kv = (if what then kv\<lparr>unreliable := 1\<rparr> else kv\<lparr>unreliable := 0\<rparr>)"

definition sk_tick_loop :: "(ShardKV \<Rightarrow> ShardKV) list \<Rightarrow> ShardKV \<Rightarrow> ShardKV \<times> nat" where
  "sk_tick_loop = tick_loop sk_tick"

definition kv_Get :: "GetArgs \<Rightarrow> dkv_GetReply \<Rightarrow> DisKV \<Rightarrow> DisKV \<times> dkv_GetReply" where
  "kv_Get args reply kv = (kv, reply)"

definition kv_PutAppend :: "psk_PutAppendArgs \<Rightarrow> dkv_PutAppendReply \<Rightarrow> DisKV \<Rightarrow> DisKV \<times> dkv_PutAppendReply" where
  "kv_PutAppend args reply kv = (kv, reply)"

definition kv_tick :: "DisKV \<Rightarrow> DisKV" where
  "kv_tick kv = kv"

definition kv_tick_loop :: "(DisKV \<Rightarrow> DisKV) list \<Rightarrow> DisKV \<Rightarrow> DisKV \<times> nat" where
  "kv_tick_loop = tick_loop kv_tick"

section \<open>Paxos, its shardmaster and the view service\<close>

definition px_setunreliable :: "bool \<Rightarrow> Paxos \<Rightarrow> Paxos" where
  "px_setunreliable what px = (if what then px\<lparr>unreliable := 1\<rparr> else px\<lparr>unreliable := 0\<rparr>)"

definition psm_setunreliable :: "bool \<Rightarrow> PxShardMaster \<Rightarrow> PxShardMaster" where
  "psm_setunreliable what sm = (if what then sm\<lparr>unreliable := 1\<rparr> else sm\<lparr>unreliable := 0\<rparr>)"

definition vs_tick_loop :: "(ViewServer \<Rightarrow> ViewServer) list \<Rightarrow> ViewServer \<Rightarrow> ViewServer \<times> nat" where
  "vs_tick_loop = tick_loop vs_tick"

interpretation pb_ticks: ticker pb_tick
  by unfold_locales (simp add: pb_tick_def)

interpretation sk_ticks: ticker sk_tick
  by unfold_locales (simp add: sk_tick_def)

interpretation kv_ticks: ticker kv_tick
  by unfold_locales (simp add: kv_tick_def)

interpretation vs_ticks: ticker vs_tick
  by unfold_locales (simp add: vs_tick_def)

text \<open>The periodic work of a killed server stops: the loop of a server that is killed in its last
  pause so far makes no further round.\<close>

lemma kill_is_dead: "isdead (pb_kill pb)" "isdead (sk_kill sk)" "isdead (kv_kill kv)" "isdead (vs_Kill vs)"
  by (cases pb, cases sk, cases kv, cases vs,
      simp_all add: isdead_def pb_kill_def sk_kill_def kv_kill_def vs_Kill_def close_listener_def)+

lemma killed_server_stops_ticking:
  assumes "\<forall>p\<in>set ps. \<forall>s. dead (p s) = dead s" and "\<not> isdead kv"
  shows "snd (kv_tick_loop (ps @ kv_kill # qs) kv) = Suc (length ps)"
  unfolding kv_tick_loop_def using assms kill_is_dead(3) by (intro kv_ticks.ticks_stop) auto

end
