(* ===== verification/Commands.thy ===== *)
theory Commands
  imports MR_Apps MR_Distributed Lockservice Kv_Skeletons
begin

text \<open>
  The command line programs (\<^verbatim>\<open>src/main\<close>): what each \<open>main\<close> does with its arguments, as a function
  of \<open>os.Args\<close>. A program that prints its usage and exits is a value of its own; a server or
  worker that then runs for ever is the state it starts with.
\<close>

section \<open>Word count and inverted index\<close>

datatype mr_command =
    SeeUsage string
  | RanSequential Master fsys
  | RunsDistributed dist
  | RunsWorker wk_run

text \<open>The two programs differ in the name of the job and in their functions. \<open>listen\<close> says which
  addresses can be listened on; \<open>register\<close> is the worker's call to the master, in the world
  \<open>'w\<close>.\<close>

definition mr_main ::
  "string \<Rightarrow> (string \<Rightarrow> string \<Rightarrow> KeyValue list) \<Rightarrow> (string \<Rightarrow> string list \<Rightarrow> string go) \<Rightarrow> (string \<Rightarrow> bool) \<Rightarrow>
   (string \<Rightarrow> string \<Rightarrow> RegisterArgs \<Rightarrow> 'w \<Rightarrow> unit option \<times> 'w) \<Rightarrow> string list \<Rightarrow> fsys \<Rightarrow> 'w \<Rightarrow> (mr_command \<times> 'w) go" where
  "mr_main job mapF reduceF listen register args fs w =
     (if length args < 4 then gbind (go_idx args 0) (\<lambda>a0. Inr (SeeUsage (a0 @ '': see usage comments in file''), w))
      else if args ! 1 = ''master'' then
        (if args ! 2 = ''sequential'' then
           gbind (Sequential job (drop 3 args) 3 mapF reduceF fs) (\<lambda>(mr, fs).
           gbind (Wait mr) (\<lambda>mr. Inr (RanSequential mr fs, w)))
         else
           gbind (Distributed listen job (drop 3 args) 3 (args ! 2) fs) (\<lambda>d. Inr (RunsDistributed d, w)))
      else
        gbind (RunWorker listen register (args ! 2) (args ! 3) mapF reduceF 100 w) (\<lambda>(wk, w). Inr (RunsWorker wk, w)))"

definition wc_main where
  "wc_main IsLetter visit = mr_main ''wcseq'' (wc_mapF IsLetter visit) wc_reduceF"

definition ii_main where
  "ii_main IsLetter visit = mr_main ''iiseq'' (ii_mapF IsLetter visit) ii_reduceF"

section \<open>Lock service, view service, primary/backup service\<close>

datatype 'a command = Usage | Starts 'a

definition lockd_main :: "(string \<Rightarrow> bool) \<Rightarrow> string list \<Rightarrow> LockServer command go" where
  "lockd_main listen args =
     (if length args = 4 \<and> args ! 1 = ''-p'' then
        gbind (StartServer listen (args ! 2) (args ! 3) True) (\<lambda>ls. Inr (Starts ls))
      else if length args = 4 \<and> args ! 1 = ''-b'' then
        gbind (StartServer listen (args ! 2) (args ! 3) False) (\<lambda>ls. Inr (Starts ls))
      else Inr Usage)"

definition lockc_main ::
  "(string \<Rightarrow> string \<Rightarrow> LockArgs \<Rightarrow> 'w \<Rightarrow> LockReply option \<times> 'w) \<Rightarrow> string list \<Rightarrow> 'w \<Rightarrow> bool command \<times> 'w" where
  "lockc_main c args w =
     (if length args = 5 then
        let ck = MakeClerk (args ! 2) (args ! 3) in
        if args ! 1 = ''-l'' then (case ck_Lock c ck (args ! 4) w of (ok, w) \<Rightarrow> (Starts ok, w))
        else if args ! 1 = ''-u'' then (Starts (ck_Unlock ck (args ! 4)), w)
        else (Usage, w)
      else (Usage, w))"

definition viewd_main :: "(string \<Rightarrow> bool) \<Rightarrow> string list \<Rightarrow> ViewServer command go" where
  "viewd_main listen args =
     (if length args \<noteq> 2 then Inr Usage else gbind (vs_StartServer listen (args ! 1)) (\<lambda>vs. Inr (Starts vs)))"

definition pbd_main :: "(string \<Rightarrow> bool) \<Rightarrow> string list \<Rightarrow> PBServer command go" where
  "pbd_main listen args =
     (if length args \<noteq> 3 then Inr Usage
      else gbind (pb_StartServer listen (args ! 1) (args ! 2)) (\<lambda>pb. Inr (Starts pb)))"

text \<open>The text that \<open>pbc\<close> prints, if any.\<close>

definition pbc_main :: "string list \<Rightarrow> 'w \<Rightarrow> string option command \<times> 'w" where
  "pbc_main args w =
     (if length args = 3 then
        (case pbk_Get (pb_MakeClerk (args ! 1) []) (args ! 2) w of (v, w) \<Rightarrow> (Starts (Some v), w))
      else if length args = 4 then
        (Starts None, pbk_Put (pb_MakeClerk (args ! 1) []) (args ! 2) (args ! 3) w)
      else (Usage, w))"

section \<open>The persistent key/value server\<close>

text \<open>\<open>strconv.ParseInt\<close> and \<open>ParseBool\<close> with their error dropped: a number out of range is the
  nearest 64-bit one, and text that is not of the right form is zero or false.\<close>

definition ParseInt :: "string \<Rightarrow> int" where
  "ParseInt s =
     (let (neg, ds) = (case s of [] \<Rightarrow> (False, [])
                       | c # r \<Rightarrow> if c = CHR ''-'' then (True, r)
                                 else if c = CHR ''+'' then (False, r) else (False, c # r));
          v = (if neg then - int (dec_val ds) else int (dec_val ds))
      in if ds \<noteq> [] \<and> list_all is_digit ds then max (- (2 ^ 63)) (min (2 ^ 63 - 1) v) else 0)"

definition ParseBool :: "string \<Rightarrow> bool" where
  "ParseBool s \<longleftrightarrow> s \<in> {''1'', ''t'', ''T'', ''true'', ''TRUE'', ''True''}"

lemma ParseInt_Atoi: "Atoi s = Some v \<Longrightarrow> ParseInt s = v"
  by (auto simp: Atoi_def ParseInt_def Let_def split: prod.splits if_splits list.splits)

record diskvd_options =
  o_gid :: int
  o_masters :: "string list"
  o_replicas :: "string list"
  o_me :: int
  o_unreliable :: bool
  o_dir :: string
  o_restart :: bool

definition diskvd_defaults :: diskvd_options where
  "diskvd_defaults = \<lparr>o_gid = -1, o_masters = [], o_replicas = [], o_me = -1, o_unreliable = False, o_dir = [],
     o_restart = False\<rparr>"

text \<open>The loop over pairs of arguments; \<^const>\<open>None\<close> is the call of \<open>usage\<close>. A last argument without
  a partner is ignored.\<close>

fun diskvd_parse :: "string list \<Rightarrow> diskvd_options \<Rightarrow> diskvd_options option" where
  "diskvd_parse (a0 # a1 # rest) opts =
     (if a0 = ''-g'' then diskvd_parse rest (opts\<lparr>o_gid := ParseInt a1\<rparr>)
      else if a0 = ''-m'' then diskvd_parse rest (opts\<lparr>o_masters := o_masters opts @ [a1]\<rparr>)
      else if a0 = ''-s'' then diskvd_parse rest (opts\<lparr>o_replicas := o_replicas opts @ [a1]\<rparr>)
      else if a0 = ''-i'' then diskvd_parse rest (opts\<lparr>o_me := ParseInt a1\<rparr>)
      else if a0 = ''-u'' then diskvd_parse rest (opts\<lparr>o_unreliable := ParseBool a1\<rparr>)
      else if a0 = ''-d'' then diskvd_parse rest (opts\<lparr>o_dir := a1\<rparr>)
      else if a0 = ''-r'' then diskvd_parse rest (opts\<lparr>o_restart := ParseBool a1\<rparr>)
      else None)"
| "diskvd_parse _ opts = Some opts"

definition diskvd_main :: "(string \<Rightarrow> bool) \<Rightarrow> string list \<Rightarrow> DisKV command go" where
  "diskvd_main listen args =
     (case diskvd_parse (drop 1 args) diskvd_defaults of
        None \<Rightarrow> Inr Usage
      | Some opts \<Rightarrow>
          if o_gid opts < 0 \<or> o_me opts < 0 \<or> length (o_masters opts) < 1 \<or>
             o_me opts \<ge> int (length (o_replicas opts)) \<or> o_dir opts = [] then Inr Usage
          else gbind (kv_StartServer listen (o_gid opts) (o_masters opts) (o_replicas opts) (o_me opts) (o_dir opts)
                        (o_restart opts)) (\<lambda>srv.
               Inr (Starts (Setunreliable (o_unreliable opts) srv))))"

section \<open>What the programs do with their arguments\<close>

text \<open>A command line for given options, and that the loop reads it back.\<close>

definition diskvd_args :: "diskvd_options \<Rightarrow> string list" where
  "diskvd_args opts = [''-g'', Itoa (o_gid opts)] @ concat (map (\<lambda>m. [''-m'', m]) (o_masters opts)) @
     concat (map (\<lambda>s. [''-s'', s]) (o_replicas opts)) @ [''-i'', Itoa (o_me opts)] @
     [''-u'', if o_unreliable opts then ''true'' else ''false''] @ [''-d'', o_dir opts] @
     [''-r'', if o_restart opts then ''true'' else ''false'']"

lemma ParseInt_Itoa: "- (2 ^ 63) \<le> i \<Longrightarrow> i < 2 ^ 63 \<Longrightarrow> ParseInt (Itoa i) = i"
  by (intro ParseInt_Atoi Atoi_Itoa)

lemma diskvd_parse_masters:
  "diskvd_parse (concat (map (\<lambda>m. [''-m'', m]) ms) @ rest) opts = diskvd_parse rest (opts\<lparr>o_masters := o_masters opts @ ms\<rparr>)"
  by (induction ms arbitrary: opts) simp_all

lemma diskvd_parse_replicas:
  "diskvd_parse (concat (map (\<lambda>m. [''-s'', m]) ss) @ rest) opts = diskvd_parse rest (opts\<lparr>o_replicas := o_replicas opts @ ss\<rparr>)"
  by (induction ss arbitrary: opts) simp_all

lemma diskvd_parse_args:
  assumes "- (2 ^ 63) \<le> o_gid opts" "o_gid opts < 2 ^ 63" "- (2 ^ 63) \<le> o_me opts" "o_me opts < 2 ^ 63"
  shows "diskvd_parse (diskvd_args opts) diskvd_defaults = Some opts"
  using assms
  by (cases opts) (simp add: diskvd_args_def diskvd_parse_masters diskvd_parse_replicas diskvd_defaults_def
      ParseInt_Itoa, simp add: ParseBool_def)

end
