(* ===== verification/MR_Props.thy ===== *)
theory MR_Props
  imports MR_Apps MR_Distributed
begin

text \<open>
  The properties of the MapReduce library and its applications, with witnesses on a small
  file system.
\<close>

section \<open>A concrete job\<close>

definition demo_fs :: fsys where
  "demo_fs = \<lparr>contents = [''a'' \<mapsto> ''to be or'', ''b'' \<mapsto> ''not to be''], creatable = (\<lambda>f. True)\<rparr>"

definition ascii_letter :: "string \<Rightarrow> bool" where
  "ascii_letter r \<longleftrightarrow> (case r of [c] \<Rightarrow> (let n = of_char c :: nat in 97 \<le> n \<and> n \<le> 122 \<or> 65 \<le> n \<and> n \<le> 90)
     | _ \<Rightarrow> False)"

lemma ascii_letter_rune: "ascii_letter r \<Longrightarrow> is_rune r"
  by (auto simp: ascii_letter_def is_rune_def rune_len_def Let_def split: list.splits)

lemma demo_ok: "job_ok ''j'' [''a'', ''b''] 3 demo_fs"
  by (auto simp: job_ok_def demo_fs_def reduceName_def)

section \<open>Whole jobs\<close>

lemma Sequential_job:
  assumes ok: "job_ok job fls n fs" and ret: "returns reduceF red (all_pairs mapF fs fls)"
  shows "\<exists>mr fs'. Sequential job fls n mapF reduceF fs = Inr (mr, fs') \<and>
    contents fs' (''mrtmp.'' @ job) = Some (result_text red (all_pairs mapF fs fls)) \<and>
    stats mr = [int (length fls) + n] \<and> doneChannel mr = [True]"
proof -
  let ?mr = "(newMaster ''master'')\<lparr>jobName := job, files := fls, nReduce := n\<rparr>"
  let ?mr' = "?mr\<lparr>stats := [int (length fls) + n]\<rparr>"
  have "set [0..<length fls] = {..<length fls}" "set [0..n - 1] = {0..<n}" by auto
  from job_result [OF ok this, of ?mr' reduceF red mapF] ret
  show ?thesis
    by (auto simp: Sequential_def run_job_def Let_def sequential_schedule_tasks newMaster_def)
qed

text \<open>C13: a sequential job over UTF-8 text runs to its end and leaves in the file
  \<open>mrtmp.<job>\<close> one line \<open>key: value\<close> per distinct key that the map function produced over all
  input files, in bytewise ascending order of the keys, where the value is the reduction of all
  values of the key, in the order of the input files and of the pairs within a file.\<close>

theorem Sequential_result:
  assumes "job_ok job fls n fs" and "list_all utf8_kv (all_pairs mapF fs fls)"
    and "\<forall>k\<in>Key ` set (all_pairs mapF fs fls).
      reduceF k (values_of k (all_pairs mapF fs fls)) = Inr (red k (values_of k (all_pairs mapF fs fls))) \<and>
      utf8 (red k (values_of k (all_pairs mapF fs fls)))"
  shows "\<exists>mr fs'. Sequential job fls n mapF reduceF fs = Inr (mr, fs') \<and>
    contents fs' (''mrtmp.'' @ job) = Some (concat (map
      (\<lambda>k. k @ '': '' @ red k (values_of k (all_pairs mapF fs fls)) @ [CHR 0x0A])
      (sort (remdups (map Key (all_pairs mapF fs fls)))))) \<and>
    stats mr = [int (length fls) + n] \<and> doneChannel mr = [True]"
  using Sequential_job [OF assms(1), of reduceF red mapF] assms(2,3)
  by (simp add: returns_def result_text_def keys_of_def)

definition demo_map :: "string \<Rightarrow> string \<Rightarrow> KeyValue list" where
  "demo_map f t = map (\<lambda>c. \<lparr>Key = [c], Value = f\<rparr>) t"

theorem Sequential_result_witness:
  "\<exists>mr fs'. Sequential ''j'' [''a'', ''b''] 3 demo_map (\<lambda>k vs. Inr (concat vs))
     \<lparr>contents = [''a'' \<mapsto> ''xz'', ''b'' \<mapsto> ''xy''], creatable = (\<lambda>f. True)\<rparr> = Inr (mr, fs') \<and>
    contents fs' ''mrtmp.j'' = Some (''x: ab'' @ [CHR 0x0A] @ ''y: b'' @ [CHR 0x0A] @ ''z: a'' @ [CHR 0x0A]) \<and>
    stats mr = [5] \<and> doneChannel mr = [True]"
proof -
  let ?fs = "\<lparr>contents = [''a'' \<mapsto> ''xz'', ''b'' \<mapsto> ''xy''], creatable = (\<lambda>f. True)\<rparr> :: fsys"
  have ok: "job_ok ''j'' [''a'', ''b''] 3 ?fs" by (auto simp: job_ok_def reduceName_def)
  let ?kvs = "all_pairs demo_map ?fs [''a'', ''b'']"
  have u: "list_all utf8_kv ?kvs" by code_simp
  have ret: "\<forall>k\<in>Key ` set ?kvs. (Inr (concat (values_of k ?kvs)) :: string go) = Inr (concat (values_of k ?kvs)) \<and>
      utf8 (concat (values_of k ?kvs))" by code_simp
  have "concat (map (\<lambda>k. k @ '': '' @ concat (values_of k ?kvs) @ [CHR 0x0A]) (sort (remdups (map Key ?kvs)))) =
      ''x: ab'' @ [CHR 0x0A] @ ''y: b'' @ [CHR 0x0A] @ ''z: a'' @ [CHR 0x0A]" by code_simp
  with Sequential_result [OF ok u, of "\<lambda>k vs. Inr (concat vs)" "\<lambda>k. concat", OF ret] show ?thesis by simp
qed


definition demo_mr :: Master where
  "demo_mr = (newMaster ''m'')\<lparr>registerChannel := [''w1'', ''w2''], jobName := ''j'',
     files := [''a'', ''b''], nReduce := 2\<rparr>"

text \<open>Two workers; the first attempt of task 0 fails and is retried on the other worker.\<close>

definition demo_sched :: "jobPhase \<Rightarrow> sched go" where
  "demo_sched phase = gbind (schedule_start phase demo_mr)
     (gfold (sched_exec phase demo_mr)
       [SDispatch 0, SCall 0 False, SRetry 0 0, SDispatch 0, SCall 0 True, SCall 0 True, SReturn])"

definition demo_state :: "jobPhase \<Rightarrow> sched" where
  "demo_state phase = (case demo_sched phase of Inr s \<Rightarrow> s)"

lemma demo_reachable: "sched_reachable phase demo_mr (demo_state phase)"
proof -
  have "demo_sched mapPhase = Inr (demo_state mapPhase)"
    "demo_sched reducePhase = Inr (demo_state reducePhase)" by code_simp+
  then have "demo_sched phase = Inr (demo_state phase)" by (cases phase) (simp_all only:)
  then obtain s0 where "schedule_start phase demo_mr = Inr s0"
    "gfold (sched_exec phase demo_mr)
       [SDispatch 0, SCall 0 False, SRetry 0 0, SDispatch 0, SCall 0 True, SCall 0 True, SReturn] s0
     = Inr (demo_state phase)"
    unfolding demo_sched_def gbind_eq_Inr by blast
  moreover from this(1) have "sched_reachable phase demo_mr s0" by (auto simp: sched_init_def intro: reach_init)
  ultimately show ?thesis using sched_run_reachable by blast
qed





section \<open>The scheduler\<close>

text \<open>C15: when the scheduler returns, every task of the phase has been done by exactly one
  call that succeeded, and no attempt is left.\<close>

theorem schedule_all_tasks_once:
  assumes "sched_reachable phase mr s" and "sd_returned s"
  shows "mset (done_tasks s) = mset [0..schedule_ntasks phase mr - 1] \<and> sd_execs s = []"
  using sinv_returned [OF sched_inv.reach_inv [OF assms(1)] assms(2)] by simp

theorem schedule_all_tasks_once_witness:
  "sd_returned (demo_state mapPhase) \<and> mset (done_tasks (demo_state mapPhase)) = {#0, 1#}"
proof -
  have r: "sd_returned (demo_state mapPhase)" by code_simp
  have "[0..schedule_ntasks mapPhase demo_mr - 1] = [0, 1]" by code_simp
  with schedule_all_tasks_once [OF demo_reachable r] r show ?thesis by simp
qed

text \<open>C16: the scheduler never panics when the phase has no more tasks than there are input
  files (always so in the map phase): neither does the argument of a call index past the
  input files, nor does the wait group become negative.\<close>

theorem schedule_no_panic:
  assumes "sched_reachable phase mr s" and "schedule_ntasks phase mr \<le> int (length (files mr))"
  shows "\<exists>t. sched_exec phase mr e s = Inr t"
  using sched_call_ok [OF sched_inv.reach_inv [OF assms(1)] assms(2)] by (cases e) auto

theorem schedule_no_panic_witness: "\<exists>t. sched_exec mapPhase demo_mr (SCall 0 True) (demo_state mapPhase) = Inr t"
  by (rule schedule_no_panic [OF demo_reachable]) code_simp

text \<open>C17: a phase ends. However its goroutines interleave, the scheduler takes at most two steps
  per task, two per call that fails, one per worker that registers and the final return; and
  where it cannot take another step without a new worker it has returned, as long as fewer
  calls failed than there are workers.\<close>

theorem schedule_terminates:
  assumes "schedule_start phase mr = Inr s" and "schedule_ntasks phase mr \<le> int (length (files mr))"
    and "gfold (sched_exec phase mr) es s = Inr t"
  shows "effective (sched_exec phase mr) es s \<le>
      2 * nat (schedule_ntasks phase mr) + 2 * failures es + registrations es + 1 \<and>
    (failures es < length (registerChannel mr) + registrations es \<and> quiescent phase mr t \<longrightarrow> sd_returned t)"
proof -
  have inv: "sinv phase mr s" using assms(1) by (rule sinv_start)
  have s: "sd_execs s = []" "sched_pot s = 2 * nat (schedule_ntasks phase mr) + 1" "waiting s = 0"
    "sd_offers s = registerChannel mr"
    using assms(1) by (auto simp: schedule_start_def sched_pot_def pending_def waiting_def split: if_splits)
  have "sd_returned t" if "failures es < length (registerChannel mr) + registrations es" "quiescent phase mr t"
    using run_accounts [OF assms(3)] that s quiescent_returned [OF sched_runs.run_inv [OF assms(3) inv] assms(2)]
      few_waiting_has_worker [of t] by simp
  with sched_runs.effective_bound [OF assms(3) inv] show ?thesis by (auto simp: s sum_sched_pay)
qed

text \<open>A worker whose call failed is offered again only once another worker has taken its task:
  when the only worker fails one call, the phase stays where it is until a new worker registers.\<close>

definition lone_start :: sched where
  "lone_start = (case schedule_start mapPhase (demo_mr\<lparr>registerChannel := [''w'']\<rparr>) of Inr s \<Rightarrow> s)"

theorem lone_worker_failure_blocks:
  "\<exists>t. gfold (sched_exec mapPhase (demo_mr\<lparr>registerChannel := [''w'']\<rparr>)) [SDispatch 0, SCall 0 False]
       lone_start = Inr t \<and> \<not> sd_returned t \<and> quiescent mapPhase (demo_mr\<lparr>registerChannel := [''w'']\<rparr>) t"
proof -
  let ?mr = "demo_mr\<lparr>registerChannel := [''w'']\<rparr>"
  let ?t = "\<lparr>sd_ntasks = 2, sd_next = 1, sd_execs = [(''w'', 0, WaitNew)], sd_offers = [], sd_wg = 2,
    sd_log = [(\<lparr>JobName = ''j'', File = ''a'', Phase = mapPhase, TaskNumber = 0, NumOtherPhase = 2\<rparr>, False)],
    sd_returned = False\<rparr>"
  have "gfold (sched_exec mapPhase ?mr) [SDispatch 0, SCall 0 False] lone_start = Inr ?t" by code_simp
  moreover have "quiescent mapPhase ?mr ?t" unfolding quiescent_def
  proof
    fix e show "is_register e \<or> sched_exec mapPhase ?mr e ?t = Inr ?t" by (cases e) auto
  qed
  ultimately show ?thesis by (intro exI [of _ ?t]) simp
qed

definition demo_start :: sched where
  "demo_start = (case schedule_start mapPhase demo_mr of Inr s \<Rightarrow> s)"

definition demo_run :: "sched_event list" where
  "demo_run = [SDispatch 0, SCall 0 False, SRetry 0 0, SDispatch 0, SCall 0 True, SCall 0 True, SReturn]"

theorem schedule_terminates_witness:
  "\<exists>t. gfold (sched_exec mapPhase demo_mr) demo_run demo_start = Inr t \<and>
     effective (sched_exec mapPhase demo_mr) demo_run demo_start \<le> 7 \<and> sd_returned t"
proof -
  have s: "schedule_start mapPhase demo_mr = Inr demo_start" by code_simp
  have n: "schedule_ntasks mapPhase demo_mr \<le> int (length (files demo_mr))" by code_simp
  define t where "t = (case gfold (sched_exec mapPhase demo_mr) demo_run demo_start of Inr t \<Rightarrow> t)"
  have t: "gfold (sched_exec mapPhase demo_mr) demo_run demo_start = Inr t"
    and f: "sd_execs t = []" "sd_next t = 2" "sd_ntasks t = 2" "sd_wg t = 0" "sd_returned t = True"
    and c: "failures demo_run = 1" "registrations demo_run = 0" "length (registerChannel demo_mr) = 2"
      "nat (schedule_ntasks mapPhase demo_mr) = 2"
    unfolding t_def by code_simp+
  have "t\<lparr>sd_returned := True\<rparr> = t" using f(5) by (cases t) simp
  then have "quiescent mapPhase demo_mr t" unfolding quiescent_def
  proof (intro allI)
    fix e assume "t\<lparr>sd_returned := True\<rparr> = t"
    with f show "is_register e \<or> sched_exec mapPhase demo_mr e t = Inr t" by (cases e) simp_all
  qed
  with schedule_terminates [OF s n t] t c show ?thesis by auto
qed

text \<open>With more reduce partitions than input files the argument of a reduce call indexes past
  the input files.\<close>

theorem reduce_phase_indexes_files:
  "gbind (schedule_start reducePhase (demo_mr\<lparr>files := [''a'']\<rparr>))
     (gfold (sched_exec reducePhase (demo_mr\<lparr>files := [''a'']\<rparr>)) [SDispatch 0, SDispatch 0, SCall 1 True])
   = Inl IndexOutOfRange"
  by code_simp

section \<open>Applications\<close>

text \<open>Word count. The job of \<open>wc.go\<close> writes, for every word of the input files, in sorted
  order, the word and the number of its occurrences in all files, whatever the order in which
  Go visits its maps.\<close>

lemma wc_job:
  assumes ok: "job_ok job fls n fs" and visit: "\<forall>mp. mset (visit mp) = mset mp"
    and letters: "\<forall>r. IsLetter r \<longrightarrow> is_rune r"
    and small: "int (length (all_words IsLetter fs fls)) < 2 ^ 63"
  shows "\<exists>mr fs'. Sequential job fls n (wc_mapF IsLetter visit) wc_reduceF fs = Inr (mr, fs') \<and> doneChannel mr = [True] \<and>
    contents fs' (''mrtmp.'' @ job) = Some (let ws = all_words IsLetter fs fls in
      concat (map (\<lambda>w. w @ '': '' @ Itoa (int (count_list ws w)) @ [CHR 0x0A]) (sort (remdups ws))))"
proof -
  note visit = visit [rule_format] and letters = letters [rule_format]
  let ?red = "\<lambda>k (vs :: string list). Itoa (int (count_list (all_words IsLetter fs fls) k))"
  have "returns wc_reduceF ?red (all_pairs (wc_mapF IsLetter visit) fs fls)"
    unfolding returns_def
    using wc_reduce [OF visit small] pairs_utf8(1) [OF letters visit] itoa_utf8 by simp
  from Sequential_job [OF ok this] show ?thesis
    by (auto simp: result_text_def keys_all [OF keys_visit(1) [OF visit]] all_words_def Let_def)
qed

text \<open>Inverted index. The job of \<open>ii.go\<close> writes, for every word of the input files, in
  sorted order, the number of the files that contain it and their names, separated by commas,
  in the order in which the files were given.\<close>

lemma ii_job:
  assumes ok: "job_ok job fls n fs" and visit: "\<forall>mp. mset (visit mp) = mset mp"
    and letters: "\<forall>r. IsLetter r \<longrightarrow> is_rune r" and names: "list_all utf8 fls"
  shows "\<exists>mr fs'. Sequential job fls n (ii_mapF IsLetter visit) ii_reduceF fs = Inr (mr, fs') \<and> doneChannel mr = [True] \<and>
    contents fs' (''mrtmp.'' @ job) = Some (concat (map (\<lambda>w.
      let docs = filter (\<lambda>f. w \<in> set (words_of IsLetter (map_zero [] (contents fs) f))) fls
      in w @ '': '' @ Itoa (int (length docs)) @ '' '' @ Join docs '','' @ [CHR 0x0A])
      (sort (remdups (all_words IsLetter fs fls)))))"
proof -
  note visit = visit [rule_format] and letters = letters [rule_format]
  let ?red = "\<lambda>k (vs :: string list). Itoa (int (length vs)) @ '' '' @ Join vs '',''"
  have "returns ii_reduceF ?red (all_pairs (ii_mapF IsLetter visit) fs fls)"
  proof -
    have "utf8 (?red k (values_of k (all_pairs (ii_mapF IsLetter visit) fs fls)))" for k
      unfolding ii_all_values [OF visit] using names
      by (intro utf8_append itoa_utf8 join_utf8) (auto simp: list_all_iff intro: utf8_ascii)
    then show ?thesis
      using pairs_utf8(2) [OF letters visit names] by (simp add: returns_def ii_reduceF_def)
  qed
  from Sequential_job [OF ok this] show ?thesis
    by (auto simp: result_text_def keys_all [OF keys_visit(2) [OF visit]] all_words_def Let_def
        ii_all_values [OF visit])
qed

section \<open>Tasks and files\<close>

text \<open>C20: a map task whose input exists writes to its intermediate file of partition \<open>r\<close>
  exactly the pairs whose key hashes to \<open>r\<close> (FNV-1a modulo the number of partitions), in the
  order the map function produced them, and changes no other file.\<close>

theorem doMap_partitions:
  assumes "0 < n" "n < 2 ^ 32" and "contents fs inFile = Some data" and "0 \<le> m"
    and "\<forall>r\<in>{0..<n}. creatable fs (reduceName job m r)"
  shows "\<exists>fs'. doMap job m inFile n mapF fs = Inr fs' \<and>
    (\<forall>r\<in>{0..<n}. contents fs' (reduceName job m r) = Some (concat (map json_encode
        (filter (\<lambda>kv. uint (ihash (Key kv) mod word_of_int n) = r) (mapF inFile data))))) \<and>
    (\<forall>g. g \<notin> reduceName job m ` {0..<n} \<longrightarrow> contents fs' g = contents fs g)"
  using doMap_ok [OF assms] unfolding part_kvs_def part_def by blast

theorem doMap_partitions_witness:
  "\<exists>fs'. doMap ''j'' 0 ''a'' 3 demo_map demo_fs = Inr fs' \<and> contents fs' ''b'' = Some ''not to be''"
proof -
  have h: "0 < (3::int)" "(3::int) < 2 ^ 32" "contents demo_fs ''a'' = Some ''to be or''" "0 \<le> (0::int)"
    "\<forall>r\<in>{0..<3}. creatable demo_fs (reduceName ''j'' 0 r)" by (simp_all add: demo_fs_def)
  have "''b'' \<notin> reduceName ''j'' 0 ` {0..<3}" by (auto simp: reduceName_def)
  moreover have "contents demo_fs ''b'' = Some ''not to be''" by (simp add: demo_fs_def)
  ultimately show ?thesis using doMap_partitions [OF h, of demo_map] by metis
qed

text \<open>C21: what a worker serves and reports. A worker started for \<open>n \<ge> 0\<close> requests accepts at most
  \<open>n\<close> connections before a \<open>Shutdown\<close>. When the master sends one \<open>Shutdown\<close>, the worker
  reports the number of tasks it had accepted or one more, and accepts at most one further
  connection, whatever the order in which its loop and the goroutines that serve its connections
  run.\<close>

theorem worker_reports_tasks:
  assumes "reach (wk_start n) wk_step s"
  shows "(0 \<le> n \<and> wr_replies s = [] \<longrightarrow> int (length (wr_accepted s)) \<le> n) \<and>
    (\<forall>v a rest. stops (wr_accepted s) = 1 \<and> wr_replies s = (v, a) # rest \<longrightarrow>
      (let tasks = length (filter (\<lambda>r. r \<noteq> StopReq) (take a (wr_accepted s)))
       in v = int tasks \<or> v = int tasks + 1) \<and> length (wr_accepted s) \<le> a + 1)"
proof (intro conjI allI impI; (elim conjE)?)
  note inv = wk_runs.reach_inv [OF assms]
  show "int (length (wr_accepted s)) \<le> n" if "0 \<le> n" "wr_replies s = []" by (rule wk_budget [OF inv that])
  fix v a rest assume h: "stops (wr_accepted s) = 1" "wr_replies s = (v, a) # rest"
  note r = wk_report [OF inv h]
  show "length (wr_accepted s) \<le> a + 1" by (rule r(5))
  have "a \<le> length (wr_accepted s)" using inv unfolding wk_inv_def by (auto simp: h(2) r(1))
  moreover have "stops rs + length (filter (\<lambda>r. r \<noteq> StopReq) rs) = length rs" for rs
    using sum_length_filter_compl [of "\<lambda>r. r = StopReq" rs] by simp
  ultimately have "length (filter (\<lambda>r. r \<noteq> StopReq) (take a (wr_accepted s))) = a - 1"
    using r(2) by (metis diff_add_inverse length_take min.absorb2)
  then show "let tasks = length (filter (\<lambda>r. r \<noteq> StopReq) (take a (wr_accepted s)))
       in v = int tasks \<or> v = int tasks + 1"
    using r(3,4) unfolding Let_def by linarith
qed

text \<open>A worker that gets a task and then \<open>Shutdown\<close>: the report depends on whether the loop counts
  the second connection before or after it is served.\<close>

definition demo_worker :: wk_run where
  "demo_worker = \<lparr>wr_wk = newWorker ''w'' (\<lambda>_ _. []) (\<lambda>_ _. Inr []) 10, wr_pc = Top, wr_serving = [],
     wr_accepted = [], wr_replies = []\<rparr>"

definition demo_two :: wk_run where
  "demo_two = wk_accept StopReq (wk_count (wk_accept
     (TaskReq \<lparr>JobName = ''wc'', File = ''in'', Phase = mapPhase, TaskNumber = 0, NumOtherPhase = 1\<rparr>) demo_worker))"

lemmas demo_worker_defs = demo_two_def demo_worker_def newWorker_def wk_accept_def wk_count_def wk_serve_def
  RunWorker_accept_def RunWorker_count_def Shutdown_def remove_nth_def

lemma demo_two_reach: "reach (wk_start 10) wk_step demo_two"
proof -
  have "RunWorker (\<lambda>_. True) (\<lambda>_ _ _ w. (Some (), w)) ''m'' ''w'' (\<lambda>_ _. []) (\<lambda>_ _. Inr []) 10 () = Inr (demo_worker, ())"
    by (simp add: RunWorker_def demo_worker_def)
  then have "wk_start 10 demo_worker" unfolding wk_start_def by blast
  then show ?thesis unfolding demo_two_def
    by (intro reach_step [where step = wk_step, OF _ wk_step.Accept] reach_step [where step = wk_step, OF _ wk_step.Count] reach_init)
      (simp_all add: demo_worker_defs)
qed

lemma worker_report_race:
  "wr_replies (wk_serve 1 demo_two) = [(1, 2)]" "wr_replies (wk_serve 1 (wk_count demo_two)) = [(2, 2)]"
  by (simp_all add: demo_worker_defs)

theorem worker_reports_tasks_witness:
  "reach (wk_start 10) wk_step (wk_serve 1 demo_two) \<and> wr_replies (wk_serve 1 demo_two) = [(1, 2)] \<and>
   length (wr_accepted (wk_serve 1 demo_two)) \<le> 2 + 1"
proof -
  have r: "reach (wk_start 10) wk_step (wk_serve 1 demo_two)"
    by (rule reach_step [where step = wk_step, OF demo_two_reach wk_step.Serve]) (simp add: demo_worker_defs)
  have "stops (wr_accepted (wk_serve 1 demo_two)) = 1" by (simp add: demo_worker_defs)
  with worker_reports_tasks [OF r] worker_report_race(1) r show ?thesis by blast
qed



end
