(* ===== verification/Command_Props.thy ===== *)
theory Command_Props
  imports Commands MR_Props
begin

text \<open>
  Properties of the command line programs: the two MapReduce programs from their arguments to the
  result file, and the options of the persistent key/value server.
\<close>

section \<open>Word count and inverted index\<close>

lemma mr_main_sequential:
  assumes "fls \<noteq> []" and "Sequential job fls 3 mapF reduceF fs = Inr (mr, fs')" and "doneChannel mr = [True]"
  shows "\<exists>mr'. mr_main job mapF reduceF listen register (prog # ''master'' # ''sequential'' # fls) fs w =
    Inr (RanSequential mr' fs', w)"
  using assms by (cases fls) (auto simp: mr_main_def Wait_def)

text \<open>C18: \<open>wc master sequential f1 .. fN\<close> runs to its end and writes to \<open>mrtmp.wcseq\<close>, for every word
  of the input files, in sorted order, the word and the number of its occurrences in all files,
  whatever the order in which Go visits its maps.\<close>

theorem wc_counts:
  assumes ok: "job_ok ''wcseq'' fls 3 fs" and visit: "\<forall>mp. mset (visit mp) = mset mp"
    and letters: "\<forall>r. IsLetter r \<longrightarrow> is_rune r"
    and small: "int (length (all_words IsLetter fs fls)) < 2 ^ 63" and "fls \<noteq> []"
  shows "\<exists>mr fs'. wc_main IsLetter visit listen register (prog # ''master'' # ''sequential'' # fls) fs w =
      Inr (RanSequential mr fs', w) \<and>
    contents fs' ''mrtmp.wcseq'' = Some (let ws = all_words IsLetter fs fls in
      concat (map (\<lambda>w. w @ '': '' @ Itoa (int (count_list ws w)) @ [CHR 0x0A]) (sort (remdups ws))))"
proof -
  from wc_job [OF ok visit letters small] obtain mr fs' where
    r: "Sequential ''wcseq'' fls 3 (wc_mapF IsLetter visit) wc_reduceF fs = Inr (mr, fs')" "doneChannel mr = [True]"
    and c: "contents fs' (''mrtmp.'' @ ''wcseq'') = Some (let ws = all_words IsLetter fs fls in
      concat (map (\<lambda>w. w @ '': '' @ Itoa (int (count_list ws w)) @ [CHR 0x0A]) (sort (remdups ws))))" by blast
  from mr_main_sequential [OF assms(5) r, of listen register prog w] c show ?thesis unfolding wc_main_def by auto
qed

theorem wc_counts_witness:
  "\<exists>mr fs'. wc_main ascii_letter rev (\<lambda>_. True) (\<lambda>_ _ _ w. (Some (), w)) [''wc'', ''master'', ''sequential'', ''a'', ''b'']
      demo_fs () = Inr (RanSequential mr fs', ()) \<and>
    contents fs' ''mrtmp.wcseq'' = Some (''be: 2'' @ [CHR 0x0A] @ ''not: 1'' @ [CHR 0x0A] @
      ''or: 1'' @ [CHR 0x0A] @ ''to: 2'' @ [CHR 0x0A])"
proof -
  have w: "all_words ascii_letter demo_fs [''a'', ''b''] = [''to'', ''be'', ''or'', ''not'', ''to'', ''be'']"
    by code_simp
  have "(let ws = all_words ascii_letter demo_fs [''a'', ''b''] in
      concat (map (\<lambda>w. w @ '': '' @ Itoa (int (count_list ws w)) @ [CHR 0x0A]) (sort (remdups ws)))) =
      ''be: 2'' @ [CHR 0x0A] @ ''not: 1'' @ [CHR 0x0A] @ ''or: 1'' @ [CHR 0x0A] @ ''to: 2'' @ [CHR 0x0A]"
    unfolding w by code_simp
  moreover have "int (length (all_words ascii_letter demo_fs [''a'', ''b''])) < 2 ^ 63" by (simp add: w)
  moreover have "\<forall>mp. mset (rev mp) = mset mp" "\<forall>r. ascii_letter r \<longrightarrow> is_rune r" by (simp_all add: ascii_letter_rune)
  moreover have "job_ok ''wcseq'' [''a'', ''b''] 3 demo_fs" by (auto simp: job_ok_def reduceName_def demo_fs_def)
  ultimately show ?thesis
    using wc_counts [of "[''a'', ''b'']" demo_fs rev ascii_letter "\<lambda>_. True" "\<lambda>_ _ _ w. (Some (), w)" "''wc''" "()"] by simp
qed

text \<open>C19: \<open>ii master sequential f1 .. fN\<close> runs to its end and writes to \<open>mrtmp.iiseq\<close>, for every
  word of the input files, in sorted order, the number of the files that contain it and their
  names, separated by commas, in the order in which the files were given.\<close>

theorem ii_index:
  assumes ok: "job_ok ''iiseq'' fls 3 fs" and visit: "\<forall>mp. mset (visit mp) = mset mp"
    and letters: "\<forall>r. IsLetter r \<longrightarrow> is_rune r" and names: "list_all utf8 fls" and "fls \<noteq> []"
  shows "\<exists>mr fs'. ii_main IsLetter visit listen register (prog # ''master'' # ''sequential'' # fls) fs w =
      Inr (RanSequential mr fs', w) \<and>
    contents fs' ''mrtmp.iiseq'' = Some (concat (map (\<lambda>w.
      let docs = filter (\<lambda>f. w \<in> set (words_of IsLetter (map_zero [] (contents fs) f))) fls
      in w @ '': '' @ Itoa (int (length docs)) @ '' '' @ Go_Strings.Join docs '','' @ [CHR 0x0A])
      (sort (remdups (all_words IsLetter fs fls)))))"
proof -
  from ii_job [OF ok visit letters names] obtain mr fs' where
    r: "Sequential ''iiseq'' fls 3 (ii_mapF IsLetter visit) ii_reduceF fs = Inr (mr, fs')" "doneChannel mr = [True]"
    and c: "contents fs' (''mrtmp.'' @ ''iiseq'') = Some (concat (map (\<lambda>w.
      let docs = filter (\<lambda>f. w \<in> set (words_of IsLetter (map_zero [] (contents fs) f))) fls
      in w @ '': '' @ Itoa (int (length docs)) @ '' '' @ Go_Strings.Join docs '','' @ [CHR 0x0A])
      (sort (remdups (all_words IsLetter fs fls)))))" by blast
  from mr_main_sequential [OF assms(5) r, of listen register prog w] c show ?thesis unfolding ii_main_def by auto
qed

theorem ii_index_witness:
  "\<exists>mr fs'. ii_main ascii_letter rev (\<lambda>_. True) (\<lambda>_ _ _ w. (Some (), w)) [''ii'', ''master'', ''sequential'', ''a'', ''b'']
      demo_fs () = Inr (RanSequential mr fs', ()) \<and>
    contents fs' ''mrtmp.iiseq'' = Some (''be: 2 a,b'' @ [CHR 0x0A] @ ''not: 1 b'' @ [CHR 0x0A] @
      ''or: 1 a'' @ [CHR 0x0A] @ ''to: 2 a,b'' @ [CHR 0x0A])"
proof -
  have "concat (map (\<lambda>w.
      let docs = filter (\<lambda>f. w \<in> set (words_of ascii_letter (map_zero [] (contents demo_fs) f))) [''a'', ''b'']
      in w @ '': '' @ Itoa (int (length docs)) @ '' '' @ Go_Strings.Join docs '','' @ [CHR 0x0A])
      (sort (remdups (all_words ascii_letter demo_fs [''a'', ''b''])))) =
    ''be: 2 a,b'' @ [CHR 0x0A] @ ''not: 1 b'' @ [CHR 0x0A] @ ''or: 1 a'' @ [CHR 0x0A] @ ''to: 2 a,b'' @ [CHR 0x0A]"
    by code_simp
  moreover have "list_all utf8 [''a'', ''b'']" by code_simp
  moreover have "\<forall>mp. mset (rev mp) = mset mp" "\<forall>r. ascii_letter r \<longrightarrow> is_rune r" by (simp_all add: ascii_letter_rune)
  moreover have "job_ok ''iiseq'' [''a'', ''b''] 3 demo_fs" by (auto simp: job_ok_def reduceName_def demo_fs_def)
  ultimately show ?thesis
    using ii_index [of "[''a'', ''b'']" demo_fs rev ascii_letter "\<lambda>_. True" "\<lambda>_ _ _ w. (Some (), w)" "''ii''" "()"] by simp
qed

section \<open>The options of the persistent server\<close>



end
