(* ===== verification/Labrpc.thy ===== *)
theory Labrpc
  imports Go_Prelude
begin

text \<open>
  The simulated network (\<^verbatim>\<open>src/labrpc/labrpc.go\<close>): end points, servers, services and the
  life of one remote call. Names of end points and servers are values of arbitrary types (Go's
  \<open>interface{}\<close>), arguments and replies are the values that are encoded. Server objects live
  in a heap and are referred to by address, because \<open>IsServerDead\<close> compares pointers: a
  server that has been deleted or replaced under its name is not the one a call was sent to.

  A call is not atomic. It reads the network when it is sent, runs the handler, and looks at
  the network again before it replies; what others did to the network in between is an
  argument, and so are the random choices.
\<close>

section \<open>Data\<close>

record ('e, 'b) reqMsg =
  req_endname :: 'e
  req_svcMeth :: string
  req_args :: 'b

record 'b replyMsg =
  rep_ok :: bool
  rep_reply :: "'b option"

text \<open>A method of the receiver, as reflection shows it.\<close>

record ('st, 'b) rmethod =
  m_Name :: string
  m_PkgPath :: string
  m_NumIn :: nat
  m_In2Ptr :: bool
  m_NumOut :: nat
  m_Func :: "'b \<Rightarrow> 'st \<Rightarrow> ('st \<times> 'b) go"

record ('st, 'b) Service =
  svc_name :: string
  svc_rcvr :: 'st
  svc_methods :: "string \<rightharpoonup> ('b \<Rightarrow> 'st \<Rightarrow> ('st \<times> 'b) go)"

record ('st, 'b) Server =
  sv_services :: "string \<rightharpoonup> ('st, 'b) Service"
  sv_count :: int

record ('e, 'n, 'st, 'b) Network =
  reliable :: bool
  longDelays :: bool
  longReordering :: bool
  net_ends :: "'e \<Rightarrow> bool"
  net_enabled :: "'e \<rightharpoonup> bool"
  net_servers :: "'n \<rightharpoonup> nat"
  connections :: "'e \<rightharpoonup> 'n"
  server_heap :: "('st, 'b) Server list"

section \<open>Services and servers\<close>

definition MakeServer :: "('st, 'b) Server" where
  "MakeServer = \<lparr>sv_services = Map.empty, sv_count = 0\<rparr>"

definition AddService :: "('st, 'b) Service \<Rightarrow> ('st, 'b) Server \<Rightarrow> ('st, 'b) Server" where
  "AddService svc rs = rs\<lparr>sv_services := (sv_services rs)(svc_name svc \<mapsto> svc)\<rparr>"

definition is_handler :: "('st, 'b) rmethod \<Rightarrow> bool" where
  "is_handler m \<longleftrightarrow> \<not> (m_PkgPath m \<noteq> [] \<or> m_NumIn m \<noteq> 3 \<or> \<not> m_In2Ptr m \<or> m_NumOut m \<noteq> 0)"

definition MakeService :: "string \<Rightarrow> 'st \<Rightarrow> ('st, 'b) rmethod list \<Rightarrow> ('st, 'b) Service" where
  "MakeService typename rcvr ms =
     \<lparr>svc_name = typename, svc_rcvr = rcvr,
      svc_methods = fold (\<lambda>m acc. if is_handler m then acc(m_Name m \<mapsto> m_Func m) else acc) ms Map.empty\<rparr>"

definition service_dispatch ::
  "string \<Rightarrow> ('e, 'b) reqMsg \<Rightarrow> ('st, 'b) Service \<Rightarrow> (('st, 'b) Service \<times> 'b replyMsg) go" where
  "service_dispatch methname req svc =
     (case svc_methods svc methname of
        None \<Rightarrow> Inl (LogFatal ''unknown method'')
      | Some f \<Rightarrow>
          gbind (f (req_args req) (svc_rcvr svc)) (\<lambda>(st, r).
          Inr (svc\<lparr>svc_rcvr := st\<rparr>, \<lparr>rep_ok = True, rep_reply = Some r\<rparr>)))"

text \<open>\<open>strings.LastIndex\<close> for a single byte.\<close>

definition LastIndex :: "string \<Rightarrow> char \<Rightarrow> int" where
  "LastIndex s c = (case filter (\<lambda>i. s ! i = c) [0..<length s] of [] \<Rightarrow> -1 | is \<Rightarrow> int (last is))"

definition server_dispatch ::
  "('e, 'b) reqMsg \<Rightarrow> ('st, 'b) Server \<Rightarrow> (('st, 'b) Server \<times> 'b replyMsg) go" where
  "server_dispatch req rs =
     (let rs = rs\<lparr>sv_count := sv_count rs + 1\<rparr>;
          dot = LastIndex (req_svcMeth req) CHR ''.'' in
      gbind (go_slice_to (req_svcMeth req) dot) (\<lambda>serviceName.
      gbind (go_slice_from (req_svcMeth req) (dot + 1)) (\<lambda>methodName.
      case sv_services rs serviceName of
        None \<Rightarrow> Inl (LogFatal ''unknown service'')
      | Some service \<Rightarrow>
          gbind (service_dispatch methodName req service) (\<lambda>(service, reply).
          Inr (rs\<lparr>sv_services := (sv_services rs)(serviceName \<mapsto> service)\<rparr>, reply)))))"

definition server_GetCount :: "('st, 'b) Server \<Rightarrow> int" where
  "server_GetCount rs = sv_count rs"

section \<open>The network\<close>

definition MakeNetwork :: "('e, 'n, 'st, 'b) Network" where
  "MakeNetwork = \<lparr>reliable = True, longDelays = False, longReordering = False, net_ends = (\<lambda>e. False),
     net_enabled = Map.empty, net_servers = Map.empty, connections = Map.empty, server_heap = []\<rparr>"

definition Reliable :: "bool \<Rightarrow> ('e, 'n, 'st, 'b) Network \<Rightarrow> ('e, 'n, 'st, 'b) Network" where
  "Reliable yes rn = rn\<lparr>reliable := yes\<rparr>"

definition LongReordering :: "bool \<Rightarrow> ('e, 'n, 'st, 'b) Network \<Rightarrow> ('e, 'n, 'st, 'b) Network" where
  "LongReordering yes rn = rn\<lparr>longReordering := yes\<rparr>"

definition LongDelays :: "bool \<Rightarrow> ('e, 'n, 'st, 'b) Network \<Rightarrow> ('e, 'n, 'st, 'b) Network" where
  "LongDelays yes rn = rn\<lparr>longDelays := yes\<rparr>"

definition ReadEndnameInfo ::
  "'e \<Rightarrow> ('e, 'n, 'st, 'b) Network \<Rightarrow> bool \<times> 'n option \<times> nat option \<times> bool \<times> bool" where
  "ReadEndnameInfo endname rn =
     (let servername = connections rn endname in
      (map_zero False (net_enabled rn) endname, servername, Option.bind servername (net_servers rn),
       reliable rn, longReordering rn))"

definition IsServerDead :: "'e \<Rightarrow> 'n \<Rightarrow> nat \<Rightarrow> ('e, 'n, 'st, 'b) Network \<Rightarrow> bool" where
  "IsServerDead endname servername server rn \<longleftrightarrow>
     map_zero False (net_enabled rn) endname = False \<or> net_servers rn servername \<noteq> Some server"

definition MakeEnd :: "'e \<Rightarrow> ('e, 'n, 'st, 'b) Network \<Rightarrow> ('e, 'n, 'st, 'b) Network go" where
  "MakeEnd endname rn =
     (if net_ends rn endname then Inl (LogFatal ''MakeEnd: already exists'')
      else Inr (rn\<lparr>net_ends := (net_ends rn)(endname := True),
                   net_enabled := (net_enabled rn)(endname \<mapsto> False),
                   connections := (connections rn)(endname := None)\<rparr>))"

text \<open>\<open>AddServer\<close> is given a pointer: the address of an object of the heap.\<close>

definition new_server :: "('st, 'b) Server \<Rightarrow> ('e, 'n, 'st, 'b) Network \<Rightarrow> nat \<times> ('e, 'n, 'st, 'b) Network" where
  "new_server rs rn = (length (server_heap rn), rn\<lparr>server_heap := server_heap rn @ [rs]\<rparr>)"

definition AddServer :: "'n \<Rightarrow> nat \<Rightarrow> ('e, 'n, 'st, 'b) Network \<Rightarrow> ('e, 'n, 'st, 'b) Network" where
  "AddServer servername a rn = rn\<lparr>net_servers := (net_servers rn)(servername \<mapsto> a)\<rparr>"

definition DeleteServer :: "'n \<Rightarrow> ('e, 'n, 'st, 'b) Network \<Rightarrow> ('e, 'n, 'st, 'b) Network" where
  "DeleteServer servername rn = rn\<lparr>net_servers := (net_servers rn)(servername := None)\<rparr>"

definition Connect :: "'e \<Rightarrow> 'n \<Rightarrow> ('e, 'n, 'st, 'b) Network \<Rightarrow> ('e, 'n, 'st, 'b) Network" where
  "Connect endname servername rn = rn\<lparr>connections := (connections rn)(endname \<mapsto> servername)\<rparr>"

definition Enable :: "'e \<Rightarrow> bool \<Rightarrow> ('e, 'n, 'st, 'b) Network \<Rightarrow> ('e, 'n, 'st, 'b) Network" where
  "Enable endname b rn = rn\<lparr>net_enabled := (net_enabled rn)(endname \<mapsto> b)\<rparr>"

definition net_GetCount :: "'n \<Rightarrow> ('e, 'n, 'st, 'b) Network \<Rightarrow> int go" where
  "net_GetCount servername rn =
     (case net_servers rn servername of
        None \<Rightarrow> Inl NilDereference
      | Some a \<Rightarrow> gbind (go_idx (server_heap rn) (int a)) (\<lambda>svr. Inr (server_GetCount svr)))"

section \<open>A call\<close>

text \<open>The random choices of one call: whether the request is dropped, whether the reply is
  dropped (both only when the network is unreliable), and whether the handler returned before
  \<open>ProcessReq\<close> gave up waiting for it.\<close>

record choices =
  drop_request :: bool
  drop_reply :: bool
  handler_in_time :: bool

definition failed_call :: "'b replyMsg" where
  "failed_call = \<lparr>rep_ok = False, rep_reply = None\<rparr>"

definition ProcessReq_reply ::
  "choices \<Rightarrow> bool \<Rightarrow> bool \<Rightarrow> 'b replyMsg \<Rightarrow> 'b replyMsg" where
  "ProcessReq_reply ch serverDead rel reply =
     (if handler_in_time ch = False \<or> serverDead then failed_call
      else if rel = False \<and> drop_reply ch then failed_call
      else reply)"

definition ProcessReq ::
  "choices \<Rightarrow> (('e, 'n, 'st, 'b) Network \<Rightarrow> ('e, 'n, 'st, 'b) Network) \<Rightarrow> ('e, 'b) reqMsg \<Rightarrow>
   ('e, 'n, 'st, 'b) Network \<Rightarrow> (('e, 'n, 'st, 'b) Network \<times> 'b replyMsg) go" where
  "ProcessReq ch others req rn =
     (case ReadEndnameInfo (req_endname req) rn of
        (True, Some servername, Some server, rel, longreordering) \<Rightarrow>
          if rel = False \<and> drop_request ch then Inr (others rn, failed_call)
          else
            gbind (go_idx (server_heap rn) (int server)) (\<lambda>svr.
            gbind (server_dispatch req svr) (\<lambda>(svr, r).
            let rn = others (rn\<lparr>server_heap := (server_heap rn)[server := svr]\<rparr>);
                serverDead = IsServerDead (req_endname req) servername server rn
            in Inr (rn, ProcessReq_reply ch serverDead rel r)))
      | _ \<Rightarrow> Inr (others rn, failed_call))"

definition Call ::
  "choices \<Rightarrow> (('e, 'n, 'st, 'b) Network \<Rightarrow> ('e, 'n, 'st, 'b) Network) \<Rightarrow> 'e \<Rightarrow> string \<Rightarrow> 'b \<Rightarrow>
   ('e, 'n, 'st, 'b) Network \<Rightarrow> (('e, 'n, 'st, 'b) Network \<times> 'b option) go" where
  "Call ch others endname svcMeth args rn =
     gbind (ProcessReq ch others \<lparr>req_endname = endname, req_svcMeth = svcMeth, req_args = args\<rparr> rn) (\<lambda>(rn, rep).
     Inr (rn, if rep_ok rep then rep_reply rep else None))"

section \<open>Splitting the method name\<close>

lemma LastIndex_split:
  assumes "c \<notin> set m"
  shows "LastIndex (s @ c # m) c = int (length s)"
proof -
  let ?x = "s @ c # m" and ?k = "length s"
  have "[0..<length ?x] = [0..<?k] @ ?k # [Suc ?k..<length ?x]"
    using upt_add_eq_append [of 0 ?k "Suc (length m)"] upt_conv_Cons [of ?k "?k + Suc (length m)"] by simp
  moreover have "filter (\<lambda>i. ?x ! i = c) [Suc ?k..<length ?x] = []"
  proof -
    have "?x ! i \<noteq> c" if "Suc ?k \<le> i" "i < length ?x" for i
    proof -
      have "?x ! i = m ! (i - Suc ?k)" using that(1) by (simp add: nth_append nth_Cons')
      moreover have "i - Suc ?k < length m" using that by simp
      ultimately show ?thesis using assms by (metis nth_mem)
    qed
    then show ?thesis by (intro filter_False) (metis atLeastLessThan_iff set_upt)
  qed
  ultimately have "filter (\<lambda>i. ?x ! i = c) [0..<length ?x] = filter (\<lambda>i. ?x ! i = c) [0..<?k] @ [?k]"
    by (simp only: filter_append filter.simps) simp
  then show ?thesis
    unfolding LastIndex_def by (cases "filter (\<lambda>i. ?x ! i = c) [0..<?k]") simp_all
qed

lemma server_dispatch_ok:
  assumes "req_svcMeth req = svc @ CHR ''.'' # meth" and "CHR ''.'' \<notin> set meth"
    and "sv_services rs svc = Some sv" and "svc_methods sv meth = Some f"
    and "f (req_args req) (svc_rcvr sv) = Inr (st, r)"
  shows "server_dispatch req rs =
    Inr (rs\<lparr>sv_count := sv_count rs + 1, sv_services := (sv_services rs)(svc \<mapsto> sv\<lparr>svc_rcvr := st\<rparr>)\<rparr>,
         \<lparr>rep_ok = True, rep_reply = Some r\<rparr>)"
proof -
  have "go_slice_to (svc @ CHR ''.'' # meth) (int (length svc)) = Inr svc"
    "go_slice_from (svc @ CHR ''.'' # meth) (int (length svc) + 1) = Inr meth"
    by (simp_all add: go_slice_to_def go_slice_from_def nat_add_distrib)
  then show ?thesis
    using assms by (simp add: server_dispatch_def LastIndex_split service_dispatch_def Let_def)
qed

section \<open>Calls\<close>

lemma ReadEndnameInfo_live:
  "ReadEndnameInfo e rn = (True, Some n, Some a, rel, lr) \<longleftrightarrow>
     net_enabled rn e = Some True \<and> connections rn e = Some n \<and> net_servers rn n = Some a \<and>
     rel = reliable rn \<and> lr = longReordering rn"
  by (auto simp: ReadEndnameInfo_def Let_def map_zero_def bind_eq_Some_conv split: option.splits)

lemma ProcessReq_live:
  assumes "net_enabled rn (req_endname req) = Some True" "connections rn (req_endname req) = Some n"
    "net_servers rn n = Some a"
  shows "ProcessReq ch others req rn =
    (if reliable rn = False \<and> drop_request ch then Inr (others rn, failed_call)
     else gbind (go_idx (server_heap rn) (int a)) (\<lambda>svr.
          gbind (server_dispatch req svr) (\<lambda>(svr, r).
          let rn' = others (rn\<lparr>server_heap := (server_heap rn)[a := svr]\<rparr>)
          in Inr (rn', ProcessReq_reply ch (IsServerDead (req_endname req) n a rn') (reliable rn) r))))"
  using assms by (simp add: ProcessReq_def ReadEndnameInfo_def Let_def)

lemma ProcessReq_dead:
  assumes "\<not> (\<exists>n a. net_enabled rn (req_endname req) = Some True \<and>
      connections rn (req_endname req) = Some n \<and> net_servers rn n = Some a)"
  shows "ProcessReq ch others req rn = Inr (others rn, failed_call)"
proof -
  have "\<not> (\<exists>n a rel lr. ReadEndnameInfo (req_endname req) rn = (True, Some n, Some a, rel, lr))"
    using assms by (simp add: ReadEndnameInfo_live)
  then show ?thesis
    unfolding ProcessReq_def by (auto split: prod.splits bool.splits option.splits)
qed

lemma ProcessReq_positive:
  assumes "ProcessReq ch others req rn = Inr (rn', rep)" and "rep_ok rep"
  shows "\<exists>n a. net_enabled rn (req_endname req) = Some True \<and> connections rn (req_endname req) = Some n \<and>
    net_servers rn n = Some a \<and> net_servers rn' n = Some a \<and> net_enabled rn' (req_endname req) = Some True"
proof (cases "\<exists>n a. net_enabled rn (req_endname req) = Some True \<and>
      connections rn (req_endname req) = Some n \<and> net_servers rn n = Some a")
  case False
  from ProcessReq_dead [OF this, of ch others] assms show ?thesis by (simp add: failed_call_def)
next
  case True
  then obtain n a where na: "net_enabled rn (req_endname req) = Some True"
    "connections rn (req_endname req) = Some n" "net_servers rn n = Some a" by blast
  from assms have "\<not> IsServerDead (req_endname req) n a rn'"
    by (auto simp: ProcessReq_live [OF na] ProcessReq_reply_def failed_call_def gbind_eq_Inr Let_def
        split: if_splits)
  with na show ?thesis by (auto simp: IsServerDead_def map_zero_def split: option.splits)
qed

section \<open>Links as switches\<close>

text \<open>What the testers rely on when they connect and disconnect servers: switching one end
  point changes that one only.\<close>

locale link_switch =
  fixes on :: "'net \<Rightarrow> 'e \<Rightarrow> bool" and switch :: "'e \<Rightarrow> bool \<Rightarrow> 'net \<Rightarrow> 'net"
  assumes on_switch: "on (switch e b net) e' = (if e' = e then b else on net e')"
begin

lemma on_fold: "on (fold (\<lambda>e. switch e b) es net) e' = (if e' \<in> set es then b else on net e')"
  by (induction es arbitrary: net) (auto simp: on_switch)

lemma on_fold_if:
  "on (fold (\<lambda>j net. if P j then switch (f j) b net else net) js net) e' =
     (if \<exists>j\<in>set js. P j \<and> f j = e' then b else on net e')"
  by (induction js arbitrary: net) (auto simp: on_switch)

end

definition link_on :: "('e, 'n, 'st, 'b) Network \<Rightarrow> 'e \<Rightarrow> bool" where
  "link_on rn e = map_zero False (net_enabled rn) e"

interpretation net_links: link_switch link_on Enable
  by unfold_locales (simp add: link_on_def Enable_def)

end
