(* ===== verification/Raft_Config.thy ===== *)
theory Raft_Config
  imports Raft Labrpc Go_Strings
begin

text \<open>
  The test harness of Raft (\<^verbatim>\<open>src/raft/config.go\<close>): it builds the network, starts, crashes,
  connects and disconnects peers, and checks what the peers apply. Commands are integers, as in
  the tests. A running peer saves its state through the persister the harness holds a pointer
  to, so the harness reads the persister of the peer while it runs and its own copy afterwards.
  A failing check (\<open>t.Fatalf\<close>, \<open>log.Fatalf\<close>) is an error value.
\<close>

section \<open>State\<close>

type_synonym test_net = "(string, nat, unit, unit) Network"

record config =
  cf_net :: test_net
  cf_n :: nat
  cf_done :: bool
  cf_rafts :: "int Raft option list"
  cf_applyErr :: "string list"
  cf_connected :: "bool list"
  cf_saved :: "int gob Persister option list"
  cf_endnames :: "string list option list"
  cf_logs :: "(int \<rightharpoonup> int) list"

definition endname :: "config \<Rightarrow> nat \<Rightarrow> nat \<Rightarrow> string" where
  "endname cfg i j = (case cf_endnames cfg ! i of None \<Rightarrow> [] | Some es \<Rightarrow> es ! j)"

section \<open>Connecting and disconnecting\<close>

definition go_endname :: "config \<Rightarrow> nat \<Rightarrow> nat \<Rightarrow> string go" where
  "go_endname cfg i j = (case cf_endnames cfg ! i of None \<Rightarrow> Inl IndexOutOfRange | Some es \<Rightarrow> go_idx es (int j))"

definition connect :: "nat \<Rightarrow> config \<Rightarrow> config go" where
  "connect i cfg =
     (let connected = (cf_connected cfg)[i := True] in
      gbind (gfold (\<lambda>j net. if connected ! j
               then gbind (go_endname cfg i j) (\<lambda>e. Inr (Enable e True net)) else Inr net)
             [0..<cf_n cfg] (cf_net cfg)) (\<lambda>net.
      gbind (gfold (\<lambda>j net. if connected ! j
               then gbind (go_endname cfg j i) (\<lambda>e. Inr (Enable e True net)) else Inr net)
             [0..<cf_n cfg] net) (\<lambda>net.
      Inr (cfg\<lparr>cf_connected := connected, cf_net := net\<rparr>))))"

definition disconnect :: "nat \<Rightarrow> config \<Rightarrow> config" where
  "disconnect i cfg =
     (let connected = (cf_connected cfg)[i := False];
          net = cf_net cfg;
          net = fold (\<lambda>j net. if cf_endnames cfg ! i \<noteq> None then Enable (endname cfg i j) False net else net)
                  [0..<cf_n cfg] net;
          net = fold (\<lambda>j net. if cf_endnames cfg ! j \<noteq> None then Enable (endname cfg j i) False net else net)
                  [0..<cf_n cfg] net
      in cfg\<lparr>cf_connected := connected, cf_net := net\<rparr>)"

definition setunreliable :: "bool \<Rightarrow> config \<Rightarrow> config" where
  "setunreliable unrel cfg = cfg\<lparr>cf_net := Reliable (\<not> unrel) (cf_net cfg)\<rparr>"

definition setlongreordering :: "bool \<Rightarrow> config \<Rightarrow> config" where
  "setlongreordering longrel cfg = cfg\<lparr>cf_net := LongReordering longrel (cf_net cfg)\<rparr>"

definition rpcCount :: "nat \<Rightarrow> config \<Rightarrow> int go" where
  "rpcCount server cfg = net_GetCount server (cf_net cfg)"

section \<open>Crashing and starting\<close>

definition saved_now :: "config \<Rightarrow> nat \<Rightarrow> int gob Persister option" where
  "saved_now cfg i = (case cf_rafts cfg ! i of
     Some rf \<Rightarrow> map_option (\<lambda>_. persister rf) (cf_saved cfg ! i) | None \<Rightarrow> cf_saved cfg ! i)"

definition crash1 :: "nat \<Rightarrow> config \<Rightarrow> config" where
  "crash1 i cfg =
     (let cfg = disconnect i cfg;
          cfg = cfg\<lparr>cf_net := DeleteServer i (cf_net cfg)\<rparr>;
          saved = map_option Copy (saved_now cfg i);
          cfg = cfg\<lparr>cf_saved := (cf_saved cfg)[i := saved], cf_rafts := (cf_rafts cfg)[i := None]\<rparr>
      in cfg\<lparr>cf_saved := (cf_saved cfg)[i :=
            map_option (\<lambda>ps. SaveRaftState (ReadRaftState ps) MakePersister) saved]\<rparr>)"

definition make_ends ::
  "string list \<Rightarrow> nat \<Rightarrow> (string, nat, 'st, 'b) Network \<Rightarrow> (string, nat, 'st, 'b) Network go" where
  "make_ends names n net =
     gfold (\<lambda>j net. gbind (MakeEnd (names ! j) net) (\<lambda>net. Inr (Connect (names ! j) j net))) [0..<n] net"

text \<open>The exported methods of a peer, as reflection lists them. The network of the harness keeps
  the table of services and the connections; it carries no message bodies. The network that does is in
  \<open>Raft_Networked\<close>; \<open>Raft_Harness\<close> puts the two together.\<close>

definition reflected :: "string \<Rightarrow> nat \<Rightarrow> nat \<Rightarrow> (unit, unit) rmethod" where
  "reflected name nin nout = \<lparr>m_Name = name, m_PkgPath = [], m_NumIn = nin, m_In2Ptr = (nin = 3),
     m_NumOut = nout, m_Func = (\<lambda>_ st. Inr (st, ()))\<rparr>"

definition raft_methods :: "(unit, unit) rmethod list" where
  "raft_methods = [reflected ''AppendEntries'' 3 0, reflected ''BeCandidate'' 1 0, reflected ''BeFollower'' 2 0,
     reflected ''BeLeader'' 1 0, reflected ''GetLastLogIndex'' 1 1, reflected ''GetState'' 1 2,
     reflected ''InstallSnapshot'' 3 0, reflected ''Kill'' 1 0, reflected ''RequestVote'' 3 0,
     reflected ''Start'' 2 3, reflected ''StartAppendLog'' 1 0]"

text \<open>\<open>names\<close> are the \<open>n\<close> random names of the new end points.\<close>

definition start1 :: "string list \<Rightarrow> nat \<Rightarrow> config \<Rightarrow> config go" where
  "start1 names i cfg =
     (let cfg = crash1 i cfg;
          cfg = cfg\<lparr>cf_endnames := (cf_endnames cfg)[i := Some names]\<rparr> in
      gbind (make_ends names (cf_n cfg) (cf_net cfg)) (\<lambda>net.
      let saved = (case cf_saved cfg ! i of Some ps \<Rightarrow> Copy ps | None \<Rightarrow> MakePersister);
          rf = Make [0..<cf_n cfg] (int i) saved;
          (srv, net) = new_server (AddService (MakeService ''Raft'' () raft_methods) MakeServer) net
      in Inr (cfg\<lparr>cf_saved := (cf_saved cfg)[i := Some saved], cf_rafts := (cf_rafts cfg)[i := Some rf],
                  cf_net := AddServer i srv net\<rparr>)))"

definition empty_config :: "nat \<Rightarrow> config" where
  "empty_config n = \<lparr>cf_net = MakeNetwork, cf_n = n, cf_done = False, cf_rafts = replicate n None,
     cf_applyErr = replicate n [], cf_connected = replicate n False, cf_saved = replicate n None,
     cf_endnames = replicate n None, cf_logs = replicate n Map.empty\<rparr>"

definition make_config :: "(nat \<Rightarrow> string list) \<Rightarrow> nat \<Rightarrow> bool \<Rightarrow> config go" where
  "make_config names n unreliable =
     (let cfg = setunreliable unreliable (empty_config n);
          cfg = cfg\<lparr>cf_net := LongDelays True (cf_net cfg)\<rparr> in
      gbind (gfold (\<lambda>i cfg. start1 (names i) i (cfg\<lparr>cf_logs := (cf_logs cfg)[i := Map.empty]\<rparr>)) [0..<n] cfg) (\<lambda>cfg.
      gfold connect [0..<n] cfg))"

definition cleanup :: "config \<Rightarrow> config" where
  "cleanup cfg = cfg\<lparr>cf_rafts := map (map_option Kill) (cf_rafts cfg), cf_done := True\<rparr>"

section \<open>Checks\<close>

text \<open>The reader of server \<open>i\<close>'s apply channel handles one message.\<close>

definition apply_reader :: "nat \<Rightarrow> int ApplyMsg \<Rightarrow> config \<Rightarrow> config go" where
  "apply_reader i m cfg =
     (if AM_UseSnapshot m then Inr cfg
      else case AM_Command m of
        None \<Rightarrow> Inl (LogFatal ''committed command is not an int'')
      | Some v \<Rightarrow>
          let clash = (\<exists>log\<in>set (cf_logs cfg). case log (AM_Index m) of None \<Rightarrow> False | Some old \<Rightarrow> old \<noteq> v);
              prevok = (cf_logs cfg ! i) (AM_Index m - 1) \<noteq> None;
              cfg = cfg\<lparr>cf_logs := (cf_logs cfg)[i := (cf_logs cfg ! i)(AM_Index m \<mapsto> v)]\<rparr>
          in if AM_Index m > 1 \<and> prevok = False then Inl (LogFatal ''apply out of order'')
             else if clash then Inl (LogFatal ''commit index'')
             else Inr cfg)"

text \<open>One iteration of \<open>checkOneLeader\<close>: \<^const>\<open>None\<close> when no connected server leads.\<close>

definition leaders_by_term :: "config \<Rightarrow> (int \<times> nat list) list go" where
  "leaders_by_term cfg =
     gfold (\<lambda>i acc.
       if cf_connected cfg ! i then
         (case cf_rafts cfg ! i of
            None \<Rightarrow> Inl NilDereference
          | Some rf \<Rightarrow> (case GetState rf of (t, leader) \<Rightarrow>
              Inr (if leader then map_append t i acc else acc)))
       else Inr acc) [0..<cf_n cfg] []"

definition checkOneLeader_iter :: "config \<Rightarrow> nat option go" where
  "checkOneLeader_iter cfg =
     gbind (leaders_by_term cfg) (\<lambda>leaders.
     if (\<exists>(t, ls)\<in>set leaders. length ls > 1) then Inl (LogFatal ''term has (>1) leaders'')
     else if leaders = [] then Inr None
     else
       let lastTermWithLeader = fold (\<lambda>(t, ls) m. if t > m then t else m) leaders (-1) in
       gbind (go_idx (map_zero [] (map_of leaders) lastTermWithLeader) 0) (\<lambda>i. Inr (Some i)))"

text \<open>The states the harness sees at its successive attempts are an argument; it makes at most
  ten.\<close>

fun checkOneLeader_loop :: "config list \<Rightarrow> nat go" where
  "checkOneLeader_loop [] = Inl (LogFatal ''expected one leader, got none'')"
| "checkOneLeader_loop (cfg # cfgs) =
     gbind (checkOneLeader_iter cfg) (\<lambda>r. case r of Some i \<Rightarrow> Inr i | None \<Rightarrow> checkOneLeader_loop cfgs)"

definition checkOneLeader :: "config list \<Rightarrow> nat go" where
  "checkOneLeader cfgs = checkOneLeader_loop (take 10 cfgs)"

definition checkTerms :: "config \<Rightarrow> int go" where
  "checkTerms cfg =
     gfold (\<lambda>i term.
       if cf_connected cfg ! i then
         (case cf_rafts cfg ! i of
            None \<Rightarrow> Inl NilDereference
          | Some rf \<Rightarrow>
              let xterm = fst (GetState rf) in
              if term = -1 then Inr xterm
              else if term \<noteq> xterm then Inl (LogFatal ''servers disagree on term'')
              else Inr term)
       else Inr term) [0..<cf_n cfg] (-1)"

definition checkNoLeader :: "config \<Rightarrow> unit go" where
  "checkNoLeader cfg =
     gfold (\<lambda>i u.
       if cf_connected cfg ! i then
         (case cf_rafts cfg ! i of
            None \<Rightarrow> Inl NilDereference
          | Some rf \<Rightarrow> if snd (GetState rf) then Inl (LogFatal ''expected no leader'') else Inr ())
       else Inr ()) [0..<cf_n cfg] ()"

definition nCommitted :: "int \<Rightarrow> config \<Rightarrow> (nat \<times> int) go" where
  "nCommitted index cfg =
     gfold (\<lambda>i (n, cmd).
       if cf_applyErr cfg ! i \<noteq> [] then Inl (LogFatal (cf_applyErr cfg ! i))
       else case (cf_logs cfg ! i) index of
         None \<Rightarrow> Inr (n, cmd)
       | Some cmd1 \<Rightarrow>
           if n > 0 \<and> cmd \<noteq> cmd1 then Inl (LogFatal ''committed values do not match'')
           else Inr (n + 1, cmd1)) [0..<length (cf_rafts cfg)] (0, -1)"

text \<open>\<open>wait\<close>: at most thirty looks, each with the state it sees and the one it sees after
  its sleep; the result is the command, or -1 once a peer has left
  the term.\<close>

definition moved_on :: "int \<Rightarrow> config \<Rightarrow> bool go" where
  "moved_on startTerm cfg =
     gfold (\<lambda>r b. if b then Inr True else case r of
         None \<Rightarrow> Inl NilDereference | Some rf \<Rightarrow> Inr (fst (GetState rf) > startTerm)) (cf_rafts cfg) False"

fun wait_loop :: "int \<Rightarrow> nat \<Rightarrow> int \<Rightarrow> (config \<times> config) list \<Rightarrow> bool go" where
  "wait_loop index n startTerm [] = Inr False"
| "wait_loop index n startTerm ((cfg, later) # cfgs) =
     gbind (nCommitted index cfg) (\<lambda>(nd, _).
     if nd \<ge> n then Inr False
     else if startTerm > -1 then
       gbind (moved_on startTerm later) (\<lambda>b. if b then Inr True else wait_loop index n startTerm cfgs)
     else wait_loop index n startTerm cfgs)"

definition wait :: "int \<Rightarrow> nat \<Rightarrow> int \<Rightarrow> (config \<times> config) list \<Rightarrow> config \<Rightarrow> int go" where
  "wait index n startTerm cfgs last_cfg =
     gbind (wait_loop index n startTerm (take 30 cfgs)) (\<lambda>moved.
     if moved then Inr (-1)
     else gbind (nCommitted index last_cfg) (\<lambda>(nd, cmd).
       if nd < n then Inl (LogFatal ''only some decided'') else Inr cmd))"

section \<open>Links follow the connections\<close>

definition started :: "config \<Rightarrow> nat \<Rightarrow> bool" where
  "started cfg i \<longleftrightarrow> (\<exists>es. cf_endnames cfg ! i = Some es \<and> length es = cf_n cfg)"

definition names_ok :: "config \<Rightarrow> bool" where
  "names_ok cfg \<longleftrightarrow> length (cf_connected cfg) = cf_n cfg \<and> length (cf_endnames cfg) = cf_n cfg \<and>
     (\<forall>i<cf_n cfg. cf_endnames cfg ! i \<noteq> None \<longrightarrow> started cfg i) \<and>
     (\<forall>i<cf_n cfg. cf_connected cfg ! i \<longrightarrow> started cfg i) \<and>
     (\<forall>i<cf_n cfg. \<forall>j<cf_n cfg. started cfg i \<longrightarrow> net_ends (cf_net cfg) (endname cfg i j)) \<and>
     (\<forall>i<cf_n cfg. \<forall>j<cf_n cfg. \<forall>i'<cf_n cfg. \<forall>j'<cf_n cfg. started cfg i \<longrightarrow> started cfg i' \<longrightarrow>
        endname cfg i j = endname cfg i' j' \<longrightarrow> i = i' \<and> j = j')"

definition links_ok :: "config \<Rightarrow> bool" where
  "links_ok cfg \<longleftrightarrow> names_ok cfg \<and>
     (\<forall>i<cf_n cfg. \<forall>j<cf_n cfg. started cfg i \<longrightarrow>
        link_on (cf_net cfg) (endname cfg i j) = (cf_connected cfg ! i \<and> cf_connected cfg ! j))"

lemma go_endname_ok: "started cfg i \<Longrightarrow> j < cf_n cfg \<Longrightarrow> go_endname cfg i j = Inr (endname cfg i j)"
  by (auto simp: started_def go_endname_def endname_def go_idx_def)

lemma started_Some: "started cfg i \<Longrightarrow> cf_endnames cfg ! i \<noteq> None"
  by (auto simp: started_def)

lemma net_ends_fold [simp]:
  "net_ends (fold (\<lambda>j net. if P j then Enable (f j) b net else net) js net) = net_ends net"
  by (induction js arbitrary: net) (auto simp: Enable_def)

lemma endname_frame [simp]:
  "endname (cfg\<lparr>cf_connected := c, cf_net := n\<rparr>) = endname cfg"
  "started (cfg\<lparr>cf_connected := c, cf_net := n\<rparr>) = started cfg"
  by (auto simp: endname_def started_def fun_eq_iff)

lemma connect_eq:
  assumes ok: "names_ok cfg" and i: "i < cf_n cfg" and st: "started cfg i"
  defines "c \<equiv> (cf_connected cfg)[i := True]"
  shows "connect i cfg = Inr (cfg\<lparr>cf_connected := c, cf_net :=
    fold (\<lambda>j net. if c ! j then Enable (endname cfg j i) True net else net) [0..<cf_n cfg]
      (fold (\<lambda>j net. if c ! j then Enable (endname cfg i j) True net else net) [0..<cf_n cfg] (cf_net cfg))\<rparr>)"
proof -
  have "gfold (\<lambda>j net. if c ! j then gbind (go_endname cfg i j) (\<lambda>e. Inr (Enable e True net)) else Inr net)
      [0..<cf_n cfg] net =
    Inr (fold (\<lambda>j net. if c ! j then Enable (endname cfg i j) True net else net) [0..<cf_n cfg] net)" for net :: test_net
    using st by (intro gfold_Inr) (auto simp: go_endname_ok)
  moreover have "gfold (\<lambda>j net. if c ! j then gbind (go_endname cfg j i) (\<lambda>e. Inr (Enable e True net)) else Inr net)
      [0..<cf_n cfg] net =
    Inr (fold (\<lambda>j net. if c ! j then Enable (endname cfg j i) True net else net) [0..<cf_n cfg] net)" for net :: test_net
  proof (rule gfold_Inr [where g = "\<lambda>j net. if c ! j then Enable (endname cfg j i) True net else net"])
    fix j and net :: test_net assume "j \<in> set [0..<cf_n cfg]"
    then have "c ! j \<Longrightarrow> started cfg j"
      using ok st by (cases "j = i") (auto simp: c_def names_ok_def)
    then show "(if c ! j then gbind (go_endname cfg j i) (\<lambda>e. Inr (Enable e True net)) else Inr net) =
        Inr (if c ! j then Enable (endname cfg j i) True net else net)"
      using i by (auto simp: go_endname_ok)
  qed
  ultimately show ?thesis by (simp add: connect_def c_def Let_def)
qed

lemma connect_links:
  assumes ok: "links_ok cfg" and i: "i < cf_n cfg" and st: "started cfg i"
  shows "\<exists>cfg'. connect i cfg = Inr cfg' \<and> links_ok cfg' \<and> cf_n cfg' = cf_n cfg \<and>
    cf_connected cfg' = (cf_connected cfg)[i := True]"
proof -
  let ?c = "(cf_connected cfg)[i := True]" and ?js = "[0..<cf_n cfg]"
  let ?n1 = "fold (\<lambda>j net. if ?c ! j then Enable (endname cfg i j) True net else net) ?js (cf_net cfg)"
  let ?n2 = "fold (\<lambda>j net. if ?c ! j then Enable (endname cfg j i) True net else net) ?js ?n1"
  let ?cfg = "cfg\<lparr>cf_connected := ?c, cf_net := ?n2\<rparr>"
  have nm: "names_ok cfg" using ok by (simp add: links_ok_def)
  have len: "length (cf_connected cfg) = cf_n cfg" using nm by (simp add: names_ok_def)
  have inj: "endname cfg a b = endname cfg a' b' \<longleftrightarrow> a = a' \<and> b = b'"
    if "a < cf_n cfg" "b < cf_n cfg" "a' < cf_n cfg" "b' < cf_n cfg" "started cfg a" "started cfg a'" for a b a' b'
    using nm that unfolding names_ok_def by metis
  have cst: "?c ! j \<Longrightarrow> j < cf_n cfg \<Longrightarrow> started cfg j" for j
    using nm st len by (cases "j = i") (auto simp: names_ok_def)
  have "link_on ?n2 (endname cfg a b) = (?c ! a \<and> ?c ! b)"
    if ab: "a < cf_n cfg" "b < cf_n cfg" "started cfg a" for a b
  proof -
    have 1: "(\<exists>j\<in>set ?js. ?c ! j \<and> endname cfg i j = endname cfg a b) \<longleftrightarrow> a = i \<and> ?c ! b"
      using inj ab i st by auto
    have 2: "(\<exists>j\<in>set ?js. ?c ! j \<and> endname cfg j i = endname cfg a b) \<longleftrightarrow> b = i \<and> ?c ! a"
      using inj ab i cst by auto
    have old: "link_on (cf_net cfg) (endname cfg a b) = (cf_connected cfg ! a \<and> cf_connected cfg ! b)"
      using ok ab by (simp add: links_ok_def)
    show ?thesis
      unfolding net_links.on_fold_if 1 2 old using i len by (auto simp: nth_list_update)
  qed
  moreover have "names_ok ?cfg"
    using nm cst len unfolding names_ok_def by simp
  ultimately have "links_ok ?cfg" by (simp add: links_ok_def)
  with connect_eq [OF nm i st] show ?thesis by simp
qed

lemma disconnect_links:
  assumes ok: "links_ok cfg" and i: "i < cf_n cfg"
  shows "links_ok (disconnect i cfg)"
proof -
  let ?c = "(cf_connected cfg)[i := False]" and ?js = "[0..<cf_n cfg]"
  let ?n1 = "fold (\<lambda>j net. if cf_endnames cfg ! i \<noteq> None then Enable (endname cfg i j) False net else net) ?js (cf_net cfg)"
  let ?n2 = "fold (\<lambda>j net. if cf_endnames cfg ! j \<noteq> None then Enable (endname cfg j i) False net else net) ?js ?n1"
  have nm: "names_ok cfg" using ok by (simp add: links_ok_def)
  have len: "length (cf_connected cfg) = cf_n cfg" using nm by (simp add: names_ok_def)
  have st: "cf_endnames cfg ! j \<noteq> None \<longleftrightarrow> started cfg j" if "j < cf_n cfg" for j
    using nm that started_Some unfolding names_ok_def by metis
  have inj: "endname cfg a b = endname cfg a' b' \<longleftrightarrow> a = a' \<and> b = b'"
    if "a < cf_n cfg" "b < cf_n cfg" "a' < cf_n cfg" "b' < cf_n cfg" "started cfg a" "started cfg a'" for a b a' b'
    using nm that unfolding names_ok_def by metis
  have "link_on ?n2 (endname cfg a b) = (?c ! a \<and> ?c ! b)"
    if ab: "a < cf_n cfg" "b < cf_n cfg" "started cfg a" for a b
  proof -
    have 1: "(\<exists>j\<in>set ?js. cf_endnames cfg ! i \<noteq> None \<and> endname cfg i j = endname cfg a b) \<longleftrightarrow> a = i"
      using inj [of i _ a b] ab i st [OF i] by auto
    have 2: "(\<exists>j\<in>set ?js. cf_endnames cfg ! j \<noteq> None \<and> endname cfg j i = endname cfg a b) \<longleftrightarrow> b = i"
      using inj [of _ i a b] ab i st by auto
    have old: "link_on (cf_net cfg) (endname cfg a b) = (cf_connected cfg ! a \<and> cf_connected cfg ! b)"
      using ok ab by (simp add: links_ok_def)
    show ?thesis
      unfolding net_links.on_fold_if 1 2 old using i len by (auto simp: nth_list_update)
  qed
  moreover have "names_ok (cfg\<lparr>cf_connected := ?c, cf_net := ?n2\<rparr>)"
    using nm len unfolding names_ok_def by (simp add: nth_list_update_cases)
  ultimately show ?thesis by (simp add: links_ok_def disconnect_def Let_def)
qed

text \<open>Starting a server gives it new end points, which are off until it is connected.\<close>

lemma make_ends_gen:
  assumes "gfold (\<lambda>j net. gbind (MakeEnd (names ! j) net) (\<lambda>net. Inr (Connect (names ! j) j net))) js net = Inr net'"
  shows "(\<forall>j\<in>set js. \<not> net_ends net (names ! j)) \<and> inj_on (\<lambda>j. names ! j) (set js) \<or> \<not> distinct js"
    and "\<And>e. net_ends net' e \<longleftrightarrow> net_ends net e \<or> (\<exists>j\<in>set js. e = names ! j)"
    and "\<And>e. link_on net' e \<longleftrightarrow> link_on net e \<and> \<not> (\<exists>j\<in>set js. e = names ! j)"
  using assms
proof (induction js arbitrary: net)
  case (Cons j js)
  {
    case 1
    then obtain net1 where net1: "MakeEnd (names ! j) net = Inr net1"
      "gfold (\<lambda>j net. gbind (MakeEnd (names ! j) net) (\<lambda>net. Inr (Connect (names ! j) j net))) js
         (Connect (names ! j) j net1) = Inr net'"
      by (auto simp: gbind_eq_Inr)
    from net1(1) have "\<not> net_ends net (names ! j)"
      "net_ends (Connect (names ! j) j net1) = (net_ends net)(names ! j := True)"
      by (auto simp: MakeEnd_def Connect_def split: if_splits)
    with Cons.IH(1) [OF net1(2)] show ?case by (auto simp: inj_on_def split: if_splits)
  next
    case 2
    then obtain net1 where net1: "MakeEnd (names ! j) net = Inr net1"
      "gfold (\<lambda>j net. gbind (MakeEnd (names ! j) net) (\<lambda>net. Inr (Connect (names ! j) j net))) js
         (Connect (names ! j) j net1) = Inr net'"
      by (auto simp: gbind_eq_Inr)
    from Cons.IH(2) [OF net1(2)] net1(1) show ?case
      by (auto simp: MakeEnd_def Connect_def split: if_splits)
  next
    case 3
    then obtain net1 where net1: "MakeEnd (names ! j) net = Inr net1"
      "gfold (\<lambda>j net. gbind (MakeEnd (names ! j) net) (\<lambda>net. Inr (Connect (names ! j) j net))) js
         (Connect (names ! j) j net1) = Inr net'"
      by (auto simp: gbind_eq_Inr)
    from Cons.IH(3) [OF net1(2)] net1(1) show ?case
      by (auto simp: MakeEnd_def Connect_def link_on_def split: if_splits)
  }
qed (auto simp: inj_on_def)

lemma names_ok_frame:
  assumes "cf_n cfg' = cf_n cfg" "cf_connected cfg' = cf_connected cfg" "cf_endnames cfg' = cf_endnames cfg"
    "net_ends (cf_net cfg') = net_ends (cf_net cfg)" "\<And>e. link_on (cf_net cfg') e = link_on (cf_net cfg) e"
  shows "links_ok cfg' = links_ok cfg"
proof -
  have "endname cfg' = endname cfg" "started cfg' = started cfg"
    using assms by (auto simp: endname_def started_def fun_eq_iff)
  then show ?thesis using assms by (simp add: links_ok_def names_ok_def)
qed

lemma crash1_links:
  assumes ok: "links_ok cfg" and i: "i < cf_n cfg"
  shows "links_ok (crash1 i cfg)" "cf_n (crash1 i cfg) = cf_n cfg"
    "cf_connected (crash1 i cfg) = (cf_connected cfg)[i := False]"
    "cf_endnames (crash1 i cfg) = cf_endnames cfg"
proof -
  have "links_ok (crash1 i cfg) = links_ok (disconnect i cfg)"
    by (rule names_ok_frame) (simp_all add: crash1_def DeleteServer_def Let_def link_on_def)
  with disconnect_links [OF ok i] show "links_ok (crash1 i cfg)" by simp
qed (simp_all add: crash1_def disconnect_def Let_def)

text \<open>What \<open>start1\<close> leaves of the names and links of the configuration in which the server is
  crashed.\<close>

lemma start1_shape:
  assumes ok: "links_ok cfg" and i: "i < cf_n cfg" and len: "length names = cf_n cfg"
    and res: "start1 names i cfg = Inr cfg'"
  shows "cf_n cfg' = cf_n cfg" "cf_connected cfg' = cf_connected (crash1 i cfg)"
    and "cf_endnames cfg' = (cf_endnames cfg)[i := Some names]"
    and "\<And>a b. a < cf_n cfg \<Longrightarrow> endname cfg' a b = (if a = i then names ! b else endname (crash1 i cfg) a b)"
    and "\<And>a. a < cf_n cfg \<Longrightarrow> started cfg' a = (a = i \<or> started (crash1 i cfg) a)"
    and "\<And>j. j < cf_n cfg \<Longrightarrow> \<not> net_ends (cf_net (crash1 i cfg)) (names ! j)"
    and "\<And>j k. j < cf_n cfg \<Longrightarrow> k < cf_n cfg \<Longrightarrow> names ! j = names ! k \<Longrightarrow> j = k"
    and "\<And>e. net_ends (cf_net cfg') e \<longleftrightarrow> net_ends (cf_net (crash1 i cfg)) e \<or> (\<exists>j<cf_n cfg. e = names ! j)"
    and "\<And>e. link_on (cf_net cfg') e \<longleftrightarrow> link_on (cf_net (crash1 i cfg)) e \<and> \<not> (\<exists>j<cf_n cfg. e = names ! j)"
proof -
  let ?c = "crash1 i cfg" and ?n = "cf_n cfg"
  note cr = crash1_links [OF ok i]
  from res obtain net where net: "make_ends names ?n (cf_net ?c) = Inr net"
    and cfg': "cf_n cfg' = ?n" "cf_connected cfg' = cf_connected ?c"
      "cf_endnames cfg' = (cf_endnames cfg)[i := Some names]"
      "net_ends (cf_net cfg') = net_ends net" "\<And>e. link_on (cf_net cfg') e = link_on net e"
    by (auto simp: start1_def Let_def gbind_eq_Inr cr new_server_def AddServer_def link_on_def)
  note me = make_ends_gen [OF net [unfolded make_ends_def]]
  have ce: "length (cf_endnames cfg) = ?n" using ok by (simp add: links_ok_def names_ok_def)
  show "cf_n cfg' = ?n" "cf_connected cfg' = cf_connected ?c" "cf_endnames cfg' = (cf_endnames cfg)[i := Some names]"
    by (rule cfg')+
  show "endname cfg' a b = (if a = i then names ! b else endname ?c a b)"
    "started cfg' a = (a = i \<or> started ?c a)" if "a < ?n" for a b
    using that i ce len by (auto simp: endname_def started_def cfg' cr nth_list_update)
  show "\<not> net_ends (cf_net ?c) (names ! j)" if "j < ?n" for j using me(1) that by auto
  show "j = k" if "j < ?n" "k < ?n" "names ! j = names ! k" for j k using me(1) that by (auto simp: inj_on_def)
  show "net_ends (cf_net cfg') e \<longleftrightarrow> net_ends (cf_net ?c) e \<or> (\<exists>j<?n. e = names ! j)"
    "link_on (cf_net cfg') e \<longleftrightarrow> link_on (cf_net ?c) e \<and> \<not> (\<exists>j<?n. e = names ! j)" for e
    using me(2,3) by (auto simp: cfg')
qed

lemma start1_names:
  assumes ok: "links_ok cfg" and i: "i < cf_n cfg" and len: "length names = cf_n cfg"
    and res: "start1 names i cfg = Inr cfg'"
  shows "names_ok cfg'"
proof -
  let ?c = "crash1 i cfg" and ?n = "cf_n cfg"
  note cr = crash1_links [OF ok i] and sh = start1_shape [OF ok i len res]
  have nm: "names_ok ?c" using cr(1) by (simp add: links_ok_def)
  have ce: "length (cf_endnames cfg) = ?n" using ok by (simp add: links_ok_def names_ok_def)
  have old_end: "net_ends (cf_net ?c) (endname ?c a b)" if "a < ?n" "b < ?n" "started ?c a" for a b
    using nm that cr(2) by (auto simp: names_ok_def)
  show ?thesis
    unfolding names_ok_def sh(1)
  proof (intro conjI allI impI)
    show "length (cf_connected cfg') = ?n" "length (cf_endnames cfg') = ?n"
      using nm ce by (simp_all add: sh(2,3) cr names_ok_def)
    fix a assume a: "a < ?n"
    { assume "cf_endnames cfg' ! a \<noteq> None"
      then show "started cfg' a" using nm a ce cr by (cases "a = i") (auto simp: sh(3,5) names_ok_def) }
    { assume "cf_connected cfg' ! a"
      then show "started cfg' a" using nm a cr by (auto simp: sh(2,5) names_ok_def) }
    fix b assume b: "b < ?n"
    { assume "started cfg' a"
      then show "net_ends (cf_net cfg') (endname cfg' a b)" using a b old_end by (auto simp: sh(4,5,8)) }
    fix a' b' assume ab: "a' < ?n" "b' < ?n" "started cfg' a" "started cfg' a'" "endname cfg' a b = endname cfg' a' b'"
    have "started ?c a \<Longrightarrow> started ?c a' \<Longrightarrow> endname ?c a b = endname ?c a' b' \<Longrightarrow> a = a' \<and> b = b'"
      using nm a b ab(1,2) cr(2) unfolding names_ok_def by metis
    then show "a = a'" "b = b'"
      using a b ab old_end sh(6,7) by (auto simp: sh(4,5) split: if_splits) metis+
  qed
qed

lemma start1_links:
  assumes ok: "links_ok cfg" and i: "i < cf_n cfg" and len: "length names = cf_n cfg"
    and res: "start1 names i cfg = Inr cfg'"
  shows "links_ok cfg' \<and> cf_n cfg' = cf_n cfg \<and> started cfg' i \<and>
    cf_connected cfg' = (cf_connected cfg)[i := False]"
proof -
  let ?c = "crash1 i cfg" and ?n = "cf_n cfg"
  note cr = crash1_links [OF ok i] and sh = start1_shape [OF ok i len res]
  have off: "\<not> cf_connected ?c ! i" using i ok by (simp add: cr links_ok_def names_ok_def)
  have "link_on (cf_net cfg') (endname cfg' a b) = (cf_connected cfg' ! a \<and> cf_connected cfg' ! b)"
    if ab: "a < ?n" "b < ?n" "started cfg' a" for a b
  proof (cases "a = i")
    case True
    with off ab show ?thesis by (auto simp: sh(2,4,9))
  next
    case False
    then have sa: "started ?c a" using ab by (simp add: sh(5))
    then have "net_ends (cf_net ?c) (endname ?c a b)" using cr(1,2) ab(1,2) by (auto simp: links_ok_def names_ok_def)
    then have "\<not> (\<exists>j<?n. endname ?c a b = names ! j)" using sh(6) by auto
    moreover have "link_on (cf_net ?c) (endname ?c a b) = (cf_connected ?c ! a \<and> cf_connected ?c ! b)"
      using cr(1,2) ab(1,2) sa by (simp add: links_ok_def)
    ultimately show ?thesis using False ab by (simp add: sh(2,4,9))
  qed
  with start1_names [OF assms] show ?thesis using i cr(3) by (simp add: links_ok_def sh(1,2,5))
qed

section \<open>Building a configuration\<close>

lemma make_ends_returns:
  assumes "distinct js" and "\<forall>j\<in>set js. \<not> net_ends net (names ! j)" and "inj_on (\<lambda>j. names ! j) (set js)"
  shows "\<exists>net'. gfold (\<lambda>j net. gbind (MakeEnd (names ! j) net) (\<lambda>net. Inr (Connect (names ! j) j net))) js net = Inr net'"
  using assms
proof (induction js arbitrary: net)
  case (Cons j js)
  let ?net = "Connect (names ! j) j (net\<lparr>net_ends := (net_ends net)(names ! j := True),
      net_enabled := (net_enabled net)(names ! j \<mapsto> False), connections := (connections net)(names ! j := None)\<rparr>)"
  have "\<forall>k\<in>set js. \<not> net_ends ?net (names ! k)"
    using Cons.prems by (auto simp: Connect_def inj_on_def)
  with Cons show ?case by (simp add: MakeEnd_def)
qed simp

definition start_inv :: "(nat \<Rightarrow> string list) \<Rightarrow> nat \<Rightarrow> nat \<Rightarrow> config \<Rightarrow> bool" where
  "start_inv names n i cfg \<longleftrightarrow> links_ok cfg \<and> cf_n cfg = n \<and> (\<forall>a<n. started cfg a \<longleftrightarrow> a < i) \<and>
     (\<forall>e. net_ends (cf_net cfg) e \<longrightarrow> (\<exists>a<i. \<exists>b<n. e = names a ! b))"

lemma net_ends_crash1 [simp]: "net_ends (cf_net (crash1 i cfg)) = net_ends (cf_net cfg)"
  by (simp add: crash1_def disconnect_def DeleteServer_def Let_def)

lemma start1_inv:
  assumes names: "\<And>a. length (names a) = n"
    and dist: "\<And>a b a' b'. b < n \<Longrightarrow> b' < n \<Longrightarrow> names a ! b = names a' ! b' \<Longrightarrow> a = a' \<and> b = b'"
    and inv: "start_inv names n i cfg" and i: "i < n"
  shows "\<exists>cfg'. start1 (names i) i (cfg\<lparr>cf_logs := l\<rparr>) = Inr cfg' \<and> start_inv names n (Suc i) cfg'"
proof -
  let ?cfg = "cfg\<lparr>cf_logs := l\<rparr>"
  have lk: "links_ok ?cfg = links_ok cfg" by (rule names_ok_frame) simp_all
  have ok: "links_ok ?cfg" and n: "cf_n ?cfg = n" using inv by (auto simp: start_inv_def lk)
  note cr = crash1_links [OF ok, of i]
  have "\<exists>net. make_ends (names i) n (cf_net (crash1 i ?cfg)) = Inr net"
    unfolding make_ends_def
  proof (rule make_ends_returns)
    show "\<forall>j\<in>set [0..<n]. \<not> net_ends (cf_net (crash1 i ?cfg)) (names i ! j)"
      using inv dist by (fastforce simp: start_inv_def)
    show "inj_on (\<lambda>j. names i ! j) (set [0..<n])" using dist by (auto simp: inj_on_def)
  qed simp
  then obtain net where net: "make_ends (names i) n (cf_net (crash1 i ?cfg)) = Inr net" by blast
  then obtain cfg' where res: "start1 (names i) i ?cfg = Inr cfg'"
    using cr n i by (simp add: start1_def Let_def new_server_def)
  have es: "cf_endnames cfg' = (cf_endnames cfg)[i := Some (names i)]"
    "net_ends (cf_net cfg') = net_ends net"
    using res net cr n i by (auto simp: start1_def Let_def new_server_def AddServer_def)
  from start1_links [OF ok _ _ res] n i names
  have post: "links_ok cfg'" "cf_n cfg' = n" "started cfg' i" by auto
  have "started cfg' a \<longleftrightarrow> a < Suc i" if "a < n" for a
    using inv that post(2,3) by (cases "a = i") (auto simp: start_inv_def started_def es less_Suc_eq)
  moreover have "\<exists>a<Suc i. \<exists>b<n. e = names a ! b" if "net_ends (cf_net cfg') e" for e
  proof -
    have "net_ends (cf_net cfg) e \<or> (\<exists>j<n. e = names i ! j)"
      using that make_ends_gen(2) [OF net [unfolded make_ends_def], of e] by (auto simp: es)
    moreover have "net_ends (cf_net cfg) e \<Longrightarrow> \<exists>a<i. \<exists>b<n. e = names a ! b"
      using inv by (simp add: start_inv_def)
    ultimately show ?thesis by (metis less_Suc_eq)
  qed
  ultimately show ?thesis using res post by (auto simp: start_inv_def)
qed

lemma starts_inv:
  assumes names: "\<And>a. length (names a) = n"
    and dist: "\<And>a b a' b'. b < n \<Longrightarrow> b' < n \<Longrightarrow> names a ! b = names a' ! b' \<Longrightarrow> a = a' \<and> b = b'"
    and inv: "start_inv names n 0 cfg" and m: "m \<le> n"
  shows "\<exists>cfg'. gfold (\<lambda>i cfg. start1 (names i) i (cfg\<lparr>cf_logs := (cf_logs cfg)[i := Map.empty]\<rparr>)) [0..<m] cfg
      = Inr cfg' \<and> start_inv names n m cfg'"
  using m
proof (induction m)
  case 0
  with inv show ?case by simp
next
  case (Suc m)
  then obtain cfg1 where cfg1: "gfold (\<lambda>i cfg. start1 (names i) i (cfg\<lparr>cf_logs := (cf_logs cfg)[i := Map.empty]\<rparr>)) [0..<m] cfg
      = Inr cfg1" "start_inv names n m cfg1" by auto
  from start1_inv [OF names dist cfg1(2)] Suc.prems obtain cfg2 where
    "start1 (names m) m (cfg1\<lparr>cf_logs := (cf_logs cfg1)[m := Map.empty]\<rparr>) = Inr cfg2"
    "start_inv names n (Suc m) cfg2" by (meson Suc_le_eq)
  with cfg1(1) show ?case by (simp add: gfold_append)
qed

lemma connect_started: "connect i cfg = Inr cfg' \<Longrightarrow> started cfg' = started cfg"
  by (auto simp: connect_def Let_def gbind_eq_Inr)

lemma connects_links:
  assumes "links_ok cfg" and "cf_n cfg = n" and "\<And>a. a < n \<Longrightarrow> started cfg a" and "m \<le> n"
  shows "\<exists>cfg'. gfold connect [0..<m] cfg = Inr cfg' \<and> links_ok cfg' \<and> cf_n cfg' = n \<and>
    (\<forall>a<n. started cfg' a) \<and> (\<forall>a<m. cf_connected cfg' ! a)"
  using assms(4)
proof (induction m)
  case 0
  with assms show ?case by auto
next
  case (Suc m)
  then obtain cfg1 where c1: "gfold connect [0..<m] cfg = Inr cfg1" "links_ok cfg1" "cf_n cfg1 = n"
    "\<forall>a<n. started cfg1 a" "\<forall>a<m. cf_connected cfg1 ! a" by auto
  from connect_links [OF c1(2), of m] c1(3,4) Suc.prems obtain cfg2 where
    c2: "connect m cfg1 = Inr cfg2" "links_ok cfg2" "cf_n cfg2 = n"
      "cf_connected cfg2 = (cf_connected cfg1)[m := True]" by auto
  moreover have "length (cf_connected cfg1) = n" using c1(2,3) by (simp add: links_ok_def names_ok_def)
  ultimately have "\<forall>a<Suc m. cf_connected cfg2 ! a"
    using c1(5) Suc.prems by (auto simp: nth_list_update less_Suc_eq)
  with c1 c2 connect_started [OF c2(1)] show ?case by (simp add: gfold_append)
qed

lemma make_config_links:
  assumes names: "\<And>a. length (names a) = n"
    and dist: "\<And>a b a' b'. b < n \<Longrightarrow> b' < n \<Longrightarrow> names a ! b = names a' ! b' \<Longrightarrow> a = a' \<and> b = b'"
  shows "\<exists>cfg. make_config names n unrel = Inr cfg \<and> links_ok cfg \<and> cf_n cfg = n \<and>
    (\<forall>i<n. cf_connected cfg ! i \<and> started cfg i)"
proof -
  let ?c0 = "(setunreliable unrel (empty_config n))\<lparr>cf_net := LongDelays True (cf_net (setunreliable unrel (empty_config n)))\<rparr>"
  have st: "\<not> started ?c0 a" if "a < n" for a
    using that by (simp add: started_def setunreliable_def empty_config_def)
  have "cf_n ?c0 = n" "length (cf_connected ?c0) = n" "length (cf_endnames ?c0) = n"
    "\<And>a. a < n \<Longrightarrow> cf_endnames ?c0 ! a = None" "\<And>a. a < n \<Longrightarrow> \<not> cf_connected ?c0 ! a"
    "\<And>e. \<not> net_ends (cf_net ?c0) e"
    by (simp_all add: setunreliable_def empty_config_def LongDelays_def Reliable_def MakeNetwork_def)
  with st have "start_inv names n 0 ?c0"
    unfolding start_inv_def links_ok_def names_ok_def by (simp only:) simp
  from starts_inv [OF names dist this order_refl] obtain cfg1 where
    c1: "gfold (\<lambda>i cfg. start1 (names i) i (cfg\<lparr>cf_logs := (cf_logs cfg)[i := Map.empty]\<rparr>)) [0..<n] ?c0 = Inr cfg1"
      "start_inv names n n cfg1" by blast
  then have l1: "links_ok cfg1" "cf_n cfg1 = n" "\<And>a. a < n \<Longrightarrow> started cfg1 a"
    by (simp_all add: start_inv_def)
  have "make_config names n unrel = gfold connect [0..<n] cfg1"
    unfolding make_config_def Let_def c1(1) by simp
  with connects_links [OF l1 order_refl] show ?thesis by metis
qed

section \<open>Committed entries\<close>

definition logs_agree :: "config \<Rightarrow> bool" where
  "logs_agree cfg \<longleftrightarrow> (\<forall>l\<in>set (cf_logs cfg). \<forall>m\<in>set (cf_logs cfg). \<forall>k x y. l k = Some x \<longrightarrow> m k = Some y \<longrightarrow> x = y)"

lemma apply_reader_agree:
  assumes "logs_agree cfg" and "apply_reader i m cfg = Inr cfg'"
  shows "logs_agree cfg'"
proof (cases "cf_logs cfg' = cf_logs cfg")
  case True
  with assms(1) show ?thesis by (simp add: logs_agree_def)
next
  case False
  with assms(2) obtain v where
    logs: "cf_logs cfg' = (cf_logs cfg)[i := (cf_logs cfg ! i)(AM_Index m \<mapsto> v)]"
    and nc: "\<forall>log\<in>set (cf_logs cfg). \<forall>old. log (AM_Index m) = Some old \<longrightarrow> old = v"
    by (auto simp: apply_reader_def Let_def split: if_splits option.splits)
  have i: "i < length (cf_logs cfg)" using False logs by (metis list_update_beyond not_le)
  have sub: "set (cf_logs cfg') \<subseteq> insert ((cf_logs cfg ! i)(AM_Index m \<mapsto> v)) (set (cf_logs cfg))"
    unfolding logs by (rule set_update_subset_insert)
  have look: "l k = Some x \<Longrightarrow> (if k = AM_Index m then x = v else \<exists>l0\<in>set (cf_logs cfg). l0 k = Some x)"
    if "l \<in> set (cf_logs cfg')" for l k x
  proof -
    assume lk: "l k = Some x"
    from that sub have "l = (cf_logs cfg ! i)(AM_Index m \<mapsto> v) \<or> l \<in> set (cf_logs cfg)" by blast
    with lk nc nth_mem [OF i] show ?thesis by (cases "k = AM_Index m") auto
  qed
  show ?thesis
    unfolding logs_agree_def
  proof (intro ballI allI impI)
    fix l l' k x y assume "l \<in> set (cf_logs cfg')" "l' \<in> set (cf_logs cfg')" "l k = Some x" "l' k = Some y"
    with look [of l k x] look [of l' k y] assms(1) show "x = y"
      by (auto simp: logs_agree_def split: if_splits)
  qed
qed

lemma nCommitted_gen:
  assumes agree: "logs_agree cfg" and err: "\<forall>i\<in>set is. cf_applyErr cfg ! i = []"
    and dom: "\<forall>i\<in>set is. i < length (cf_logs cfg)"
    and acc: "0 < c \<longrightarrow> (\<exists>l\<in>set (cf_logs cfg). l index = Some cmd)"
  shows "\<exists>cmd'. gfold (\<lambda>i (n, cmd).
       if cf_applyErr cfg ! i \<noteq> [] then Inl (LogFatal (cf_applyErr cfg ! i))
       else case (cf_logs cfg ! i) index of
         None \<Rightarrow> Inr (n, cmd)
       | Some cmd1 \<Rightarrow>
           if n > 0 \<and> cmd \<noteq> cmd1 then Inl (LogFatal ''committed values do not match'')
           else Inr (n + 1, cmd1)) is (c, cmd) =
     Inr (c + length (filter (\<lambda>i. (cf_logs cfg ! i) index \<noteq> None) is), cmd') \<and>
     (0 < c + length (filter (\<lambda>i. (cf_logs cfg ! i) index \<noteq> None) is) \<longrightarrow>
        (\<exists>l\<in>set (cf_logs cfg). l index = Some cmd'))"
  using err dom acc
proof (induction "is" arbitrary: c cmd)
  case (Cons i "is")
  show ?case
  proof (cases "(cf_logs cfg ! i) index")
    case None
    with Cons.IH [of c cmd] Cons.prems show ?thesis by simp
  next
    case (Some v)
    have i: "cf_logs cfg ! i \<in> set (cf_logs cfg)" using Cons.prems(2) by simp
    have "c = 0 \<or> cmd = v"
      using agree Cons.prems(3) i Some unfolding logs_agree_def by (cases c) blast+
    moreover have "\<exists>l\<in>set (cf_logs cfg). l index = Some v" using i Some by blast
    ultimately show ?thesis
      using Cons.IH [of "Suc c" v] Cons.prems Some by simp
  qed
qed auto

section \<open>Looking for leaders\<close>

definition leads :: "config \<Rightarrow> nat \<Rightarrow> bool" where
  "leads cfg i \<longleftrightarrow> cf_connected cfg ! i \<and> (case cf_rafts cfg ! i of None \<Rightarrow> False | Some rf \<Rightarrow> State rf = Leader)"

definition term_of :: "config \<Rightarrow> nat \<Rightarrow> int" where
  "term_of cfg i = (case cf_rafts cfg ! i of None \<Rightarrow> 0 | Some rf \<Rightarrow> CurrentTerm rf)"

lemma leaders_fold:
  defines "g \<equiv> \<lambda>P (T :: nat \<Rightarrow> int). fold (\<lambda>i acc. if P i then map_append (T i) i acc else acc)"
  shows "map_zero [] (map_of (g P T ks m)) t = map_zero [] (map_of m) t @ filter (\<lambda>i. P i \<and> T i = t) ks"
    and "distinct (map fst m) \<Longrightarrow> distinct (map fst (g P T ks m))"
    and "fst ` set (g P T ks m) = fst ` set m \<union> T ` {i \<in> set ks. P i}"
  unfolding g_def
  by (induction ks arbitrary: m) (auto simp: map_append_lookup map_append_keys)

lemma leaders_by_term_eq:
  assumes "\<And>i. i < cf_n cfg \<Longrightarrow> cf_connected cfg ! i \<Longrightarrow> cf_rafts cfg ! i \<noteq> None"
  shows "leaders_by_term cfg =
    Inr (fold (\<lambda>i acc. if leads cfg i then map_append (term_of cfg i) i acc else acc) [0..<cf_n cfg] [])"
  unfolding leaders_by_term_def
proof (rule gfold_Inr)
  fix i acc assume "i \<in> set [0..<cf_n cfg]"
  with assms [of i] show "(if cf_connected cfg ! i then
         (case cf_rafts cfg ! i of
            None \<Rightarrow> Inl NilDereference
          | Some rf \<Rightarrow> (case GetState rf of (t, leader) \<Rightarrow>
              Inr (if leader then map_append t i acc else acc)))
       else Inr acc) = Inr (if leads cfg i then map_append (term_of cfg i) i acc else acc)"
    by (auto simp: leads_def term_of_def GetState_def)
qed

lemma fold_max:
  fixes m :: int
  shows "fold (\<lambda>(t, ls) m. if t > m then t else m) xs m \<in> insert m (fst ` set xs) \<and>
    m \<le> fold (\<lambda>(t, ls) m. if t > m then t else m) xs m \<and>
    (\<forall>t\<in>fst ` set xs. t \<le> fold (\<lambda>(t, ls) m. if t > m then t else m) xs m)"
proof (induction xs arbitrary: m)
  case (Cons x xs)
  obtain t ls where x: "x = (t, ls)" by (cases x)
  from Cons [of "if t > m then t else m"] show ?case by (auto simp: x split: if_splits)
qed simp

lemma length_le_1:
  assumes "distinct xs" and "\<And>x y. x \<in> set xs \<Longrightarrow> y \<in> set xs \<Longrightarrow> x = y"
  shows "length xs \<le> 1"
proof (cases xs)
  case (Cons x ys)
  have "ys = []"
  proof (rule ccontr)
    assume "ys \<noteq> []"
    then obtain y zs where "ys = y # zs" by (cases ys) simp
    with Cons have "x \<in> set xs" "y \<in> set xs" "xs = x # y # zs" by simp_all
    with assms(1) assms(2) [of x y] show False by simp
  qed
  with Cons show ?thesis by simp
qed simp

text \<open>When no term has two connected leaders and terms are positive, an iteration of
  \<open>checkOneLeader\<close> does not fail; it finds the connected leader of the latest term, if there is
  a connected leader at all.\<close>

text \<open>The map of leaders and its last term, when a term has at most one leader.\<close>

lemma leader_table:
  assumes run: "\<And>i. i < cf_n cfg \<Longrightarrow> cf_connected cfg ! i \<Longrightarrow> cf_rafts cfg ! i \<noteq> None"
    and uniq: "\<And>t. length (filter (\<lambda>i. leads cfg i \<and> term_of cfg i = t) [0..<cf_n cfg]) \<le> 1"
  obtains ls lastT where
    "checkOneLeader_iter cfg = (if ls = [] then Inr None
       else gbind (go_idx (map_zero [] (map_of ls) lastT) 0) (\<lambda>i. Inr (Some i)))"
    "\<And>t. map_zero [] (map_of ls) t = filter (\<lambda>i. leads cfg i \<and> term_of cfg i = t) [0..<cf_n cfg]"
    "fst ` set ls = term_of cfg ` {i. i < cf_n cfg \<and> leads cfg i}"
    "lastT \<in> insert (-1) (fst ` set ls)" "\<forall>t\<in>fst ` set ls. t \<le> lastT"
proof -
  let ?is = "[0..<cf_n cfg]" and ?P = "leads cfg" and ?T = "term_of cfg"
  define ls where "ls = fold (\<lambda>i acc. if ?P i then map_append (?T i) i acc else acc) ?is []"
  define lastT where "lastT = fold (\<lambda>(t, ls) m. if t > m then t else m) ls (-1)"
  have look: "map_zero [] (map_of ls) t = filter (\<lambda>i. ?P i \<and> ?T i = t) ?is" for t
    unfolding ls_def leaders_fold(1) by simp
  have keys: "fst ` set ls = ?T ` {i. i < cf_n cfg \<and> ?P i}"
    unfolding ls_def leaders_fold(3) by simp
  have dist: "distinct (map fst ls)"
    unfolding ls_def by (rule leaders_fold(2)) simp
  have mx: "lastT \<in> insert (-1) (fst ` set ls)" "\<forall>t\<in>fst ` set ls. t \<le> lastT"
    unfolding lastT_def using fold_max [of ls "-1"] by blast+
  have short: "length xs \<le> 1" if "(t, xs) \<in> set ls" for t xs
  proof -
    have "xs = filter (\<lambda>i. ?P i \<and> ?T i = t) ?is"
      using look [of t] map_of_is_SomeI [OF dist that] by simp
    then show ?thesis using uniq by simp
  qed
  have "leaders_by_term cfg = Inr ls" by (unfold ls_def, rule leaders_by_term_eq) (rule run)
  moreover have "\<not> (\<exists>(t, ls)\<in>set ls. length ls > 1)"
  proof
    assume "\<exists>(t, ls)\<in>set ls. length ls > 1"
    then obtain t xs where "(t, xs) \<in> set ls" "length xs > 1" by blast
    with short [of t xs] show False by linarith
  qed
  ultimately have "checkOneLeader_iter cfg = (if ls = [] then Inr None
      else gbind (go_idx (map_zero [] (map_of ls) lastT) 0) (\<lambda>i. Inr (Some i)))"
    by (simp only: checkOneLeader_iter_def gbind_Inr if_False Let_def lastT_def)
  then show ?thesis using look keys mx by (rule that)
qed

lemma checkOneLeader_iter_ok:
  assumes run: "\<And>i. i < cf_n cfg \<Longrightarrow> cf_connected cfg ! i \<Longrightarrow> cf_rafts cfg ! i \<noteq> None"
    and one: "\<And>i j. i < cf_n cfg \<Longrightarrow> j < cf_n cfg \<Longrightarrow> leads cfg i \<Longrightarrow> leads cfg j \<Longrightarrow>
      term_of cfg i = term_of cfg j \<Longrightarrow> i = j"
    and pos: "\<And>i. i < cf_n cfg \<Longrightarrow> leads cfg i \<Longrightarrow> 1 \<le> term_of cfg i"
  shows "(\<exists>i<cf_n cfg. leads cfg i \<and> checkOneLeader_iter cfg = Inr (Some i) \<and>
      (\<forall>j<cf_n cfg. leads cfg j \<longrightarrow> term_of cfg j \<le> term_of cfg i)) \<or>
    (\<forall>i<cf_n cfg. \<not> leads cfg i) \<and> checkOneLeader_iter cfg = Inr None"
proof -
  let ?is = "[0..<cf_n cfg]" and ?P = "leads cfg" and ?T = "term_of cfg"
  have uniq: "length (filter (\<lambda>i. ?P i \<and> ?T i = t) ?is) \<le> 1" for t
  proof (rule length_le_1)
    fix x y assume "x \<in> set (filter (\<lambda>i. ?P i \<and> ?T i = t) ?is)" "y \<in> set (filter (\<lambda>i. ?P i \<and> ?T i = t) ?is)"
    then have "x < cf_n cfg" "y < cf_n cfg" "?P x" "?P y" "?T x = ?T y" by simp_all
    then show "x = y" by (rule one)
  qed simp
  obtain ls lastT where it: "checkOneLeader_iter cfg = (if ls = [] then Inr None
       else gbind (go_idx (map_zero [] (map_of ls) lastT) 0) (\<lambda>i. Inr (Some i)))"
    and look: "\<And>t. map_zero [] (map_of ls) t = filter (\<lambda>i. ?P i \<and> ?T i = t) ?is"
    and keys: "fst ` set ls = ?T ` {i. i < cf_n cfg \<and> ?P i}"
    and mx: "lastT \<in> insert (-1) (fst ` set ls)" "\<forall>t\<in>fst ` set ls. t \<le> lastT"
    by (rule leader_table [of cfg]) (use run uniq in blast)+
  show ?thesis
  proof (cases "ls = []")
    case True
    then have "{i. i < cf_n cfg \<and> ?P i} = {}" using keys by simp
    with True it show ?thesis by auto
  next
    case False
    then have "fst ` set ls \<noteq> {}" by (simp only: image_is_empty set_empty not_False_eq_True)
    then obtain k where k: "k < cf_n cfg" "?P k" unfolding keys by blast
    have "?T k \<le> lastT" using mx k unfolding keys by blast
    with pos [OF k] have "lastT \<noteq> -1" by linarith
    then have "lastT \<in> ?T ` {i. i < cf_n cfg \<and> ?P i}" using mx unfolding keys by blast
    then obtain i where i: "i < cf_n cfg" "?P i" "?T i = lastT" by blast
    then have "filter (\<lambda>j. ?P j \<and> ?T j = lastT) ?is = [i]"
    proof -
      have "i \<in> set (filter (\<lambda>j. ?P j \<and> ?T j = lastT) ?is)" using i by simp
      moreover note uniq [of lastT]
      ultimately show ?thesis by (cases "filter (\<lambda>j. ?P j \<and> ?T j = lastT) ?is") auto
    qed
    then have "checkOneLeader_iter cfg = Inr (Some i)"
      using False it look by (simp add: go_idx_def)
    moreover have "?T j \<le> ?T i" if "j < cf_n cfg" "?P j" for j
      using mx that unfolding keys i(3) by blast
    ultimately show ?thesis using i(1,2) by blast
  qed
qed

end
