(* ===== verification/Raft_Agreement.thy ===== *)
theory Raft_Agreement
  imports Raft_Config
begin

text \<open>
  \<open>one\<close> of the Raft harness (\<^verbatim>\<open>src/raft/config.go\<close>): submit a command to whichever connected server
  accepts it, poll until enough servers have applied it, and start again when that takes too long.
  The clock and the rest of the system are an argument: for each round, what happens before each
  server is asked, after each poll, and in the pause after a round in which nobody accepted. The
  number of rounds and of polls in a round is what fits into ten and two seconds.
\<close>

record one_round =
  or_tries :: "nat \<Rightarrow> config \<Rightarrow> config"
  or_polls :: "(config \<Rightarrow> config) list"
  or_pause :: "config \<Rightarrow> config"

text \<open>One pass over the servers, from the one after \<open>starts\<close>, until a connected one accepts the
  command: the new value of \<open>starts\<close> and the index, -1 when nobody accepted.\<close>

fun one_submit :: "(nat \<Rightarrow> config \<Rightarrow> config) \<Rightarrow> nat \<Rightarrow> int \<Rightarrow> nat \<Rightarrow> config \<Rightarrow> config \<times> nat \<times> int" where
  "one_submit others 0 cmd starts cfg = (cfg, starts, -1)"
| "one_submit others (Suc si) cmd starts cfg =
     (let cfg = others (Suc si) cfg;
          starts = (starts + 1) mod cf_n cfg;
          rf = (if cf_connected cfg ! starts then cf_rafts cfg ! starts else None) in
      case rf of
        None \<Rightarrow> one_submit others si cmd starts cfg
      | Some rf \<Rightarrow>
          (case Start cmd rf of (rf, index1, term, ok) \<Rightarrow>
             let cfg = cfg\<lparr>cf_rafts := (cf_rafts cfg)[starts := Some rf]\<rparr> in
             if ok then (cfg, starts, index1) else one_submit others si cmd starts cfg))"

definition one_agreed :: "int \<Rightarrow> nat \<Rightarrow> int \<Rightarrow> config \<Rightarrow> bool go" where
  "one_agreed cmd expectedServers index cfg =
     gbind (nCommitted index cfg) (\<lambda>(nd, cmd1). Inr (nd > 0 \<and> nd \<ge> expectedServers \<and> cmd1 = cmd))"

fun one_poll :: "int \<Rightarrow> nat \<Rightarrow> int \<Rightarrow> (config \<Rightarrow> config) list \<Rightarrow> config \<Rightarrow> (config \<times> bool) go" where
  "one_poll cmd expectedServers index [] cfg = Inr (cfg, False)"
| "one_poll cmd expectedServers index (sleep # sleeps) cfg =
     gbind (one_agreed cmd expectedServers index cfg) (\<lambda>agreed.
     if agreed then Inr (cfg, True) else one_poll cmd expectedServers index sleeps (sleep cfg))"

fun one_loop :: "int \<Rightarrow> nat \<Rightarrow> one_round list \<Rightarrow> nat \<Rightarrow> config \<Rightarrow> (config \<times> int) go" where
  "one_loop cmd expectedServers [] starts cfg = Inl (LogFatal ''failed to reach agreement'')"
| "one_loop cmd expectedServers (r # rs) starts cfg =
     (case one_submit (or_tries r) (cf_n cfg) cmd starts cfg of (cfg, starts, index) \<Rightarrow>
        if index \<noteq> -1 then
          gbind (one_poll cmd expectedServers index (or_polls r) cfg) (\<lambda>(cfg, agreed).
          if agreed then Inr (cfg, index) else one_loop cmd expectedServers rs starts cfg)
        else one_loop cmd expectedServers rs starts (or_pause r cfg))"

definition one :: "int \<Rightarrow> nat \<Rightarrow> one_round list \<Rightarrow> config \<Rightarrow> (config \<times> int) go" where
  "one cmd expectedServers rounds cfg = one_loop cmd expectedServers rounds 0 cfg"

section \<open>What it returns was agreed on\<close>

definition appliers :: "config \<Rightarrow> int \<Rightarrow> int \<Rightarrow> nat list" where
  "appliers cfg index cmd = filter (\<lambda>i. (cf_logs cfg ! i) index = Some cmd) [0..<length (cf_rafts cfg)]"

lemma nCommitted_sound:
  assumes "gfold (\<lambda>i (n, cmd).
       if cf_applyErr cfg ! i \<noteq> [] then Inl (LogFatal (cf_applyErr cfg ! i))
       else case (cf_logs cfg ! i) index of
         None \<Rightarrow> Inr (n, cmd)
       | Some cmd1 \<Rightarrow>
           if n > 0 \<and> cmd \<noteq> cmd1 then Inl (LogFatal ''committed values do not match'')
           else Inr (n + 1, cmd1)) is (c, cmd) = Inr (nd, v)"
  shows "nd = c + length (filter (\<lambda>i. (cf_logs cfg ! i) index = Some v) is) \<and>
    (\<forall>i\<in>set is. (cf_logs cfg ! i) index = None \<or> (cf_logs cfg ! i) index = Some v) \<and> (0 < c \<longrightarrow> v = cmd)"
  using assms
proof (induction "is" arbitrary: c cmd)
  case (Cons i "is")
  then show ?case by (fastforce split: option.splits if_splits)
qed simp

lemma one_agreed_sound:
  assumes "one_agreed cmd m index cfg = Inr True"
  shows "max 1 m \<le> length (appliers cfg index cmd) \<and>
    (\<forall>i<length (cf_rafts cfg). (cf_logs cfg ! i) index = None \<or> (cf_logs cfg ! i) index = Some cmd)"
proof -
  from assms obtain nd where "nCommitted index cfg = Inr (nd, cmd)" "0 < nd" "m \<le> nd"
    by (auto simp: one_agreed_def gbind_eq_Inr)
  then show ?thesis
    using nCommitted_sound [of cfg index "[0..<length (cf_rafts cfg)]" 0 "-1" nd cmd]
    by (simp add: nCommitted_def appliers_def Suc_le_eq)
qed

lemma one_poll_sound: "one_poll cmd m index es cfg = Inr (cfg', True) \<Longrightarrow> one_agreed cmd m index cfg' = Inr True"
  by (induction es arbitrary: cfg) (auto simp: gbind_eq_Inr split: if_splits)

lemma one_loop_sound: "one_loop cmd m rs starts cfg = Inr (cfg', index) \<Longrightarrow> one_agreed cmd m index cfg' = Inr True"
  by (induction rs arbitrary: starts cfg)
    (auto simp: gbind_eq_Inr split: prod.splits if_splits dest: one_poll_sound)

section \<open>It returns once a leader has brought agreement about\<close>

lemma same_raft [simp]: "cf_rafts cfg ! i = r \<Longrightarrow> cfg\<lparr>cf_rafts := (cf_rafts cfg)[i := r]\<rparr> = cfg"
  by (metis config.surjective config.update_convs(4) list_update_id)

text \<open>When nothing else happens while the servers are asked, a connected leader is found.\<close>

lemma one_submit_leader:
  assumes quiet: "\<And>k. others k = (\<lambda>c. c)" and len: "length (cf_rafts cfg) = cf_n cfg" and pos: "0 < cf_n cfg"
    and "1 \<le> j" "j \<le> si" "leads cfg ((starts + j) mod cf_n cfg)"
  shows "\<exists>i rf. one_submit others si cmd starts cfg =
      (cfg\<lparr>cf_rafts := (cf_rafts cfg)[i := Some (fst (Start cmd rf))]\<rparr>, i, int (length (Log rf))) \<and>
    i < cf_n cfg \<and> leads cfg i \<and> cf_rafts cfg ! i = Some rf"
  using assms(4-6)
proof (induction si arbitrary: starts j)
  case (Suc si)
  let ?i = "(starts + 1) mod cf_n cfg"
  have i: "?i < cf_n cfg" using pos by simp
  show ?case
  proof (cases "leads cfg ?i")
    case True
    then obtain rf where "cf_connected cfg ! ?i" "cf_rafts cfg ! ?i = Some rf" "State rf = Leader"
      by (auto simp: leads_def split: option.splits)
    with True i show ?thesis
      by (intro exI [of _ ?i] exI [of _ rf]) (simp add: quiet Start_def GetLastLogIndex_def Let_def)
  next
    case False
    have "one_submit others (Suc si) cmd starts cfg = one_submit others si cmd ?i cfg"
      using False i len by (auto simp: quiet leads_def Start_def Let_def split: option.splits)
    moreover have "j \<noteq> 1" using False Suc.prems(3) by (intro notI) simp
    moreover have "(?i + (j - 1)) mod cf_n cfg = (starts + j) mod cf_n cfg"
      using Suc.prems(1) mod_add_left_eq [of "starts + 1" "cf_n cfg" "j - 1"] by (cases j) simp_all
    ultimately show ?thesis using Suc.IH [of "j - 1" ?i] Suc.prems by simp
  qed
qed simp

lemma one_submit_finds:
  assumes "\<And>k. others k = (\<lambda>c. c)" and "length (cf_rafts cfg) = cf_n cfg" and "i < cf_n cfg" "leads cfg i"
  shows "\<exists>i rf. one_submit others (cf_n cfg) cmd 0 cfg =
      (cfg\<lparr>cf_rafts := (cf_rafts cfg)[i := Some (fst (Start cmd rf))]\<rparr>, i, int (length (Log rf))) \<and>
    i < cf_n cfg \<and> leads cfg i \<and> cf_rafts cfg ! i = Some rf"
proof -
  define j where "j = (if i = 0 then cf_n cfg else i)"
  have "(0 + j) mod cf_n cfg = i" "1 \<le> j" "j \<le> cf_n cfg" using assms(3) by (auto simp: j_def)
  then show ?thesis using assms one_submit_leader [of others cfg j "cf_n cfg" 0 cmd] by simp
qed

text \<open>A harness without errors: the readers of the apply channels found no disagreement.\<close>

definition healthy :: "config \<Rightarrow> bool" where
  "healthy cfg \<longleftrightarrow> logs_agree cfg \<and> (\<forall>i<length (cf_rafts cfg). cf_applyErr cfg ! i = []) \<and>
     length (cf_logs cfg) = length (cf_rafts cfg)"

text \<open>The readers of the apply channels keep it so; a message on which a reader reports an error
  ends the test.\<close>

definition applies :: "nat \<Rightarrow> int ApplyMsg \<Rightarrow> config \<Rightarrow> config" where
  "applies i m cfg = (case apply_reader i m cfg of Inl e \<Rightarrow> cfg | Inr cfg' \<Rightarrow> cfg')"

lemma healthy_applies: "healthy cfg \<Longrightarrow> healthy (applies i m cfg)"
proof (cases "apply_reader i m cfg")
  case (Inr cfg')
  moreover have "cf_rafts cfg' = cf_rafts cfg" "cf_applyErr cfg' = cf_applyErr cfg" "length (cf_logs cfg') = length (cf_logs cfg)"
    using Inr by (auto simp: apply_reader_def Let_def split: option.splits if_splits)
  moreover assume "healthy cfg"
  ultimately show ?thesis using apply_reader_agree [of cfg i m cfg'] by (simp add: healthy_def applies_def)
qed (simp add: applies_def)

lemma nCommitted_healthy:
  assumes "healthy cfg"
  shows "\<exists>cmd. nCommitted index cfg = Inr (length (filter (\<lambda>i. (cf_logs cfg ! i) index \<noteq> None) [0..<length (cf_rafts cfg)]), cmd)"
  using nCommitted_gen [of cfg "[0..<length (cf_rafts cfg)]" 0 index "-1"] assms
  by (auto simp: healthy_def nCommitted_def)

lemma one_agreed_healthy:
  assumes "healthy cfg"
  shows "\<exists>b. one_agreed cmd m index cfg = Inr b \<and> (max 1 m \<le> length (appliers cfg index cmd) \<longrightarrow> b)"
proof -
  obtain v where v: "nCommitted index cfg =
    Inr (length (filter (\<lambda>i. (cf_logs cfg ! i) index \<noteq> None) [0..<length (cf_rafts cfg)]), v)"
    using nCommitted_healthy [OF assms] by blast
  have "v = cmd \<and> max 1 m \<le> length (filter (\<lambda>i. (cf_logs cfg ! i) index \<noteq> None) [0..<length (cf_rafts cfg)])"
    if le: "max 1 m \<le> length (appliers cfg index cmd)"
  proof -
    from le have "appliers cfg index cmd \<noteq> []" by auto
    then obtain i where "i < length (cf_rafts cfg)" "(cf_logs cfg ! i) index = Some cmd"
      by (auto simp: appliers_def filter_empty_conv)
    with nCommitted_sound [OF v [unfolded nCommitted_def]] have vc: "v = cmd" by (auto dest!: bspec [where x = i])
    with nCommitted_sound [OF v [unfolded nCommitted_def]] le show ?thesis by (simp add: appliers_def)
  qed
  with v show ?thesis by (auto simp: one_agreed_def)
qed

lemma one_poll_complete:
  assumes "healthy cfg" and "\<forall>e\<in>set es. \<forall>c. healthy c \<longrightarrow> healthy (e c)" and "k < length es"
    and "max 1 m \<le> length (appliers (fold (\<lambda>e. e) (take k es) cfg) index cmd)"
  shows "\<exists>cfg'. one_poll cmd m index es cfg = Inr (cfg', True)"
  using assms
proof (induction es arbitrary: cfg k)
  case (Cons e es)
  obtain b where b: "one_agreed cmd m index cfg = Inr b" "max 1 m \<le> length (appliers cfg index cmd) \<longrightarrow> b"
    using one_agreed_healthy [OF Cons.prems(1)] by blast
  show ?case
  proof (cases b)
    case False
    with b Cons.prems(4) obtain k' where k: "k = Suc k'" by (cases k) simp_all
    with Cons.prems Cons.IH [of "e cfg" k'] have "\<exists>cfg'. one_poll cmd m index es (e cfg) = Inr (cfg', True)" by simp
    with b False show ?thesis by simp
  qed (use b in simp)
qed simp

lemma one_complete:
  assumes "\<And>k. or_tries r k = (\<lambda>c. c)" and "length (cf_rafts cfg) = cf_n cfg" and "i < cf_n cfg" "leads cfg i"
    and "healthy cfg" and "\<forall>e\<in>set (or_polls r). \<forall>c. healthy c \<longrightarrow> healthy (e c)" and k: "k < length (or_polls r)"
    and agree: "\<And>l rf cfg1. l < cf_n cfg \<Longrightarrow> leads cfg l \<Longrightarrow> cf_rafts cfg ! l = Some rf \<Longrightarrow>
      cfg1 = cfg\<lparr>cf_rafts := (cf_rafts cfg)[l := Some (fst (Start cmd rf))]\<rparr> \<Longrightarrow>
      max 1 m \<le> length (appliers (fold (\<lambda>e. e) (take k (or_polls r)) cfg1) (int (length (Log rf))) cmd)"
  shows "\<exists>cfg' l rf. one cmd m (r # rs) cfg = Inr (cfg', int (length (Log rf))) \<and>
    l < cf_n cfg \<and> leads cfg l \<and> cf_rafts cfg ! l = Some rf"
proof -
  obtain l rf where l: "one_submit (or_tries r) (cf_n cfg) cmd 0 cfg =
      (cfg\<lparr>cf_rafts := (cf_rafts cfg)[l := Some (fst (Start cmd rf))]\<rparr>, l, int (length (Log rf)))"
    "l < cf_n cfg" "leads cfg l" "cf_rafts cfg ! l = Some rf"
    using one_submit_finds [of "or_tries r", OF assms(1-4)] by blast
  have "healthy (cfg\<lparr>cf_rafts := (cf_rafts cfg)[l := Some (fst (Start cmd rf))]\<rparr>)"
    using assms(5) by (simp add: healthy_def logs_agree_def)
  from one_poll_complete [OF this assms(6) k agree [OF l(2-4) refl]] obtain cfg' where
    "one_poll cmd m (int (length (Log rf))) (or_polls r) (cfg\<lparr>cf_rafts := (cf_rafts cfg)[l := Some (fst (Start cmd rf))]\<rparr>) =
      Inr (cfg', True)" by blast
  with l show ?thesis by (intro exI [of _ cfg'] exI [of _ l] exI [of _ rf]) (simp add: one_def)
qed

end
