(* ===== verification/Raft_Net.thy ===== *)
theory Raft_Net
  imports Raft_Wellformed Labrpc
begin

text \<open>
  Raft over the simulated network: the calls that \<^verbatim>\<open>src/raft/raft.go\<close> makes through its end points
  (\<open>sendRequestVote\<close>, \<open>sendAppendEntries\<close>, \<open>sendInstallSnapshot\<close>), dispatched by
  \<^verbatim>\<open>src/labrpc/labrpc.go\<close> to the handlers of the peer at the other end. \<open>Raft_System\<close> lets a call
  be handled at most once and its caller see the handler's reply or a failure; here a call over
  the network of \<open>Labrpc\<close> is shown to do that and nothing else.
\<close>

section \<open>The service\<close>

text \<open>What travels over the network: the argument and reply structs of the three methods.\<close>

datatype 'c wire =
    RVArgs RequestVoteArgs
  | RVReply RequestVoteReply
  | AEArgs "'c AppendEntriesArgs"
  | AEReply AppendEntriesReply
  | ISArgs InstallSnapshotArgs
  | ISReply InstallSnapshotReply

text \<open>The methods as the dispatcher runs them; the callers below send each its own argument
  type, so the last branches are not taken.\<close>

fun serve_RequestVote :: "'c wire \<Rightarrow> 'c Raft \<Rightarrow> ('c Raft \<times> 'c wire) go" where
  "serve_RequestVote (RVArgs a) rf = gbind (RequestVote a rf) (\<lambda>(rf, r). Inr (rf, RVReply r))"
| "serve_RequestVote _ rf = Inl (LogFatal ''gob'')"

fun serve_AppendEntries :: "'c wire \<Rightarrow> 'c Raft \<Rightarrow> ('c Raft \<times> 'c wire) go" where
  "serve_AppendEntries (AEArgs a) rf = gbind (AppendEntries a rf) (\<lambda>(rf, r). Inr (rf, AEReply r))"
| "serve_AppendEntries _ rf = Inl (LogFatal ''gob'')"

fun serve_InstallSnapshot :: "'c wire \<Rightarrow> 'c Raft \<Rightarrow> ('c Raft \<times> 'c wire) go" where
  "serve_InstallSnapshot (ISArgs a) rf = (case InstallSnapshot a rf of (rf, r) \<Rightarrow> Inr (rf, ISReply r))"
| "serve_InstallSnapshot _ rf = Inl (LogFatal ''gob'')"

definition exported :: "string \<Rightarrow> nat \<Rightarrow> nat \<Rightarrow> ('c wire \<Rightarrow> 'c Raft \<Rightarrow> ('c Raft \<times> 'c wire) go) \<Rightarrow>
   ('c Raft, 'c wire) rmethod" where
  "exported name nin nout f = \<lparr>m_Name = name, m_PkgPath = [], m_NumIn = nin, m_In2Ptr = (nin = 3),
     m_NumOut = nout, m_Func = f\<rparr>"

text \<open>The exported methods of \<open>*Raft\<close> as reflection lists them; those that are not handlers are
  never run by the dispatcher.\<close>

definition Raft_methods :: "('c Raft, 'c wire) rmethod list" where
  "Raft_methods =
     (let other = (\<lambda>name nin nout. exported name nin nout (\<lambda>a rf. Inr (rf, a))) in
      [exported ''AppendEntries'' 3 0 serve_AppendEntries, other ''BeCandidate'' 1 0, other ''BeFollower'' 2 0,
       other ''BeLeader'' 1 0, other ''GetLastLogIndex'' 1 1, other ''GetState'' 1 2,
       exported ''InstallSnapshot'' 3 0 serve_InstallSnapshot, other ''Kill'' 1 0,
       exported ''RequestVote'' 3 0 serve_RequestVote, other ''Start'' 2 3, other ''StartAppendLog'' 1 0])"

definition Raft_service :: "'c Raft \<Rightarrow> ('c Raft, 'c wire) Service" where
  "Raft_service rf = MakeService ''Raft'' rf Raft_methods"

lemma Raft_service_simps:
  "svc_methods (Raft_service rf) ''RequestVote'' = Some serve_RequestVote"
  "svc_methods (Raft_service rf) ''AppendEntries'' = Some serve_AppendEntries"
  "svc_methods (Raft_service rf) ''InstallSnapshot'' = Some serve_InstallSnapshot"
  "svc_rcvr (Raft_service rf) = rf" "(Raft_service rf)\<lparr>svc_rcvr := rf'\<rparr> = Raft_service rf'"
  by (simp_all add: Raft_service_def MakeService_def Raft_methods_def exported_def is_handler_def Let_def)

text \<open>No other method of a peer can be called over the network.\<close>

lemma Raft_service_methods:
  "dom (svc_methods (Raft_service rf)) = {''RequestVote'', ''AppendEntries'', ''InstallSnapshot''}"
  by (auto simp: Raft_service_def MakeService_def Raft_methods_def exported_def is_handler_def Let_def)

section \<open>The calls\<close>

text \<open>A peer refers to its peers by their end points: \<open>ends i j\<close> is the name of the end point of peer
  \<open>i\<close> that is connected to peer \<open>j\<close>. The replies are \<^const>\<open>None\<close> when the call failed.\<close>

type_synonym ('e, 'c) raft_net = "('e, nat, 'c Raft, 'c wire) Network"

definition peer_call ::
  "choices \<Rightarrow> (('e, 'c) raft_net \<Rightarrow> ('e, 'c) raft_net) \<Rightarrow> (nat \<Rightarrow> nat \<Rightarrow> 'e) \<Rightarrow> 'c Raft \<Rightarrow> int \<Rightarrow> string \<Rightarrow> 'c wire \<Rightarrow>
   ('e, 'c) raft_net \<Rightarrow> (('e, 'c) raft_net \<times> 'c wire option) go" where
  "peer_call ch others ends rf server svcMeth w rn =
     gbind (go_idx (peers rf) server) (\<lambda>p. Call ch others (ends (nat (me rf)) p) svcMeth w rn)"

definition sendRequestVote where
  "sendRequestVote ch others ends rf server args rn =
     gbind (peer_call ch others ends rf server ''Raft.RequestVote'' (RVArgs args) rn) (\<lambda>(rn, rep).
     Inr (rn, case rep of Some (RVReply r) \<Rightarrow> Some r | _ \<Rightarrow> None))"

definition sendAppendEntries where
  "sendAppendEntries ch others ends rf server args rn =
     gbind (peer_call ch others ends rf server ''Raft.AppendEntries'' (AEArgs args) rn) (\<lambda>(rn, rep).
     Inr (rn, case rep of Some (AEReply r) \<Rightarrow> Some r | _ \<Rightarrow> None))"

definition sendInstallSnapshot where
  "sendInstallSnapshot ch others ends rf server args rn =
     gbind (peer_call ch others ends rf server ''Raft.InstallSnapshot'' (ISArgs args) rn) (\<lambda>(rn, rep).
     Inr (rn, case rep of Some (ISReply r) \<Rightarrow> Some r | _ \<Rightarrow> None))"

text \<open>The call a peer makes for a request of \<open>Raft_System\<close>.\<close>

definition send_request where
  "send_request ch others ends rf server req rn =
     (case req of
        VoteReq a e \<Rightarrow> gbind (sendRequestVote ch others ends rf server a rn) (\<lambda>(rn, r). Inr (rn, map_option VoteRep r))
      | AppendReq a \<Rightarrow> gbind (sendAppendEntries ch others ends rf server a rn) (\<lambda>(rn, r). Inr (rn, map_option AppendRep r)))"

section \<open>Networks that hold a cluster\<close>

definition raft_at :: "('e, 'c) raft_net \<Rightarrow> nat \<Rightarrow> 'c Raft \<Rightarrow> bool" where
  "raft_at rn i rf \<longleftrightarrow> (\<exists>a. net_servers rn i = Some a \<and> a < length (server_heap rn) \<and>
     sv_services (server_heap rn ! a) ''Raft'' = Some (Raft_service rf))"

text \<open>Every peer that is up is registered under its number, with an object of its own, and its end
  points lead to the peers they are named for.\<close>

definition holds :: "(nat \<Rightarrow> nat \<Rightarrow> 'e) \<Rightarrow> ('e, 'c) raft_net \<Rightarrow> 'c Raft list \<Rightarrow> bool" where
  "holds ends rn rfs \<longleftrightarrow> (\<forall>i<length rfs. net_servers rn i \<noteq> None \<longrightarrow> raft_at rn i (rfs ! i) \<and>
     (\<forall>j<length rfs. connections rn (ends i j) = Some j \<and> (i \<noteq> j \<longrightarrow> net_servers rn i \<noteq> net_servers rn j)))"

text \<open>The parts of a network that calls leave alone.\<close>

definition same_links :: "('e, 'n, 'st, 'b) Network \<Rightarrow> ('e, 'n, 'st, 'b) Network \<Rightarrow> bool" where
  "same_links rn rn' \<longleftrightarrow> net_servers rn' = net_servers rn \<and> net_ends rn' = net_ends rn \<and> connections rn' = connections rn"

lemma holds_update:
  assumes h: "holds ends rn rfs" and j: "j < length rfs" and a: "net_servers rn j = Some a"
    and sv: "sv_services sv ''Raft'' = Some (Raft_service rf)"
  shows "holds ends (rn\<lparr>server_heap := (server_heap rn)[a := sv]\<rparr>) (rfs[j := rf])"
proof -
  let ?rn = "rn\<lparr>server_heap := (server_heap rn)[a := sv]\<rparr>"
  have "raft_at ?rn i (rfs[j := rf] ! i)" if i: "i < length rfs" and up: "net_servers rn i \<noteq> None" for i
  proof (cases "i = j")
    case True
    have "a < length (server_heap rn)" using h j a by (auto simp: holds_def raft_at_def)
    with True a sv i show ?thesis by (simp add: raft_at_def)
  next
    case False
    obtain b where b: "net_servers rn i = Some b" "b < length (server_heap rn)"
      "sv_services (server_heap rn ! b) ''Raft'' = Some (Raft_service (rfs ! i))"
      using h i up by (auto simp: holds_def raft_at_def)
    have "net_servers rn i \<noteq> net_servers rn j"
      using h [unfolded holds_def, THEN spec, THEN mp, THEN mp, OF i up] j False by simp
    then have "b \<noteq> a" using a b(1) by simp
    with b False show ?thesis by (simp add: raft_at_def)
  qed
  with h show ?thesis by (simp add: holds_def)
qed

text \<open>A call to a method of the service by a peer that is up returns: nothing happened, or the method
  ran once and the caller has its reply or does not know. Nothing but the object of the callee
  changes.\<close>

lemma service_call:
  assumes h: "holds ends rn rfs" and i: "i < length rfs" and up: "net_servers rn i \<noteq> None" and j: "j < length rfs"
    and m: "CHR ''.'' \<notin> set m" "svc_methods (Raft_service (rfs ! j)) m = Some f" and f: "f w (rfs ! j) = Inr (rf', r)"
  shows "\<exists>rn1 rep. Call ch others (ends i j) (''Raft'' @ CHR ''.'' # m) w rn = Inr (others rn1, rep) \<and>
    same_links rn rn1 \<and>
    (rn1 = rn \<and> rep = None \<or> net_servers rn j \<noteq> None \<and> holds ends rn1 (rfs[j := rf']) \<and> (rep = None \<or> rep = Some r)) \<and>
    (reliable rn \<and> net_enabled rn (ends i j) = Some True \<and> net_servers rn j \<noteq> None \<and> handler_in_time ch \<and>
       others = (\<lambda>x. x) \<longrightarrow> rep = Some r)"
proof -
  let ?e = "ends i j" and ?req = "\<lparr>req_endname = ends i j, req_svcMeth = ''Raft'' @ CHR ''.'' # m, req_args = w\<rparr>"
  have c: "connections rn ?e = Some j" using h i j up by (auto simp: holds_def)
  show ?thesis
  proof (cases "net_servers rn j \<noteq> None \<and> net_enabled rn ?e = Some True \<and> (reliable rn \<or> \<not> drop_request ch)")
    case False
    have "ProcessReq ch others ?req rn = Inr (others rn, failed_call)"
    proof (cases "net_servers rn j \<noteq> None \<and> net_enabled rn ?e = Some True")
      case True
      then obtain a where "net_servers rn j = Some a" by blast
      with True False c show ?thesis by (simp add: ProcessReq_live)
    next
      case off: False
      show ?thesis by (rule ProcessReq_dead) (use off c in auto)
    qed
    with False show ?thesis by (intro exI [of _ rn]) (auto simp: Call_def failed_call_def same_links_def)
  next
    case True
    then obtain a where a: "net_servers rn j = Some a" "a < length (server_heap rn)"
      "sv_services (server_heap rn ! a) ''Raft'' = Some (Raft_service (rfs ! j))"
      using h j by (auto simp: holds_def raft_at_def)
    let ?sv = "(server_heap rn ! a)\<lparr>sv_count := sv_count (server_heap rn ! a) + 1,
      sv_services := (sv_services (server_heap rn ! a))(''Raft'' \<mapsto> (Raft_service (rfs ! j))\<lparr>svc_rcvr := rf'\<rparr>)\<rparr>"
    let ?rn1 = "rn\<lparr>server_heap := (server_heap rn)[a := ?sv]\<rparr>"
    have "server_dispatch ?req (server_heap rn ! a) = Inr (?sv, \<lparr>rep_ok = True, rep_reply = Some r\<rparr>)"
      using m f a by (intro server_dispatch_ok [where f = f and meth = m]) (simp_all add: Raft_service_simps)
    then have "ProcessReq ch others ?req rn = Inr (others ?rn1, ProcessReq_reply ch
        (IsServerDead ?e j a (others ?rn1)) (reliable rn) \<lparr>rep_ok = True, rep_reply = Some r\<rparr>)"
      using True a c by (auto simp: ProcessReq_live go_idx_def Let_def)
    moreover have "holds ends ?rn1 (rfs[j := rf'])"
      using a by (intro holds_update [OF h j]) (simp_all add: Raft_service_simps)
    ultimately show ?thesis using True a(1)
      by (intro exI [of _ ?rn1]) (auto simp: Call_def ProcessReq_reply_def failed_call_def IsServerDead_def same_links_def)
  qed
qed

section \<open>A call is at most one delivery\<close>

lemma send_request_delivers:
  assumes ok: "cluster_ok n s" and h: "holds ends rn (servers s)" and k: "k < length (calls s)"
    and c: "calls s ! k = c" "c_rep c = None" and up: "net_servers rn (c_from c) \<noteq> None"
  shows "\<exists>rn1 rep s'. send_request ch others ends (servers s ! c_from c) (int (c_to c)) (c_req c) rn = Inr (others rn1, rep) \<and>
    same_links rn rn1 \<and>
    (rn1 = rn \<and> rep = None \<or> net_servers rn (c_to c) \<noteq> None \<and> step (Deliver k) s = Inr s' \<and> holds ends rn1 (servers s') \<and>
       (rep = None \<or> rep = c_rep (calls s' ! k))) \<and>
    (reliable rn \<and> net_enabled rn (ends (c_from c) (c_to c)) = Some True \<and> net_servers rn (c_to c) \<noteq> None \<and>
       handler_in_time ch \<and> others = (\<lambda>x. x) \<longrightarrow> rep \<noteq> None)"
proof -
  let ?i = "c_from c" and ?j = "c_to c"
  have co: "call_ok n (length (elections s)) c" and len: "length (servers s) = n"
    using cluster_okD(1,4) [OF ok] k c by auto
  then have i: "?i < length (servers s)" "?j < length (servers s)" by (auto simp: call_ok_def)
  have "peer_ok n ?i (servers s ! ?i)" using cluster_okD(2) [OF ok] i len by simp
  then have pc: "peer_call ch others ends (servers s ! ?i) (int ?j) meth w rn = Call ch others (ends ?i ?j) meth w rn" for meth w
    using i len by (simp add: peer_call_def peer_ok_def go_idx_def)
  from deliver_ok [OF ok k] obtain s' where s': "deliver k s = Inr s'" by blast
  show ?thesis
  proof (cases "c_req c")
    case (VoteReq a e)
    with s' c obtain rf' r where rv: "RequestVote a (servers s ! ?j) = Inr (rf', r)"
      and t: "s' = s\<lparr>servers := (servers s)[?j := rf'], calls := (calls s)[k := c\<lparr>c_rep := Some (VoteRep r)\<rparr>]\<rparr>"
      by (auto simp: deliver_def gbind_eq_Inr Let_def)
    have "serve_RequestVote (RVArgs a) (servers s ! ?j) = Inr (rf', RVReply r)" using rv by simp
    from service_call [OF h i(1) up i(2) _ Raft_service_simps(1) this, of ch others] s' k t VoteReq
    show ?thesis by (fastforce simp: send_request_def sendRequestVote_def pc)
  next
    case (AppendReq a)
    with s' c obtain rf' r where rv: "AppendEntries a (servers s ! ?j) = Inr (rf', r)"
      and t: "s' = s\<lparr>servers := (servers s)[?j := rf'], calls := (calls s)[k := c\<lparr>c_rep := Some (AppendRep r)\<rparr>]\<rparr>"
      by (auto simp: deliver_def gbind_eq_Inr Let_def)
    have "serve_AppendEntries (AEArgs a) (servers s ! ?j) = Inr (rf', AEReply r)" using rv by simp
    from service_call [OF h i(1) up i(2) _ Raft_service_simps(2) this, of ch others] s' k t AppendReq
    show ?thesis by (fastforce simp: send_request_def sendAppendEntries_def pc)
  qed
qed

end
