(* ===== verification/Raft_Networked.thy ===== *)
theory Raft_Networked
  imports Raft_Net Raft_Config
begin

text \<open>
  Raft peers inside the simulated network, driven by the harness: the peers are the receivers of the
  services registered with \<^verbatim>\<open>src/labrpc/labrpc.go\<close>, every message between them is a call over that
  network, and \<^verbatim>\<open>src/raft/config.go\<close> starts and crashes servers, switches links on and off and makes
  the network unreliable, in any order and also while a call is under way. This system refines
  \<open>Raft_System\<close>, where the network is only a table of calls.
\<close>

section \<open>State\<close>

text \<open>A server is down when no server is registered under its number; the harness then holds what its
  peer had saved. The program counters, goroutines and calls are those of \<open>Raft_System\<close>.\<close>

record 'c netsys =
  ns_net :: "(string, 'c) raft_net"
  ns_endnames :: "string list option list"
  ns_saved :: "'c gob Persister list"
  ns_mains :: "main_pc list"
  ns_gors :: "(nat \<times> goroutine) list"
  ns_elections :: "election list"
  ns_calls :: "'c call list"

definition ns_empty :: "nat \<Rightarrow> 'c netsys" where
  "ns_empty n = \<lparr>ns_net = MakeNetwork, ns_endnames = replicate n None, ns_saved = replicate n MakePersister,
     ns_mains = replicate n LoopTop, ns_gors = [], ns_elections = [], ns_calls = []\<rparr>"

abbreviation ns_n :: "'c netsys \<Rightarrow> nat" where
  "ns_n ns \<equiv> length (ns_saved ns)"

definition up :: "'c netsys \<Rightarrow> nat \<Rightarrow> bool" where
  "up ns i \<longleftrightarrow> net_servers (ns_net ns) i \<noteq> None"

definition endpoint :: "'c netsys \<Rightarrow> nat \<Rightarrow> nat \<Rightarrow> string" where
  "endpoint ns i j = (case ns_endnames ns ! i of None \<Rightarrow> [] | Some es \<Rightarrow> es ! j)"

definition raft_object :: "('e, 'c) raft_net \<Rightarrow> nat \<Rightarrow> 'c Raft option" where
  "raft_object rn i = Option.bind (net_servers rn i) (\<lambda>a. map_option svc_rcvr (sv_services (server_heap rn ! a) ''Raft''))"

definition restarted :: "'c netsys \<Rightarrow> nat \<Rightarrow> 'c Raft" where
  "restarted ns i = Make [0..<ns_n ns] (int i) (Copy (crash1_saved (ns_saved ns ! i)))"

text \<open>The peer of a server that is up is the object the network dispatches to; that of a server that
  is down is the one it will be restarted with.\<close>

definition peer :: "'c netsys \<Rightarrow> nat \<Rightarrow> 'c Raft" where
  "peer ns i = (case raft_object (ns_net ns) i of Some rf \<Rightarrow> rf | None \<Rightarrow> restarted ns i)"

definition ns_cluster :: "'c netsys \<Rightarrow> 'c cluster" where
  "ns_cluster ns = \<lparr>servers = map (peer ns) [0..<ns_n ns], mains = ns_mains ns, gors = ns_gors ns,
     elections = ns_elections ns, calls = ns_calls ns\<rparr>"

definition set_raft :: "nat \<Rightarrow> 'c Raft \<Rightarrow> ('e, 'c) raft_net \<Rightarrow> ('e, 'c) raft_net" where
  "set_raft i rf rn =
     (case net_servers rn i of
        None \<Rightarrow> rn
      | Some a \<Rightarrow> let rs = server_heap rn ! a in
          rn\<lparr>server_heap := (server_heap rn)[a := rs\<lparr>sv_services := (sv_services rs)(''Raft'' \<mapsto> Raft_service rf)\<rparr>]\<rparr>)"

section \<open>Steps\<close>

text \<open>The peer whose goroutine, main loop or client takes a step of \<open>Raft_System\<close>. Delivery, failure
  and crashes are not steps of a peer.\<close>

fun actor :: "'c event \<Rightarrow> 'c cluster \<Rightarrow> nat option" where
  "actor (MainRead i) s = Some i"
| "actor (MainVote i) s = Some i"
| "actor (MainAppend i) s = Some i"
| "actor (MainTimeout i) s = Some i"
| "actor (MainLeader i) s = Some i"
| "actor (RunGoroutine k) s = (if k < length (gors s) then Some (fst (gors s ! k)) else None)"
| "actor (Reply k) s = (if k < length (calls s) then Some (c_from (calls s ! k)) else None)"
| "actor (Client i c) s = Some i"
| "actor _ s = None"

definition ns_local :: "'c event \<Rightarrow> 'c netsys \<Rightarrow> 'c netsys go" where
  "ns_local e ns =
     (case actor e (ns_cluster ns) of
        None \<Rightarrow> Inr ns
      | Some i \<Rightarrow>
          if i < ns_n ns \<and> up ns i then
            gbind (step e (ns_cluster ns)) (\<lambda>s.
            Inr (ns\<lparr>ns_net := set_raft i (servers s ! i) (ns_net ns), ns_mains := mains s, ns_gors := gors s,
                    ns_elections := elections s, ns_calls := calls s\<rparr>))
          else Inr ns)"

text \<open>What the harness does to the network as a whole.\<close>

datatype net_op =
    SetEnable string bool
  | SetReliable bool
  | SetLongReordering bool
  | SetLongDelays bool

fun net_do :: "net_op \<Rightarrow> (string, 'c) raft_net \<Rightarrow> (string, 'c) raft_net" where
  "net_do (SetEnable e b) rn = Enable e b rn"
| "net_do (SetReliable b) rn = Reliable b rn"
| "net_do (SetLongReordering b) rn = LongReordering b rn"
| "net_do (SetLongDelays b) rn = LongDelays b rn"

text \<open>Call number \<open>k\<close> goes over the network, with the random choices \<open>ch\<close>; \<open>ops\<close> happen to the network
  between the handler and its reply. The caller gets the reply, or learns that the call failed.\<close>

definition ns_call :: "nat \<Rightarrow> choices \<Rightarrow> net_op list \<Rightarrow> 'c netsys \<Rightarrow> 'c netsys go" where
  "ns_call k ch ops ns =
     (let c = ns_calls ns ! k in
      if k < length (ns_calls ns) \<and> \<not> c_returned c \<and> c_rep c = None then
        gbind (send_request ch (fold net_do ops) (endpoint ns) (peer ns (c_from c)) (int (c_to c)) (c_req c) (ns_net ns)) (\<lambda>(rn, rep).
        Inr (ns\<lparr>ns_net := rn, ns_calls := (ns_calls ns)[k :=
               (case rep of None \<Rightarrow> c\<lparr>c_returned := True\<rparr> | Some r \<Rightarrow> c\<lparr>c_rep := Some r\<rparr>)]\<rparr>))
      else Inr ns)"

text \<open>\<open>crash1\<close>: disconnect the server, unregister it and keep what it had saved. When the server was
  running, its goroutines can no longer reach the network.\<close>

definition ns_disconnect :: "nat \<Rightarrow> 'c netsys \<Rightarrow> (string, 'c) raft_net" where
  "ns_disconnect i ns =
     fold (\<lambda>j rn. if ns_endnames ns ! j \<noteq> None then Enable (endpoint ns j i) False rn else rn) [0..<ns_n ns]
       (fold (\<lambda>j rn. if ns_endnames ns ! i \<noteq> None then Enable (endpoint ns i j) False rn else rn) [0..<ns_n ns] (ns_net ns))"

definition ns_saved_now :: "'c netsys \<Rightarrow> nat \<Rightarrow> 'c gob Persister" where
  "ns_saved_now ns i = (if up ns i then persister (peer ns i) else ns_saved ns ! i)"

definition ns_kill :: "nat \<Rightarrow> 'c netsys \<Rightarrow> 'c netsys" where
  "ns_kill i ns = ns\<lparr>ns_mains := (ns_mains ns)[i := LoopTop],
     ns_gors := map (\<lambda>(j, g). if j = i then (j, GDone) else (j, g)) (ns_gors ns),
     ns_calls := map (\<lambda>c. if c_from c = i then c\<lparr>c_returned := True\<rparr> else c) (ns_calls ns)\<rparr>"

definition ns_crash :: "nat \<Rightarrow> 'c netsys \<Rightarrow> 'c netsys" where
  "ns_crash i ns =
     (if i < ns_n ns then
        let ns' = ns\<lparr>ns_net := DeleteServer i (ns_disconnect i ns),
                     ns_saved := (ns_saved ns)[i := crash1_saved (ns_saved_now ns i)]\<rparr>
        in if up ns i then ns_kill i ns' else ns'
      else ns)"

text \<open>\<open>start1\<close>: crash the server, give it new end points and a new peer on a copy of what was saved, and
  register a new server under the old number.\<close>

definition ns_start :: "nat \<Rightarrow> string list \<Rightarrow> 'c netsys \<Rightarrow> 'c netsys go" where
  "ns_start i names ns =
     (if i < ns_n ns \<and> length names = ns_n ns then
        let ns = ns_crash i ns; saved = Copy (ns_saved ns ! i); rf = Make [0..<ns_n ns] (int i) saved in
        gbind (make_ends names (ns_n ns) (ns_net ns)) (\<lambda>rn.
        case new_server (AddService (Raft_service rf) MakeServer) rn of (a, rn) \<Rightarrow>
          Inr (ns\<lparr>ns_net := AddServer i a rn, ns_endnames := (ns_endnames ns)[i := Some names],
                  ns_saved := (ns_saved ns)[i := saved]\<rparr>))
      else Inr ns)"

datatype 'c net_event =
    Local "'c event"
  | NetCall nat choices "net_op list"
  | Control net_op
  | CrashServer nat
  | StartOne nat "string list"

fun ns_exec :: "'c net_event \<Rightarrow> 'c netsys \<Rightarrow> 'c netsys go" where
  "ns_exec (Local e) ns = ns_local e ns"
| "ns_exec (NetCall k ch ops) ns = ns_call k ch ops ns"
| "ns_exec (Control op) ns = Inr (ns\<lparr>ns_net := net_do op (ns_net ns)\<rparr>)"
| "ns_exec (CrashServer i) ns = Inr (ns_crash i ns)"
| "ns_exec (StartOne i names) ns = ns_start i names ns"

text \<open>The events that end a running peer.\<close>

fun crashes :: "'c net_event \<Rightarrow> 'c netsys \<Rightarrow> bool" where
  "crashes (CrashServer i) ns = up ns i"
| "crashes (StartOne i names) ns = up ns i"
| "crashes _ ns = False"

definition ns_step :: "'c netsys \<Rightarrow> 'c netsys \<Rightarrow> bool" where
  "ns_step ns ns' \<longleftrightarrow> (\<exists>e. ns_exec e ns = Inr ns')"

definition ns_stable_step :: "'c netsys \<Rightarrow> 'c netsys \<Rightarrow> bool" where
  "ns_stable_step ns ns' \<longleftrightarrow> (\<exists>e. \<not> crashes e ns \<and> ns_exec e ns = Inr ns')"

definition ns_starts :: "nat \<Rightarrow> 'c netsys \<Rightarrow> bool" where
  "ns_starts n ns \<longleftrightarrow> ns = ns_empty n"

section \<open>Clusters that differ in lost replies only\<close>

text \<open>A caller that was told its call failed does not know whether it was handled.\<close>

definition erase :: "'c call \<Rightarrow> 'c call" where
  "erase c = (if c_returned c then c\<lparr>c_rep := None\<rparr> else c)"

lemma erase_eq:
  "erase c = erase d \<longleftrightarrow> c_from c = c_from d \<and> c_to c = c_to d \<and> c_req c = c_req d \<and> c_returned c = c_returned d \<and>
     (c_returned c \<or> c_rep c = c_rep d)"
  by (cases c, cases d) (auto simp: erase_def)

definition same :: "'c cluster \<Rightarrow> 'c cluster \<Rightarrow> bool" where
  "same s t \<longleftrightarrow> servers s = servers t \<and> mains s = mains t \<and> gors s = gors t \<and> elections s = elections t \<and>
     map erase (calls s) = map erase (calls t)"

lemma same_length: "same s t \<Longrightarrow> length (calls s) = length (calls t)"
  by (metis length_map same_def)

lemma same_nth: "same s t \<Longrightarrow> k < length (calls s) \<Longrightarrow> erase (calls s ! k) = erase (calls t ! k)"
  by (metis length_map nth_map same_def)

lemma same_call: "same s t \<Longrightarrow> k < length (calls s) \<Longrightarrow> \<not> c_returned (calls s ! k) \<Longrightarrow> calls t ! k = calls s ! k"
  using same_nth [of s t k] by (cases "calls s ! k", cases "calls t ! k") (auto simp: erase_eq)

lemma same_calls_upd:
  "map erase cs = map erase ds \<Longrightarrow> erase c = erase d \<Longrightarrow> map erase (cs[k := c]) = map erase (ds[k := d])"
  by (simp add: map_update)

lemma same_actor: "same s t \<Longrightarrow> actor e t = actor e s"
  using same_nth [of s t] same_length [of s t] by (cases e) (auto simp: same_def erase_eq)

text \<open>The steps of a peer do not see the difference.\<close>

lemma same_calls: "same s t \<longleftrightarrow> (\<exists>ds. t = s\<lparr>calls := ds\<rparr> \<and> map erase (calls s) = map erase ds)"
  by (cases s, cases t) (auto simp: same_def)

lemma same_goroutine:
  assumes "same s t" and "run_goroutine k s = Inr s'"
  shows "\<exists>t'. run_goroutine k t = Inr t' \<and> same s' t'"
proof -
  obtain ds where t: "t = s\<lparr>calls := ds\<rparr>" "map erase (calls s) = map erase ds" using assms(1) by (auto simp: same_calls)
  obtain i g where g: "gors s ! k = (i, g)" by (cases "gors s ! k")
  show ?thesis
  proof (cases g)
    case (GAppend j)
    with assms(2) g obtain oa where "appendLog_send (int j) (servers s ! i) = Inr oa"
      by (auto simp: run_goroutine_def gbind_eq_Inr)
    with assms(2) g GAppend t show ?thesis by (cases oa) (auto simp: run_goroutine_def same_def)
  qed (use assms(2) g t in \<open>auto simp: run_goroutine_def same_def gbind_eq_Inr Let_def\<close>)
qed

text \<open>What the continuation of a call does, up to the table of calls.\<close>

definition continue :: "'c call \<Rightarrow> 'c cluster \<Rightarrow> 'c cluster go" where
  "continue c s =
     (let i = c_from c; rf = servers s ! i in
      case (c_req c, c_rep c) of
        (VoteReq a e, Some (VoteRep r)) \<Rightarrow>
          gbind (startElection_reply a r rf (e_count (elections s ! e))) (\<lambda>(rf', count).
          Inr (s\<lparr>servers := (servers s)[i := rf'], elections := (elections s)[e := (elections s ! e)\<lparr>e_count := count\<rparr>]\<rparr>))
      | (AppendReq a, Some (AppendRep r)) \<Rightarrow>
          gbind (appendLog_reply (int (c_to c)) r rf) (\<lambda>(rf', continue).
          Inr (s\<lparr>servers := (servers s)[i := rf'],
                 gors := (if continue then gors s @ [(i, GAppend (c_to c))] else gors s)\<rparr>))
      | _ \<Rightarrow> Inr s)"

definition answered :: "'c call \<Rightarrow> bool" where
  "answered c \<longleftrightarrow> (case (c_req c, c_rep c) of
     (VoteReq a e, Some (VoteRep r)) \<Rightarrow> True | (AppendReq a, Some (AppendRep r)) \<Rightarrow> True | _ \<Rightarrow> False)"

lemma answered_cases:
  "answered c \<longleftrightarrow> (\<exists>a e r. c_req c = VoteReq a e \<and> c_rep c = Some (VoteRep r)) \<or>
     (\<exists>a r. c_req c = AppendReq a \<and> c_rep c = Some (AppendRep r))"
  by (auto simp: answered_def split: request.splits option.splits response.splits)

lemma return_reply_continue:
  "return_reply k s =
     (let c = calls s ! k in
      if c_returned c \<or> \<not> answered c then Inr s
      else gbind (continue c s) (\<lambda>u. Inr (u\<lparr>calls := (calls s)[k := c\<lparr>c_returned := True\<rparr>]\<rparr>)))"
  by (simp add: return_reply_def continue_def answered_def Let_def gbind_def
      split: request.split option.split response.split sum.split prod.split)

lemma continue_calls: "continue c (s\<lparr>calls := ds\<rparr>) = gbind (continue c s) (\<lambda>u. Inr (u\<lparr>calls := ds\<rparr>))"
  by (simp add: continue_def Let_def gbind_def split: request.split option.split response.split sum.split prod.split)

lemma same_reply:
  assumes "same s t" and k: "k < length (calls s)" and res: "return_reply k s = Inr s'"
  shows "\<exists>t'. return_reply k t = Inr t' \<and> same s' t'"
proof (cases "c_returned (calls s ! k) \<or> \<not> answered (calls s ! k)")
  case True
  moreover have "c_returned (calls t ! k) = c_returned (calls s ! k)" using same_nth [OF assms(1) k] by (simp add: erase_eq)
  moreover have "calls t ! k = calls s ! k" if "\<not> c_returned (calls s ! k)" by (rule same_call [OF assms(1) k that])
  ultimately have "return_reply k s = Inr s" "return_reply k t = Inr t" by (auto simp: return_reply_continue Let_def)
  with res assms(1) show ?thesis by simp
next
  case False
  obtain ds where t: "t = s\<lparr>calls := ds\<rparr>" "map erase (calls s) = map erase ds" using assms(1) by (auto simp: same_calls)
  have c: "ds ! k = calls s ! k" using same_call [OF assms(1) k] False t by simp
  let ?c = "(calls s ! k)\<lparr>c_returned := True\<rparr>"
  from res False obtain u where u: "continue (calls s ! k) s = Inr u" "s' = u\<lparr>calls := (calls s)[k := ?c]\<rparr>"
    by (auto simp: return_reply_continue Let_def gbind_eq_Inr)
  have "return_reply k t = Inr (u\<lparr>calls := ds[k := ?c]\<rparr>)"
    using False by (simp add: return_reply_continue Let_def t(1) c continue_calls u(1))
  moreover have "map erase ((calls s)[k := ?c]) = map erase (ds[k := ?c])" by (rule same_calls_upd [OF t(2) refl])
  ultimately show ?thesis by (simp add: u(2) same_def)
qed

lemma same_step:
  assumes "same s t" and "actor e s \<noteq> None" and "step e s = Inr s'"
  shows "\<exists>t'. step e t = Inr t' \<and> same s' t'"
proof -
  obtain ds where t: "t = s\<lparr>calls := ds\<rparr>" "map erase (calls s) = map erase ds" using assms(1) by (auto simp: same_calls)
  show ?thesis
  proof (cases e)
    case (Reply k)
    with assms same_length [OF assms(1)] same_reply [OF assms(1), of k] show ?thesis by (auto split: if_splits)
  next
    case (RunGoroutine k)
    with assms same_goroutine [OF assms(1), of k] t show ?thesis by (auto split: if_splits)
  qed (use assms(2,3) t in \<open>auto simp: same_def main_read_def main_vote_def main_append_def main_timeout_def main_leader_def
      client_start_def Let_def split: if_splits\<close>)
qed

section \<open>Steps of a peer change that peer only\<close>

lemma continue_frame:
  assumes "continue c s = Inr u"
  shows "\<exists>rf. servers u = (servers s)[c_from c := rf]" "mains u = mains s"
    "set (gors u) \<subseteq> insert (c_from c, GAppend (c_to c)) (set (gors s))"
proof -
  consider (vote) a e r where "c_req c = VoteReq a e" "c_rep c = Some (VoteRep r)"
    | (append) a r where "c_req c = AppendReq a" "c_rep c = Some (AppendRep r)"
    | (none) "\<not> answered c"
    using answered_cases by blast
  then have "(\<exists>rf. servers u = (servers s)[c_from c := rf]) \<and> mains u = mains s \<and>
    set (gors u) \<subseteq> insert (c_from c, GAppend (c_to c)) (set (gors s))"
  proof cases
    case none
    with assms have "u = s"
      by (simp add: continue_def answered_def Let_def split: request.splits option.splits response.splits)
    then show ?thesis by (metis list_update_id subset_insertI)
  qed (use assms in \<open>auto simp: continue_def Let_def gbind_eq_Inr split: if_splits\<close>)
  then show "\<exists>rf. servers u = (servers s)[c_from c := rf]" "mains u = mains s"
    "set (gors u) \<subseteq> insert (c_from c, GAppend (c_to c)) (set (gors s))" by simp_all
qed

lemma goroutine_frame:
  assumes "run_goroutine k s = Inr t" and "gors s ! k = (i, g)"
  shows "servers t = servers s" "mains t = mains s"
    "gors t = gors s \<and> calls t = calls s \<or>
     gors t = (gors s)[k := (i, GDone)] \<and> (\<exists>cs. calls t = calls s @ cs \<and> (\<forall>c\<in>set cs. c_from c = i \<and> g \<noteq> GDone))"
proof -
  have "servers t = servers s \<and> mains t = mains s \<and> (gors t = gors s \<and> calls t = calls s \<or>
     gors t = (gors s)[k := (i, GDone)] \<and> (\<exists>cs. calls t = calls s @ cs \<and> (\<forall>c\<in>set cs. c_from c = i \<and> g \<noteq> GDone)))"
  proof (cases g)
    case GElect
    with assms show ?thesis by (auto simp: run_goroutine_def Let_def gbind_eq_Inr new_call_def)
  next
    case (GAppend j)
    with assms obtain oa where "appendLog_send (int j) (servers s ! i) = Inr oa"
      by (auto simp: run_goroutine_def gbind_eq_Inr)
    with assms GAppend show ?thesis by (cases oa) (auto simp: run_goroutine_def new_call_def)
  qed (use assms in \<open>simp add: run_goroutine_def\<close>)
  then show "servers t = servers s" "mains t = mains s"
    "gors t = gors s \<and> calls t = calls s \<or>
     gors t = (gors s)[k := (i, GDone)] \<and> (\<exists>cs. calls t = calls s @ cs \<and> (\<forall>c\<in>set cs. c_from c = i \<and> g \<noteq> GDone))"
    by blast+
qed

text \<open>Goroutines and pending calls belong to peers that are up.\<close>

definition pending_up :: "(nat \<Rightarrow> bool) \<Rightarrow> 'c cluster \<Rightarrow> bool" where
  "pending_up U s \<longleftrightarrow> (\<forall>c\<in>set (calls s). \<not> c_returned c \<longrightarrow> U (c_from c)) \<and>
     (\<forall>(i, g)\<in>set (gors s). g \<noteq> GDone \<longrightarrow> U i)"

lemma pending_upI:
  assumes "pending_up U s" and "set (calls t) \<subseteq> set (calls s) \<union> C" and "set (gors t) \<subseteq> set (gors s) \<union> G"
    and "\<And>c. c \<in> C \<Longrightarrow> c_returned c \<or> U (c_from c)" and "\<And>i g. (i, g) \<in> G \<Longrightarrow> g = GDone \<or> U i"
  shows "pending_up U t"
  using assms unfolding pending_up_def by blast

lemma local_frame:
  assumes a: "actor e s = Some i" and i: "i < length (servers s)" and res: "step e s = Inr t"
  shows "servers t = (servers s)[i := servers t ! i] \<and> length (mains t) = length (mains s) \<and>
    (pending_up U s \<and> U i \<longrightarrow> pending_up U t)"
proof (cases e)
  case (RunGoroutine k)
  with a res have k: "k < length (gors s)" "fst (gors s ! k) = i" "run_goroutine k s = Inr t" by (auto split: if_splits)
  then obtain g where g: "gors s ! k = (i, g)" by (cases "gors s ! k") simp
  note f = goroutine_frame [OF k(3) g]
  have "pending_up U t" if "pending_up U s" "U i"
    by (rule pending_upI [OF that(1), where C = "{c. c_from c = i}" and G = "{(i, GDone)}"])
      (use f(3) that(2) set_update_subset_insert [of "gors s" k "(i, GDone)"] in auto)
  with f(1,2) show ?thesis by simp
next
  case (Reply k)
  with a res have k: "k < length (calls s)" "c_from (calls s ! k) = i" "return_reply k s = Inr t" by (auto split: if_splits)
  show ?thesis
  proof (cases "c_returned (calls s ! k) \<or> \<not> answered (calls s ! k)")
    case True
    with k(3) show ?thesis by (simp add: return_reply_continue Let_def)
  next
    case False
    let ?c = "(calls s ! k)\<lparr>c_returned := True\<rparr>"
    from False k(3) obtain u where u: "continue (calls s ! k) s = Inr u" "t = u\<lparr>calls := (calls s)[k := ?c]\<rparr>"
      by (auto simp: return_reply_continue Let_def gbind_eq_Inr)
    note f = continue_frame [OF u(1)]
    have "pending_up U t" if "pending_up U s" "U i"
      by (rule pending_upI [OF that(1), where C = "{?c}" and G = "{(i, GAppend (c_to (calls s ! k)))}"])
        (use f(3) k(2) that(2) u(2) set_update_subset_insert [of "calls s" k ?c] in auto)
    with f(1,2) k(2) i u(2) show ?thesis by auto
  qed
qed (use a res i in \<open>auto simp: main_read_def main_vote_def main_append_def main_timeout_def main_leader_def client_start_def
      Let_def pending_up_def split: if_splits\<close>)

section \<open>The invariant of the networked system\<close>

definition ns_inv :: "'c netsys \<Rightarrow> bool" where
  "ns_inv ns \<longleftrightarrow> length (ns_endnames ns) = ns_n ns \<and> length (ns_mains ns) = ns_n ns \<and>
     holds (endpoint ns) (ns_net ns) (servers (ns_cluster ns)) \<and>
     (\<forall>i<ns_n ns. up ns i \<longrightarrow> (\<forall>j<ns_n ns. net_ends (ns_net ns) (endpoint ns i j))) \<and>
     pending_up (up ns) (ns_cluster ns)"

definition ns_sim :: "nat \<Rightarrow> 'c netsys \<Rightarrow> 'c cluster \<Rightarrow> bool" where
  "ns_sim n ns s \<longleftrightarrow> ns_n ns = n \<and> ns_inv ns \<and> same s (ns_cluster ns)"

lemma raft_object_at: "raft_at rn i rf \<Longrightarrow> raft_object rn i = Some rf"
  by (auto simp: raft_at_def raft_object_def Raft_service_simps)

lemma peer_down: "\<not> up ns i \<Longrightarrow> peer ns i = restarted ns i"
  by (simp add: peer_def up_def raft_object_def)

lemma ns_cluster_fields [simp]:
  "mains (ns_cluster ns) = ns_mains ns" "gors (ns_cluster ns) = ns_gors ns" "elections (ns_cluster ns) = ns_elections ns"
  "calls (ns_cluster ns) = ns_calls ns" "length (servers (ns_cluster ns)) = ns_n ns"
  "i < ns_n ns \<Longrightarrow> servers (ns_cluster ns) ! i = peer ns i"
  by (simp_all add: ns_cluster_def)

text \<open>The peers of a system are known once it is known what its network holds.\<close>

lemma peers_held:
  assumes "holds ends (ns_net ns) rfs" and "length rfs = ns_n ns"
    and "\<And>j. j < ns_n ns \<Longrightarrow> \<not> up ns j \<Longrightarrow> restarted ns j = rfs ! j"
  shows "servers (ns_cluster ns) = rfs"
proof (rule nth_equalityI)
  fix j assume j: "j < length (servers (ns_cluster ns))"
  show "servers (ns_cluster ns) ! j = rfs ! j"
  proof (cases "up ns j")
    case True
    with assms(1,2) j have "raft_at (ns_net ns) j (rfs ! j)" by (simp add: holds_def up_def)
    then show ?thesis using j by (simp add: peer_def raft_object_at)
  qed (use assms(3) j in \<open>simp add: peer_down\<close>)
qed (simp add: assms(2))

lemma same_links_trans: "same_links a b \<Longrightarrow> same_links b c \<Longrightarrow> same_links a c"
  by (simp add: same_links_def)

lemma net_do_frame: "same_links rn (net_do op rn) \<and> server_heap (net_do op rn) = server_heap rn"
  by (cases op) (simp_all add: same_links_def Enable_def Reliable_def LongReordering_def LongDelays_def)

lemma net_dos_frame: "same_links rn (fold net_do ops rn) \<and> server_heap (fold net_do ops rn) = server_heap rn"
proof (induction ops arbitrary: rn)
  case (Cons op ops)
  then show ?case using net_do_frame [of rn op] same_links_trans by fastforce
qed (simp add: same_links_def)

lemma holds_frame:
  "holds ends rn rfs \<Longrightarrow> same_links rn rn' \<Longrightarrow> server_heap rn' = server_heap rn \<Longrightarrow> holds ends rn' rfs"
  by (simp add: holds_def raft_at_def same_links_def)

section \<open>Every step is matched\<close>

lemma holds_set_raft:
  assumes "holds ends rn rfs" and "i < length rfs" and "net_servers rn i \<noteq> None"
  shows "holds ends (set_raft i rf rn) (rfs[i := rf])" "same_links rn (set_raft i rf rn)"
proof -
  obtain a where a: "net_servers rn i = Some a" using assms(3) by blast
  show "holds ends (set_raft i rf rn) (rfs[i := rf])"
    using holds_update [OF assms(1,2) a] a by (simp add: set_raft_def Let_def)
  show "same_links rn (set_raft i rf rn)" using a by (simp add: set_raft_def Let_def same_links_def)
qed

lemma sim_local:
  assumes sim: "ns_sim n ns s" and res: "ns_local e ns = Inr ns'"
  shows "ns' = ns \<or> (\<exists>s'. step e s = Inr s' \<and> \<not> is_crash e \<and> ns_sim n ns' s')"
proof -
  from sim have n: "ns_n ns = n" and inv: "ns_inv ns" and same: "same s (ns_cluster ns)" by (auto simp: ns_sim_def)
  show ?thesis
  proof (cases "\<exists>i. actor e (ns_cluster ns) = Some i \<and> i < n \<and> up ns i")
    case False
    with res n show ?thesis by (auto simp: ns_local_def split: option.splits if_splits)
  next
    case True
    then obtain i where i: "actor e (ns_cluster ns) = Some i" "i < n" "up ns i" by blast
    with res n obtain t where t: "step e (ns_cluster ns) = Inr t"
      and ns': "ns' = ns\<lparr>ns_net := set_raft i (servers t ! i) (ns_net ns), ns_mains := mains t, ns_gors := gors t,
                    ns_elections := elections t, ns_calls := calls t\<rparr>"
      by (auto simp: ns_local_def gbind_eq_Inr)
    have h: "holds (endpoint ns) (ns_net ns) (servers (ns_cluster ns))" using inv by (simp add: ns_inv_def)
    have fr: "servers t = (servers (ns_cluster ns))[i := servers t ! i]" "length (mains t) = n" "pending_up (up ns) t"
      using local_frame [OF i(1) _ t, of "up ns"] i inv n by (auto simp: ns_inv_def)
    note sr = holds_set_raft [OF h, of i "servers t ! i"]
    have net: "holds (endpoint ns) (ns_net ns') (servers t)" "same_links (ns_net ns) (ns_net ns')"
      using sr i n fr(1) by (simp_all add: ns' up_def)
    have e: "endpoint ns' = endpoint ns" "up ns' = up ns" "ns_n ns' = n"
      using net(2) n by (auto simp: ns' endpoint_def up_def same_links_def fun_eq_iff)
    have "servers (ns_cluster ns') = servers t"
    proof (rule peers_held [OF net(1)])
      show "length (servers t) = ns_n ns'" using fr(1) e n by (metis length_list_update ns_cluster_fields(5))
      fix j assume j: "j < ns_n ns'" "\<not> up ns' j"
      then have "servers t ! j = restarted ns j" using fr(1) e i(3) n
        by (metis ns_cluster_fields(6) nth_list_update_neq peer_down)
      then show "restarted ns' j = servers t ! j" by (simp add: ns' restarted_def)
    qed
    then have c: "ns_cluster ns' = t" by (cases t) (simp add: ns_cluster_def ns')
    have "ns_inv ns'"
      unfolding ns_inv_def c e using net fr inv n by (simp add: ns_inv_def ns' same_links_def)
    moreover obtain s' where "step e s = Inr s'" "same s' t"
    proof -
      have "same (ns_cluster ns) s" using same by (simp add: same_def)
      from same_step [OF this _ t] i(1) obtain s' where "step e s = Inr s'" "same t s'" by auto
      then show ?thesis by (intro that [of s']) (simp_all add: same_def)
    qed
    moreover have "\<not> is_crash e" using i(1) by (cases e) simp_all
    ultimately show ?thesis using c e(3) by (auto simp: ns_sim_def)
  qed
qed

text \<open>Changing the network without touching servers and connections changes nothing for the peers.\<close>

lemma sim_net:
  assumes "ns_sim n ns s" and l: "same_links (ns_net ns) rn" and h: "server_heap rn = server_heap (ns_net ns)"
  shows "ns_sim n (ns\<lparr>ns_net := rn\<rparr>) s"
proof -
  let ?ns = "ns\<lparr>ns_net := rn\<rparr>"
  have e: "endpoint ?ns = endpoint ns" "up ?ns = up ns" "ns_cluster ?ns = ns_cluster ns"
    using l h by (auto simp: endpoint_def up_def same_links_def fun_eq_iff ns_cluster_def peer_def raft_object_def restarted_def
        split: option.split)
  have "ns_inv ?ns"
    unfolding ns_inv_def e using assms(1) l h
    by (auto simp: ns_sim_def ns_inv_def same_links_def intro: holds_frame [of _ "ns_net ns"])
  with assms(1) e(3) show ?thesis by (simp add: ns_sim_def)
qed

text \<open>A call that was handled, or not, and whose caller has the reply, or not.\<close>

lemma sim_called:
  assumes sim: "ns_sim n ns s" and net: "holds (endpoint ns) rn (servers t)" "same_links (ns_net ns) rn"
    and t: "mains t = ns_mains ns" "gors t = ns_gors ns" "elections t = ns_elections ns" "length (servers t) = n"
    and down: "\<And>j. j < n \<Longrightarrow> \<not> up ns j \<Longrightarrow> servers t ! j = servers s ! j"
    and cs: "map erase (calls t) = map erase cs" "\<forall>c\<in>set cs. \<not> c_returned c \<longrightarrow> up ns (c_from c)"
  shows "ns_sim n (ns\<lparr>ns_net := rn, ns_calls := cs\<rparr>) t"
proof -
  let ?ns = "ns\<lparr>ns_net := rn, ns_calls := cs\<rparr>"
  have n: "ns_n ns = n" and inv: "ns_inv ns" and s: "servers s = servers (ns_cluster ns)"
    using sim by (auto simp: ns_sim_def same_def)
  have e: "endpoint ?ns = endpoint ns" "up ?ns = up ns"
    using net(2) by (auto simp: endpoint_def up_def same_links_def fun_eq_iff)
  have "servers (ns_cluster ?ns) = servers t"
  proof (rule peers_held [of "endpoint ns"])
    fix j assume "j < ns_n ?ns" "\<not> up ?ns j"
    then show "restarted ?ns j = servers t ! j"
      using down [of j] e(2) n s by (simp add: peer_down restarted_def)
  qed (use net t n in simp_all)
  then have c: "ns_cluster ?ns = \<lparr>servers = servers t, mains = mains t, gors = gors t, elections = elections t, calls = cs\<rparr>"
    by (simp add: ns_cluster_def t)
  have "ns_inv ?ns"
    unfolding ns_inv_def e c using inv net t n cs(2) by (simp add: ns_inv_def same_links_def pending_up_def)
  then show ?thesis using n cs(1) by (simp add: ns_sim_def c same_def)
qed

lemma deliver_frame:
  assumes "deliver k s = Inr t" and "c_rep (calls s ! k) = None"
  shows "\<exists>rf r. servers t = (servers s)[c_to (calls s ! k) := rf] \<and> mains t = mains s \<and> gors t = gors s \<and>
    elections t = elections s \<and> calls t = (calls s)[k := (calls s ! k)\<lparr>c_rep := Some r\<rparr>]"
  using assms by (cases "c_req (calls s ! k)") (auto simp: deliver_def Let_def gbind_eq_Inr)

text \<open>A call that has not been made yet is the same call in both systems.\<close>

definition to_make :: "nat \<Rightarrow> 'c netsys \<Rightarrow> bool" where
  "to_make k ns \<longleftrightarrow> k < length (ns_calls ns) \<and> \<not> c_returned (ns_calls ns ! k) \<and> c_rep (ns_calls ns ! k) = None"

lemma sim_to_make:
  assumes sim: "ns_sim n ns s" and ok: "cluster_ok n s" and k: "to_make k ns"
  shows "k < length (calls s)" "calls s ! k = ns_calls ns ! k" "c_from (ns_calls ns ! k) < n" "up ns (c_from (ns_calls ns ! k))"
    and "\<And>c. c_from c = c_from (ns_calls ns ! k) \<Longrightarrow> \<forall>d\<in>set ((ns_calls ns)[k := c]). \<not> c_returned d \<longrightarrow> up ns (c_from d)"
proof -
  have sm: "same (ns_cluster ns) s" using sim by (simp add: ns_sim_def same_def)
  show 1: "k < length (calls s)" using k same_length [OF sm] by (simp add: to_make_def)
  show 2: "calls s ! k = ns_calls ns ! k" using k same_call [OF sm, of k] by (simp add: to_make_def)
  show "c_from (ns_calls ns ! k) < n" using cluster_okD(4) [OF ok 1] 2 by (simp add: call_ok_def)
  have p: "\<forall>d\<in>set (ns_calls ns). \<not> c_returned d \<longrightarrow> up ns (c_from d)"
    using sim by (simp add: ns_sim_def ns_inv_def pending_up_def)
  then show 4: "up ns (c_from (ns_calls ns ! k))" using k by (simp add: to_make_def)
  show "\<forall>d\<in>set ((ns_calls ns)[k := c]). \<not> c_returned d \<longrightarrow> up ns (c_from d)" if "c_from c = c_from (ns_calls ns ! k)" for c
    using p 4 that set_update_subset_insert [of "ns_calls ns" k c] by auto
qed

lemma fail_step: "k < length (calls s) \<Longrightarrow> stable_step s (return_failed k s)"
  unfolding stable_step_def by (rule exI [of _ "Fail k"]) simp

lemma sim_failed:
  assumes sim: "ns_sim n ns s" and ok: "cluster_ok n s" and k: "to_make k ns"
    and l: "same_links (ns_net ns) rn" "server_heap rn = server_heap (ns_net ns)"
  shows "ns_sim n (ns\<lparr>ns_net := rn, ns_calls := (ns_calls ns)[k := (ns_calls ns ! k)\<lparr>c_returned := True\<rparr>]\<rparr>) (return_failed k s)"
proof (rule sim_called [OF sim _ l(1)])
  show "holds (endpoint ns) rn (servers (return_failed k s))"
    using holds_frame [OF _ l] sim by (simp add: ns_sim_def ns_inv_def same_def return_failed_def)
  show "map erase (calls (return_failed k s)) = map erase ((ns_calls ns)[k := (ns_calls ns ! k)\<lparr>c_returned := True\<rparr>])"
    using sim sim_to_make(2) [OF sim ok k] by (simp add: ns_sim_def same_def return_failed_def map_update)
  show "\<forall>c\<in>set ((ns_calls ns)[k := (ns_calls ns ! k)\<lparr>c_returned := True\<rparr>]). \<not> c_returned c \<longrightarrow> up ns (c_from c)"
    by (rule sim_to_make(5) [OF sim ok k]) simp
qed (use sim in \<open>simp_all add: ns_sim_def same_def return_failed_def\<close>)

lemma sim_delivered:
  assumes sim: "ns_sim n ns s" and ok: "cluster_ok n s" and k: "to_make k ns" and del: "deliver k s = Inr t"
    and h: "holds (endpoint ns) rn (servers t)" and l: "same_links (ns_net ns) rn" and to: "up ns (c_to (ns_calls ns ! k))"
  shows "ns_sim n (ns\<lparr>ns_net := rn, ns_calls := (ns_calls ns)[k := (ns_calls ns ! k)\<lparr>c_returned := True\<rparr>]\<rparr>) (return_failed k t)"
    and "ns_sim n (ns\<lparr>ns_net := rn, ns_calls := (ns_calls ns)[k := (ns_calls ns ! k)\<lparr>c_rep := c_rep (calls t ! k)\<rparr>]\<rparr>) t"
    and "k < length (calls t)"
proof -
  note m = sim_to_make [OF sim ok k]
  let ?c = "ns_calls ns ! k"
  have "c_rep (calls s ! k) = None" using k m(2) by (simp add: to_make_def)
  from deliver_frame [OF del this] m(2) obtain rf r where f: "servers t = (servers s)[c_to ?c := rf]" "mains t = mains s"
    "gors t = gors s" "elections t = elections s" "calls t = (calls s)[k := ?c\<lparr>c_rep := Some r\<rparr>]" by auto
  have down: "servers t ! j = servers s ! j" if "\<not> up ns j" for j
    using to that f(1) by (metis nth_list_update_neq)
  have er: "map erase (calls s) = map erase (ns_calls ns)" using sim by (simp add: ns_sim_def same_def)
  show "ns_sim n (ns\<lparr>ns_net := rn, ns_calls := (ns_calls ns)[k := ?c\<lparr>c_returned := True\<rparr>]\<rparr>) (return_failed k t)"
  proof (rule sim_called [OF sim _ l])
    show "map erase (calls (return_failed k t)) = map erase ((ns_calls ns)[k := ?c\<lparr>c_returned := True\<rparr>])"
      using m(1) f(5) by (simp add: return_failed_def map_update er erase_def)
    show "\<forall>c\<in>set ((ns_calls ns)[k := ?c\<lparr>c_returned := True\<rparr>]). \<not> c_returned c \<longrightarrow> up ns (c_from c)"
      by (rule m(5)) simp
  qed (use h down sim f in \<open>simp_all add: ns_sim_def same_def return_failed_def\<close>)
  show "ns_sim n (ns\<lparr>ns_net := rn, ns_calls := (ns_calls ns)[k := ?c\<lparr>c_rep := c_rep (calls t ! k)\<rparr>]\<rparr>) t"
  proof (rule sim_called [OF sim h l])
    show "map erase (calls t) = map erase ((ns_calls ns)[k := ?c\<lparr>c_rep := c_rep (calls t ! k)\<rparr>])"
      using m(1) f(5) by (simp add: map_update er)
    show "\<forall>c\<in>set ((ns_calls ns)[k := ?c\<lparr>c_rep := c_rep (calls t ! k)\<rparr>]). \<not> c_returned c \<longrightarrow> up ns (c_from c)"
      by (rule m(5)) simp
  qed (use down sim f in \<open>simp_all add: ns_sim_def same_def\<close>)
  show "k < length (calls t)" using m(1) f(5) by simp
qed

lemma call_outcome:
  assumes sim: "ns_sim n ns s" and ok: "cluster_ok n s" and k: "to_make k ns"
  defines "c \<equiv> ns_calls ns ! k"
  obtains rn1 rep s1 where
    "send_request ch (fold net_do ops) (endpoint ns) (peer ns (c_from c)) (int (c_to c)) (c_req c) (ns_net ns) = Inr (fold net_do ops rn1, rep)"
    "same_links (ns_net ns) rn1"
    "rn1 = ns_net ns \<and> rep = None \<or> up ns (c_to c) \<and> step (Deliver k) s = Inr s1 \<and> holds (endpoint ns) rn1 (servers s1) \<and>
      (rep = None \<or> rep = c_rep (calls s1 ! k))"
    "reliable (ns_net ns) \<and> net_enabled (ns_net ns) (endpoint ns (c_from c) (c_to c)) = Some True \<and> up ns (c_to c) \<and>
      handler_in_time ch \<and> ops = [] \<longrightarrow> rep \<noteq> None"
proof -
  note m = sim_to_make [OF sim ok k, folded c_def]
  have inv: "ns_inv ns" and sv: "servers s = servers (ns_cluster ns)" and n: "ns_n ns = n"
    using sim by (auto simp: ns_sim_def same_def)
  have h: "holds (endpoint ns) (ns_net ns) (servers s)" "c_rep c = None" "net_servers (ns_net ns) (c_from c) \<noteq> None"
    using inv sv k m(4) by (auto simp: ns_inv_def to_make_def up_def c_def)
  have "servers s ! c_from c = peer ns (c_from c)" using m(3) n sv by simp
  with send_request_delivers [OF ok h(1) m(1,2) h(2,3), of ch "fold net_do ops"] show ?thesis
    by (elim exE conjE) (rule that, simp, assumption, simp_all add: up_def fun_eq_iff)
qed

lemma sim_call:
  assumes sim: "ns_sim n ns s" and ok: "cluster_ok n s" and res: "ns_call k ch ops ns = Inr ns'"
  shows "\<exists>s'. stable_step\<^sup>*\<^sup>* s s' \<and> ns_sim n ns' s'"
proof (cases "to_make k ns")
  case False
  with res sim show ?thesis by (auto simp: ns_call_def to_make_def Let_def)
next
  case True
  let ?c = "ns_calls ns ! k"
  note m = sim_to_make [OF sim ok True]
  from call_outcome [OF sim ok True, of ch ops] obtain rn1 rep s1 where
    call: "send_request ch (fold net_do ops) (endpoint ns) (peer ns (c_from ?c)) (int (c_to ?c)) (c_req ?c) (ns_net ns)
      = Inr (fold net_do ops rn1, rep)" and l1: "same_links (ns_net ns) rn1"
    and d: "rn1 = ns_net ns \<and> rep = None \<or> up ns (c_to ?c) \<and> step (Deliver k) s = Inr s1 \<and>
      holds (endpoint ns) rn1 (servers s1) \<and> (rep = None \<or> rep = c_rep (calls s1 ! k))" .
  let ?rn = "fold net_do ops rn1"
  have l: "same_links (ns_net ns) ?rn" "server_heap ?rn = server_heap rn1" "same_links rn1 ?rn"
    using net_dos_frame [of rn1 ops] same_links_trans [OF l1] by auto
  have ns': "ns' = ns\<lparr>ns_net := ?rn, ns_calls := (ns_calls ns)[k :=
      (case rep of None \<Rightarrow> ?c\<lparr>c_returned := True\<rparr> | Some r \<Rightarrow> ?c\<lparr>c_rep := Some r\<rparr>)]\<rparr>"
    using res True call by (auto simp: ns_call_def to_make_def Let_def)
  from d consider (lost) "rn1 = ns_net ns" "rep = None"
    | (made) "up ns (c_to ?c)" "step (Deliver k) s = Inr s1" "holds (endpoint ns) rn1 (servers s1)" "rep = None \<or> rep = c_rep (calls s1 ! k)"
    by blast
  then show ?thesis
  proof cases
    case lost
    then have "ns_sim n ns' (return_failed k s)" using sim_failed [OF sim ok True l(1)] l(2) by (simp add: ns')
    then show ?thesis using fail_step [OF m(1)] by blast
  next
    case made
    have "deliver k s = Inr s1" "holds (endpoint ns) ?rn (servers s1)"
      using m(1) made holds_frame [OF _ l(3,2)] by simp_all
    note del = sim_delivered [OF sim ok True this l(1) made(1)]
    have st: "stable_step s s1" unfolding stable_step_def using made by (intro exI [of _ "Deliver k"]) simp
    show ?thesis
    proof (cases rep)
      case None
      then have "ns_sim n ns' (return_failed k s1)" using del(1) by (simp add: ns')
      then show ?thesis using st fail_step [OF del(3)] by (blast intro: converse_rtranclp_into_rtranclp)
    next
      case (Some r)
      then have "c_rep (calls s1 ! k) = Some r" using made by simp
      then have "ns_sim n ns' s1" using del(2) Some by (simp add: ns')
      with st show ?thesis by blast
    qed
  qed
qed

section \<open>Crashes and restarts\<close>

lemma fold_Enable_frame:
  "same_links rn (fold (\<lambda>j rn. if P j then Enable (e j) b rn else rn) js rn) \<and>
   server_heap (fold (\<lambda>j rn. if P j then Enable (e j) b rn else rn) js rn) = server_heap rn"
  by (induction js arbitrary: rn) (auto simp: same_links_def Enable_def)

lemma ns_disconnect_frame:
  "same_links (ns_net ns) (ns_disconnect i ns)" "server_heap (ns_disconnect i ns) = server_heap (ns_net ns)"
proof -
  let ?rn = "fold (\<lambda>j rn. if ns_endnames ns ! i \<noteq> None then Enable (endpoint ns i j) False rn else rn) [0..<ns_n ns] (ns_net ns)"
  have "same_links (ns_net ns) ?rn \<and> server_heap ?rn = server_heap (ns_net ns)"
    by (rule fold_Enable_frame)
  moreover have "same_links ?rn (ns_disconnect i ns) \<and> server_heap (ns_disconnect i ns) = server_heap ?rn"
    unfolding ns_disconnect_def by (rule fold_Enable_frame)
  ultimately show "same_links (ns_net ns) (ns_disconnect i ns)" "server_heap (ns_disconnect i ns) = server_heap (ns_net ns)"
    using same_links_trans by auto
qed

lemma holds_delete: "holds ends rn rfs \<Longrightarrow> holds ends (DeleteServer i rn) (rfs[i := rf])"
  by (auto simp: holds_def raft_at_def DeleteServer_def)

lemma erase_cut:
  "map erase cs = map erase ds \<Longrightarrow>
   map erase (map (\<lambda>c. if c_from c = i then c\<lparr>c_returned := True\<rparr> else c) cs) =
   map erase (map (\<lambda>c. if c_from c = i then c\<lparr>c_returned := True\<rparr> else c) ds)"
proof (induction cs arbitrary: ds)
  case (Cons c cs)
  then obtain d ds' where d: "ds = d # ds'" "erase c = erase d" "map erase cs = map erase ds'" by (cases ds) auto
  from d(2) have "c_from c = c_from d \<and> erase (c\<lparr>c_returned := True\<rparr>) = erase (d\<lparr>c_returned := True\<rparr>)" by (simp add: erase_eq)
  with Cons.IH [OF d(3)] d show ?case by simp
qed simp

lemma crash1_saved_idem [simp]: "crash1_saved (crash1_saved ps) = crash1_saved ps" "crash1_saved MakePersister = MakePersister"
  by (simp_all add: crash1_saved_def Copy_def ReadRaftState_def SaveRaftState_def MakePersister_def Let_def)

lemma ns_crash_fields:
  assumes "i < ns_n ns"
  shows "ns_net (ns_crash i ns) = DeleteServer i (ns_disconnect i ns)" "endpoint (ns_crash i ns) = endpoint ns"
    "ns_n (ns_crash i ns) = ns_n ns" "up (ns_crash i ns) = (\<lambda>j. j \<noteq> i \<and> up ns j)" "ns_endnames (ns_crash i ns) = ns_endnames ns"
    "ns_saved (ns_crash i ns) = (ns_saved ns)[i := crash1_saved (ns_saved_now ns i)]"
    "length (ns_mains (ns_crash i ns)) = length (ns_mains ns)" "ns_elections (ns_crash i ns) = ns_elections ns"
    "\<not> up ns i \<Longrightarrow> ns_mains (ns_crash i ns) = ns_mains ns" "\<not> up ns i \<Longrightarrow> ns_gors (ns_crash i ns) = ns_gors ns"
    "\<not> up ns i \<Longrightarrow> ns_calls (ns_crash i ns) = ns_calls ns"
  using assms ns_disconnect_frame(1) [of ns i]
  by (auto simp: ns_crash_def ns_kill_def endpoint_def fun_eq_iff up_def DeleteServer_def same_links_def Let_def)

text \<open>What a crash does to the peers: nothing to the others, and the next instance of the one that
  crashed starts from what was saved.\<close>

lemma crash_peers:
  assumes inv: "ns_inv ns" and i: "i < ns_n ns"
  shows "servers (ns_cluster (ns_crash i ns)) =
      (servers (ns_cluster ns))[i := Make [0..<ns_n ns] (int i) (Copy (crash1_saved (ns_saved_now ns i)))]" (is "_ = ?rfs")
    and "holds (endpoint ns) (ns_net (ns_crash i ns)) (servers (ns_cluster (ns_crash i ns)))"
proof -
  note f = ns_crash_fields [OF i]
  have "holds (endpoint ns) (ns_disconnect i ns) (servers (ns_cluster ns))"
    using inv ns_disconnect_frame [where ns = ns and i = i] by (auto simp: ns_inv_def intro: holds_frame [of _ "ns_net ns"])
  from holds_delete [OF this] have h: "holds (endpoint ns) (ns_net (ns_crash i ns)) ?rfs" by (simp add: f)
  show *: "servers (ns_cluster (ns_crash i ns)) = ?rfs"
  proof (rule peers_held [OF h])
    fix j assume j: "j < ns_n (ns_crash i ns)" "\<not> up (ns_crash i ns) j"
    show "restarted (ns_crash i ns) j = ?rfs ! j"
    proof (cases "j = i")
      case True
      then show ?thesis using i by (simp add: restarted_def f(3,6))
    next
      case False
      then have "peer ns j = restarted ns j" using j f(4) by (simp add: peer_down)
      then show ?thesis using False j by (simp add: restarted_def f(3,6))
    qed
  qed (simp add: f(3))
  show "holds (endpoint ns) (ns_net (ns_crash i ns)) (servers (ns_cluster (ns_crash i ns)))" unfolding * by (rule h)
qed

lemma crash_inv:
  assumes inv: "ns_inv ns" and i: "i < ns_n ns"
  shows "ns_inv (ns_crash i ns)"
proof -
  note f = ns_crash_fields [OF i]
  have "pending_up (up (ns_crash i ns)) (ns_cluster (ns_crash i ns))"
  proof (cases "up ns i")
    case True
    then show ?thesis
      unfolding f(4) using inv i by (auto simp: ns_inv_def pending_up_def ns_crash_def ns_kill_def Let_def split: if_splits)
  next
    case False
    then have "up (ns_crash i ns) = up ns" unfolding f(4) by (auto simp: fun_eq_iff)
    with False inv show ?thesis by (simp add: ns_inv_def pending_up_def f(10,11))
  qed
  moreover have "\<forall>k<ns_n ns. up (ns_crash i ns) k \<longrightarrow> (\<forall>j<ns_n ns. net_ends (ns_net (ns_crash i ns)) (endpoint ns k j))"
    unfolding f(1,4) using inv ns_disconnect_frame(1) [of ns i] by (simp add: ns_inv_def DeleteServer_def same_links_def)
  ultimately show ?thesis using inv crash_peers(2) [OF inv i] by (simp add: ns_inv_def f(2,3,5,7))
qed

lemma sim_crash:
  assumes sim: "ns_sim n ns s" and ok: "cluster_ok n s" and i: "i < n" "up ns i"
  shows "ns_sim n (ns_crash i ns) (crash_restart i s)"
proof -
  have n: "ns_n ns = n" and inv: "ns_inv ns" and s: "servers s = servers (ns_cluster ns)" and sm: "same s (ns_cluster ns)"
    using sim by (auto simp: ns_sim_def same_def)
  have rf: "servers s ! i = peer ns i" "peers (peer ns i) = [0..<n]" "me (peer ns i) = int i"
    using cluster_okD(2) [OF ok i(1)] s i n by (simp_all add: peer_ok_def)
  have "servers (crash_restart i s) = servers (ns_cluster (ns_crash i ns))"
    using crash_peers(1) [OF inv, of i] i n rf s by (simp add: crash_restart_def Let_def ns_saved_now_def)
  moreover have "mains (crash_restart i s) = ns_mains (ns_crash i ns)" "gors (crash_restart i s) = ns_gors (ns_crash i ns)"
    "elections (crash_restart i s) = ns_elections (ns_crash i ns)"
    "map erase (calls (crash_restart i s)) = map erase (ns_calls (ns_crash i ns))"
    using sm i n erase_cut [of "calls s" "ns_calls ns" i]
    by (simp_all add: same_def crash_restart_def ns_crash_def ns_kill_def Let_def)
  ultimately show ?thesis using crash_inv [OF inv, of i] i n ns_crash_fields(3) [of i ns] by (simp add: ns_sim_def same_def)
qed

text \<open>Crashing a server that is down changes nothing.\<close>

lemma sim_crash_down:
  assumes sim: "ns_sim n ns s" and i: "i < n" "\<not> up ns i"
  shows "ns_sim n (ns_crash i ns) s"
proof -
  have n: "ns_n ns = n" and inv: "ns_inv ns" and sm: "same s (ns_cluster ns)" using sim by (auto simp: ns_sim_def)
  have "peer ns i = Make [0..<ns_n ns] (int i) (Copy (crash1_saved (ns_saved_now ns i)))"
    using i by (simp add: peer_down restarted_def ns_saved_now_def)
  then have "servers (ns_cluster (ns_crash i ns)) = servers (ns_cluster ns)"
    using crash_peers(1) [OF inv, of i] i n by (metis list_update_id ns_cluster_fields(6))
  with sm show ?thesis
    using crash_inv [OF inv, of i] i n ns_crash_fields [of i ns] by (simp add: ns_sim_def same_def)
qed

text \<open>The end points of a server that starts are new and lead to the servers they are named for.\<close>

lemma make_ends_connect:
  assumes "gfold (\<lambda>j net. gbind (MakeEnd (names ! j) net) (\<lambda>net. Inr (Connect (names ! j) j net))) js net = Inr net'"
  shows "net_servers net' = net_servers net \<and> server_heap net' = server_heap net \<and>
    (\<forall>e. net_ends net e \<longrightarrow> net_ends net' e \<and> connections net' e = connections net e) \<and>
    (\<forall>j\<in>set js. \<not> net_ends net (names ! j) \<and> net_ends net' (names ! j) \<and> connections net' (names ! j) = Some j)"
  using assms
proof (induction js arbitrary: net)
  case (Cons j js)
  then obtain net1 where net1: "MakeEnd (names ! j) net = Inr net1"
    "gfold (\<lambda>j net. gbind (MakeEnd (names ! j) net) (\<lambda>net. Inr (Connect (names ! j) j net))) js
       (Connect (names ! j) j net1) = Inr net'"
    by (auto simp: gbind_eq_Inr)
  let ?m = "Connect (names ! j) j net1"
  have m: "\<not> net_ends net (names ! j)" "net_servers ?m = net_servers net" "server_heap ?m = server_heap net"
    "net_ends ?m = (net_ends net)(names ! j := True)" "connections ?m = (connections net)(names ! j \<mapsto> j)"
    using net1(1) by (auto simp: MakeEnd_def Connect_def split: if_splits)
  note ih = Cons.IH [OF net1(2)]
  have "net_ends net' e \<and> connections net' e = connections ?m e" if "net_ends net e \<or> e = names ! j" for e
    using ih m(4) that by auto
  moreover have "\<not> net_ends net (names ! k) \<and> net_ends net' (names ! k) \<and> connections net' (names ! k) = Some k"
    if "k \<in> set js" for k
    using ih m(4) that by (metis fun_upd_apply)
  ultimately show ?case using ih m by (metis fun_upd_apply set_ConsD)
qed simp

lemma holds_add:
  assumes h: "holds ends rn rfs" and down: "net_servers rn i = None" and i: "i < length rfs"
    and sv: "net_servers rn1 = net_servers rn" "server_heap rn1 = server_heap rn"
    and ends: "\<And>j k. j < length rfs \<Longrightarrow> k < length rfs \<Longrightarrow> j = i \<or> net_servers rn j \<noteq> None \<Longrightarrow> connections rn1 (ends' j k) = Some k"
  shows "holds ends' (AddServer i (length (server_heap rn1))
    (rn1\<lparr>server_heap := server_heap rn1 @ [AddService (Raft_service (rfs ! i)) MakeServer]\<rparr>)) rfs" (is "holds ends' ?rn rfs")
  unfolding holds_def
proof (intro allI impI)
  have old: "\<exists>a<length (server_heap rn). net_servers rn j = Some a \<and>
      sv_services (server_heap rn ! a) ''Raft'' = Some (Raft_service (rfs ! j))"
    if "j < length rfs" "net_servers rn j \<noteq> None" for j
    using h that by (auto simp: holds_def raft_at_def)
  have ne: "net_servers rn j \<noteq> net_servers rn k" if "j < length rfs" "net_servers rn j \<noteq> None" "k < length rfs" "j \<noteq> k" for j k
    using h that unfolding holds_def by blast
  fix j assume j: "j < length rfs" and up: "net_servers ?rn j \<noteq> None"
  have "raft_at ?rn j (rfs ! j)"
    using old [OF j] up sv down
    by (cases "j = i")
      (auto simp: raft_at_def AddServer_def AddService_def MakeServer_def Raft_service_def MakeService_def nth_append)
  moreover have "connections ?rn (ends' j k) = Some k" if "k < length rfs" for k
    using ends [OF j that] up sv by (auto simp: AddServer_def split: if_splits)
  moreover have "net_servers ?rn j \<noteq> net_servers ?rn k" if "k < length rfs" "j \<noteq> k" for k
    using ne [of j k] old [of j] old [of k] j up sv that by (cases "net_servers rn k") (auto simp: AddServer_def)
  ultimately show "raft_at ?rn j (rfs ! j) \<and> (\<forall>k<length rfs. connections ?rn (ends' j k) = Some k \<and>
      (j \<noteq> k \<longrightarrow> net_servers ?rn j \<noteq> net_servers ?rn k))" by blast
qed

text \<open>Registering a new instance of a server that is down changes nothing either.\<close>

lemma sim_register:
  assumes sim: "ns_sim n ns s" and i: "i < n" "\<not> up ns i" and names: "length names = n"
    and me: "make_ends names n (ns_net ns) = Inr rn" and rf: "rf = restarted ns i"
    and ns': "ns' = ns\<lparr>ns_net := AddServer i (length (server_heap rn))
        (rn\<lparr>server_heap := server_heap rn @ [AddService (Raft_service rf) MakeServer]\<rparr>),
      ns_endnames := (ns_endnames ns)[i := Some names], ns_saved := (ns_saved ns)[i := ps]\<rparr>"
  shows "ns_sim n ns' s"
proof -
  have n: "ns_n ns = n" and inv: "ns_inv ns" and sm: "same s (ns_cluster ns)" using sim by (auto simp: ns_sim_def)
  let ?rfs = "servers (ns_cluster ns)"
  note mc = make_ends_connect [OF me [unfolded make_ends_def]]
  have up: "up ns' = (\<lambda>j. j = i \<or> up ns j)" and n': "ns_n ns' = n"
    using mc n by (auto simp: ns' up_def AddServer_def fun_eq_iff)
  have rfs: "?rfs ! i = rf" using i n by (simp add: peer_down rf)
  have ep: "endpoint ns' = (\<lambda>j k. if j = i then names ! k else endpoint ns j k)"
    using inv i n by (auto simp: ns' endpoint_def fun_eq_iff ns_inv_def)
  have old: "net_ends (ns_net ns) (endpoint ns j k) \<and> connections (ns_net ns) (endpoint ns j k) = Some k"
    if "j < n" "k < n" "up ns j" for j k using inv that n by (auto simp: ns_inv_def holds_def up_def)
  have links: "net_ends rn (endpoint ns' j k) \<and> connections rn (endpoint ns' j k) = Some k"
    if "j < n" "k < n" "j = i \<or> up ns j" for j k
    using old [OF that(1,2)] that i mc by (auto simp: ep)
  have h: "holds (endpoint ns') (ns_net ns') ?rfs"
    using holds_add [of "endpoint ns" "ns_net ns" ?rfs i rn "endpoint ns'"] inv i n mc links rfs
    by (simp add: ns_inv_def up_def) (simp add: ns')
  have sv: "servers (ns_cluster ns') = ?rfs"
  proof (rule peers_held [OF h])
    fix j assume j: "j < ns_n ns'" "\<not> up ns' j"
    then show "restarted ns' j = ?rfs ! j" using up n n' by (simp add: peer_down restarted_def ns')
  qed (simp add: n n')
  have "pending_up (up ns') (ns_cluster ns')"
    using inv up by (auto simp: ns_inv_def pending_up_def ns')
  moreover have "net_ends (ns_net ns') (endpoint ns' j k)" if "j < n" "k < n" "up ns' j" for j k
    using links [of j k] that up by (simp add: ns' AddServer_def)
  ultimately have "ns_inv ns'" using h sv inv n n' by (simp add: ns_inv_def) (simp add: ns')
  then show ?thesis using n' sm sv by (simp add: ns_sim_def same_def ns')
qed

lemma sim_start:
  assumes sim: "ns_sim n (ns_crash i ns) s" and res: "ns_start i names ns = Inr ns'" and ok: "i < ns_n ns" "length names = ns_n ns"
  shows "ns_sim n ns' s"
proof -
  let ?ns = "ns_crash i ns"
  note f = ns_crash_fields [OF ok(1)]
  have n: "ns_n ns = n" using sim f(3) by (simp add: ns_sim_def)
  let ?rf = "Make [0..<ns_n ?ns] (int i) (Copy (ns_saved ?ns ! i))"
  have rf: "?rf = restarted ?ns i" using ok(1) by (simp add: restarted_def f(3,6))
  from res ok n f(3) obtain rn where me: "make_ends names n (ns_net ?ns) = Inr rn"
    and ns': "ns' = ?ns\<lparr>ns_net := AddServer i (length (server_heap rn))
        (rn\<lparr>server_heap := server_heap rn @ [AddService (Raft_service ?rf) MakeServer]\<rparr>),
      ns_endnames := (ns_endnames ?ns)[i := Some names], ns_saved := (ns_saved ?ns)[i := Copy (ns_saved ?ns ! i)]\<rparr>"
    by (auto simp: ns_start_def gbind_eq_Inr new_server_def Let_def)
  show ?thesis by (rule sim_register [OF sim _ _ _ me rf ns']) (use ok n in \<open>simp_all add: f(4)\<close>)
qed

section \<open>The refinement\<close>

lemma Copy_MakePersister [simp]: "Copy MakePersister = MakePersister"
  by (simp add: Copy_def MakePersister_def)

lemma ns_empty_fields: "ns_n (ns_empty n) = n" "up (ns_empty n) i = False" "servers (ns_cluster (ns_empty n)) = servers (init_cluster n)"
  by (auto simp: ns_empty_def up_def MakeNetwork_def ns_cluster_def peer_def raft_object_def restarted_def init_cluster_def)

lemma sim_empty: "ns_sim n (ns_empty n) (init_cluster n)"
proof -
  let ?ns = "ns_empty n :: 'a netsys"
  have "holds (endpoint ?ns) (ns_net ?ns) rfs" for rfs
    by (simp add: holds_def ns_empty_def MakeNetwork_def)
  moreover have "pending_up U (ns_cluster ?ns)" for U
    by (simp add: pending_up_def ns_empty_def)
  moreover have "same (init_cluster n) (ns_cluster ?ns)"
    by (simp add: same_def ns_empty_fields) (simp add: init_cluster_def ns_empty_def)
  moreover have "length (ns_endnames ?ns) = n" "length (ns_mains ?ns) = n" by (simp_all add: ns_empty_def)
  ultimately show ?thesis by (simp add: ns_sim_def ns_inv_def ns_empty_fields)
qed

lemma stable_steps_cluster_steps: "stable_step\<^sup>*\<^sup>* s t \<Longrightarrow> cluster_step\<^sup>*\<^sup>* s t"
  by (rule rtranclp_mono [THEN predicate2D]) (auto simp: stable_step_def cluster_step_def)

lemma sim_stable_exec:
  assumes sim: "ns_sim n ns s" and ok: "cluster_ok n s" and e: "\<not> crashes e ns" and res: "ns_exec e ns = Inr ns'"
  shows "\<exists>s'. stable_step\<^sup>*\<^sup>* s s' \<and> ns_sim n ns' s'"
proof (cases e)
  case (Local ev)
  with sim_local [OF sim, of ev ns'] res
  consider "ns' = ns" | s' where "step ev s = Inr s'" "\<not> is_crash ev" "ns_sim n ns' s'" by auto
  then show ?thesis
  proof cases
    case 2
    then have "stable_step s s'" by (auto simp: stable_step_def)
    with 2 show ?thesis by blast
  qed (use sim in blast)
next
  case (NetCall k ch ops)
  with sim_call [OF sim ok] res show ?thesis by simp
next
  case (Control op)
  with res sim_net [OF sim, of "net_do op (ns_net ns)"] net_do_frame [of "ns_net ns" op] show ?thesis by auto
next
  case (CrashServer i)
  with sim_crash_down [OF sim, of i] e res sim show ?thesis by (cases "i < n") (auto simp: ns_crash_def ns_sim_def)
next
  case (StartOne i names)
  show ?thesis
  proof (cases "i < ns_n ns \<and> length names = ns_n ns")
    case True
    have "i < n" using True sim by (simp add: ns_sim_def)
    then have "ns_sim n ns' s"
      using sim_start [OF sim_crash_down [OF sim]] True StartOne e res by simp
    then show ?thesis by blast
  qed (use StartOne res sim in \<open>auto simp: ns_start_def\<close>)
qed

lemma sim_crash_exec:
  assumes sim: "ns_sim n ns s" and ok: "cluster_ok n s" and e: "crashes e ns" and res: "ns_exec e ns = Inr ns'"
  shows "\<exists>s'. cluster_step\<^sup>*\<^sup>* s s' \<and> ns_sim n ns' s'"
proof -
  have crash: "cluster_step s (crash_restart i s) \<and> ns_sim n (ns_crash i ns) (crash_restart i s)" if "i < n" "up ns i" for i
  proof -
    have "step (Crash i) s = Inr (crash_restart i s)" using that cluster_okD(1) [OF ok] by simp
    then have "cluster_step s (crash_restart i s)" unfolding cluster_step_def by blast
    with sim_crash [OF sim ok that] show ?thesis by blast
  qed
  have n: "ns_n ns = n" using sim by (simp add: ns_sim_def)
  show ?thesis
  proof (cases e)
    case (CrashServer i)
    with e res n crash [of i] sim show ?thesis by (cases "i < n") (auto simp: ns_crash_def)
  next
    case (StartOne i names)
    show ?thesis
    proof (cases "i < n \<and> length names = n")
      case True
      then have "ns_sim n ns' (crash_restart i s)"
        using sim_start [of n i ns "crash_restart i s" names ns'] crash [of i] StartOne e res n by simp
      with crash [of i] True StartOne e show ?thesis by auto
    qed (use StartOne res sim n in \<open>auto simp: ns_start_def\<close>)
  qed (use e in simp_all)
qed

text \<open>The networked system refines the cluster of \<open>Raft_System\<close>; without crashes it refines the runs
  without crashes, on which the guarantees about logs rest.\<close>

interpretation networked: simulation "ns_starts n" ns_step "starts n" cluster_step "ns_sim n" for n
proof unfold_locales
  fix ns :: "'a netsys"
  assume "ns_starts n ns"
  then show "\<exists>s. starts n s \<and> ns_sim n ns s" using sim_empty by (auto simp: ns_starts_def starts_def)
next
  fix ns ns' :: "'a netsys" and s
  assume sim: "ns_sim n ns s" and r: "reachable n s" and st: "ns_step ns ns'"
  then obtain e where e: "ns_exec e ns = Inr ns'" by (auto simp: ns_step_def)
  have ok: "cluster_ok n s" by (rule wf_cluster.reach_inv [OF r])
  show "\<exists>s'. cluster_step\<^sup>*\<^sup>* s s' \<and> ns_sim n ns' s'"
  proof (cases "crashes e ns")
    case True
    then show ?thesis by (rule sim_crash_exec [OF sim ok _ e])
  next
    case False
    with sim_stable_exec [OF sim ok _ e] show ?thesis using stable_steps_cluster_steps by blast
  qed
qed

interpretation networked_stable: simulation "ns_starts n" ns_stable_step "starts n" stable_step "ns_sim n" for n
proof unfold_locales
  fix ns :: "'a netsys"
  assume "ns_starts n ns"
  then show "\<exists>s. starts n s \<and> ns_sim n ns s" using sim_empty by (auto simp: ns_starts_def starts_def)
next
  fix ns ns' :: "'a netsys" and s
  assume sim: "ns_sim n ns s" and r: "stable_reachable n s" and st: "ns_stable_step ns ns'"
  have "cluster_ok n s" by (rule wf_cluster.reach_inv [OF stable_reachable_reachable [OF r]])
  with sim st show "\<exists>s'. stable_step\<^sup>*\<^sup>* s s' \<and> ns_sim n ns' s'"
    by (auto simp: ns_stable_step_def intro: sim_stable_exec)
qed

text \<open>What a peer is in either view.\<close>

abbreviation ns_reachable :: "nat \<Rightarrow> 'c netsys \<Rightarrow> bool" where
  "ns_reachable n \<equiv> reach (ns_starts n) ns_step"

abbreviation ns_stable_reachable :: "nat \<Rightarrow> 'c netsys \<Rightarrow> bool" where
  "ns_stable_reachable n \<equiv> reach (ns_starts n) ns_stable_step"

lemma sim_peer: "ns_sim n ns s \<Longrightarrow> i < n \<Longrightarrow> servers s ! i = peer ns i"
  by (simp add: ns_sim_def same_def)

lemma networked_peers:
  assumes "ns_reachable n ns"
  shows "\<exists>s. reachable n s \<and> (\<forall>i<n. peer ns i = servers s ! i)"
  using networked.refines [OF assms] sim_peer by metis

lemma networked_stable_peers:
  assumes "ns_stable_reachable n ns"
  shows "\<exists>s. stable_reachable n s \<and> (\<forall>i<n. peer ns i = servers s ! i)"
  using networked_stable.refines [OF assms] sim_peer by metis

fun ns_run :: "'c net_event list \<Rightarrow> 'c netsys \<Rightarrow> 'c netsys go" where
  "ns_run [] ns = Inr ns"
| "ns_run (e # es) ns = gbind (ns_exec e ns) (ns_run es)"

lemma ns_run_reachable: "ns_run es ns = Inr ns' \<Longrightarrow> ns_reachable n ns \<Longrightarrow> ns_reachable n ns'"
  by (induction es arbitrary: ns) (auto simp: gbind_eq_Inr, metis ns_step_def reach_step)

lemma ns_empty_reachable: "ns_reachable n (ns_empty n)" "ns_stable_reachable n (ns_empty n)"
  by (auto simp: ns_starts_def intro: reach_init)

text \<open>A call never fails to return, and over a reliable, enabled link to a server that is up it comes
  back with a reply.\<close>

lemma networked_call_returns:
  assumes r: "ns_reachable n ns" and k: "to_make k ns"
  shows "\<exists>ns'. ns_call k ch ops ns = Inr ns' \<and>
    (reliable (ns_net ns) \<and> net_enabled (ns_net ns) (endpoint ns (c_from (ns_calls ns ! k)) (c_to (ns_calls ns ! k))) = Some True \<and>
     up ns (c_to (ns_calls ns ! k)) \<and> handler_in_time ch \<and> ops = [] \<longrightarrow> c_rep (ns_calls ns' ! k) \<noteq> None)"
proof -
  let ?c = "ns_calls ns ! k"
  obtain s where s: "reachable n s" and sim: "ns_sim n ns s" using networked.refines [OF r] by blast
  have ok: "cluster_ok n s" by (rule wf_cluster.reach_inv [OF s])
  from call_outcome [OF sim ok k, of ch ops] obtain rn rep where
    "send_request ch (fold net_do ops) (endpoint ns) (peer ns (c_from ?c)) (int (c_to ?c)) (c_req ?c) (ns_net ns) = Inr (rn, rep)"
    "reliable (ns_net ns) \<and> net_enabled (ns_net ns) (endpoint ns (c_from ?c) (c_to ?c)) = Some True \<and> up ns (c_to ?c) \<and>
      handler_in_time ch \<and> ops = [] \<longrightarrow> rep \<noteq> None" .
  with k show ?thesis by (cases rep) (auto simp: ns_call_def to_make_def Let_def)
qed

end
