(* ===== verification/Raft_Harness.thy ===== *)
theory Raft_Harness
  imports Raft_Networked
begin

text \<open>
  The test harness of \<open>Raft_Config\<close> at work on the networked system of \<open>Raft_Networked\<close>. The harness has
  pointers to the peers and to the network; its state shows a networked system when what it points to is
  what the system has. Every operation of the harness is a sequence of events of the networked
  system, so what holds in all states of that system holds of what the checks of the harness read.
\<close>

section \<open>What the harness sees\<close>

text \<open>Two networks of the same shape: they differ in the objects behind the servers only.\<close>

definition net_shape :: "('e, 'n, 's, 'b) Network \<Rightarrow> ('e, 'n, 't, 'd) Network \<Rightarrow> bool" where
  "net_shape rn net \<longleftrightarrow> reliable rn = reliable net \<and> longDelays rn = longDelays net \<and> longReordering rn = longReordering net \<and>
     net_ends rn = net_ends net \<and> net_enabled rn = net_enabled net \<and> net_servers rn = net_servers net \<and>
     connections rn = connections net \<and> length (server_heap rn) = length (server_heap net)"

definition running :: "'c netsys \<Rightarrow> 'c Raft option list" where
  "running ns = map (\<lambda>i. if up ns i then Some (peer ns i) else None) [0..<ns_n ns]"

definition saved_shown :: "int netsys \<Rightarrow> nat \<Rightarrow> int gob Persister option \<Rightarrow> bool" where
  "saved_shown ns i ops = (case ops of
     None \<Rightarrow> \<not> up ns i \<and> ns_saved ns ! i = MakePersister
   | Some ps \<Rightarrow> up ns i \<or> ns_saved ns ! i = ps)"

definition shows_config :: "int netsys \<Rightarrow> config \<Rightarrow> bool" where
  "shows_config ns cfg \<longleftrightarrow> net_shape (ns_net ns) (cf_net cfg) \<and> cf_n cfg = ns_n ns \<and> cf_endnames cfg = ns_endnames ns \<and>
     cf_rafts cfg = running ns \<and> length (cf_saved cfg) = ns_n ns \<and> (\<forall>i<ns_n ns. saved_shown ns i (cf_saved cfg ! i))"

section \<open>The operations of the harness\<close>

datatype harness_op =
    HConnect nat
  | HDisconnect nat
  | HCrash nat
  | HStart nat "string list"
  | HUnreliable bool
  | HLongReordering bool

fun harness_do :: "harness_op \<Rightarrow> config \<Rightarrow> config go" where
  "harness_do (HConnect i) cfg = connect i cfg"
| "harness_do (HDisconnect i) cfg = Inr (disconnect i cfg)"
| "harness_do (HCrash i) cfg = Inr (crash1 i cfg)"
| "harness_do (HStart i names) cfg = start1 names i cfg"
| "harness_do (HUnreliable b) cfg = Inr (setunreliable b cfg)"
| "harness_do (HLongReordering b) cfg = Inr (setlongreordering b cfg)"

fun op_ok :: "nat \<Rightarrow> harness_op \<Rightarrow> bool" where
  "op_ok n (HConnect i) = (i < n)"
| "op_ok n (HDisconnect i) = (i < n)"
| "op_ok n (HCrash i) = (i < n)"
| "op_ok n (HStart i names) = (i < n \<and> length names = n)"
| "op_ok n _ = True"

text \<open>The same operation as events of the networked system.\<close>

definition enables :: "bool \<Rightarrow> (nat \<Rightarrow> bool) \<Rightarrow> (nat \<Rightarrow> string) \<Rightarrow> nat \<Rightarrow> net_op list" where
  "enables b P e n = [SetEnable (e j) b. j \<leftarrow> [0..<n], P j]"

definition connect_ops :: "nat \<Rightarrow> config \<Rightarrow> net_op list" where
  "connect_ops i cfg =
     (let connected = (cf_connected cfg)[i := True] in
      enables True ((!) connected) (endname cfg i) (cf_n cfg) @
      enables True ((!) connected) (\<lambda>j. endname cfg j i) (cf_n cfg))"

definition disconnect_ops :: "nat \<Rightarrow> config \<Rightarrow> net_op list" where
  "disconnect_ops i cfg =
     enables False (\<lambda>j. cf_endnames cfg ! i \<noteq> None) (endname cfg i) (cf_n cfg) @
     enables False (\<lambda>j. cf_endnames cfg ! j \<noteq> None) (\<lambda>j. endname cfg j i) (cf_n cfg)"

fun op_events :: "harness_op \<Rightarrow> config \<Rightarrow> int net_event list" where
  "op_events (HConnect i) cfg = map Control (connect_ops i cfg)"
| "op_events (HDisconnect i) cfg = map Control (disconnect_ops i cfg)"
| "op_events (HCrash i) cfg = [CrashServer i]"
| "op_events (HStart i names) cfg = [StartOne i names]"
| "op_events (HUnreliable b) cfg = [Control (SetReliable (\<not> b))]"
| "op_events (HLongReordering b) cfg = [Control (SetLongReordering b)]"

text \<open>The peers run on their own: every goroutine, client call and message.\<close>

fun peer_event :: "'c net_event \<Rightarrow> bool" where
  "peer_event (Local e) = True"
| "peer_event (NetCall k ch ops) = (ops = [])"
| "peer_event _ = False"

text \<open>A networked system under the control of the harness.\<close>

inductive driven :: "nat \<Rightarrow> int netsys \<Rightarrow> config \<Rightarrow> bool" for n where
  driven_start: "driven n (ns_empty n) (empty_config n)"
| driven_peer: "driven n ns cfg \<Longrightarrow> peer_event e \<Longrightarrow> ns_exec e ns = Inr ns' \<Longrightarrow>
    driven n ns' (cfg\<lparr>cf_rafts := running ns'\<rparr>)"
| driven_apply: "driven n ns cfg \<Longrightarrow> apply_reader i m cfg = Inr cfg' \<Longrightarrow> driven n ns cfg'"
| driven_op: "driven n ns cfg \<Longrightarrow> op_ok n op \<Longrightarrow> harness_do op cfg = Inr cfg' \<Longrightarrow>
    ns_run (op_events op cfg) ns = Inr ns' \<Longrightarrow> driven n ns' cfg'"

section \<open>Networks of the same shape\<close>

lemma shape_ops:
  assumes "net_shape rn net"
  shows "net_shape (Enable e b rn) (Enable e b net)" "net_shape (Reliable b rn) (Reliable b net)"
    "net_shape (LongReordering b rn) (LongReordering b net)" "net_shape (DeleteServer i rn) (DeleteServer i net)"
    "net_shape (Connect e i rn) (Connect e i net)" "net_shape (AddServer i a rn) (AddServer i a net)"
  using assms by (simp_all add: net_shape_def Enable_def Reliable_def LongReordering_def DeleteServer_def Connect_def AddServer_def)

lemma shape_fold_Enable:
  "net_shape rn net \<Longrightarrow> net_shape (fold (\<lambda>j rn. if P j then Enable (e j) b rn else rn) js rn)
     (fold (\<lambda>j net. if P j then Enable (e j) b net else net) js net)"
  by (induction js arbitrary: rn net) (simp_all add: shape_ops)

lemma fold_enables:
  "fold net_do (enables b P e n) rn = fold (\<lambda>j rn. if P j then Enable (e j) b rn else rn) [0..<n] rn"
proof -
  have "fold net_do (concat (map (\<lambda>j. if P j then [SetEnable (e j) b] else []) js)) rn =
      fold (\<lambda>j rn. if P j then Enable (e j) b rn else rn) js rn" for js
    by (induction js arbitrary: rn) simp_all
  then show ?thesis by (simp add: enables_def)
qed

lemma shape_make_ends:
  assumes "gfold (\<lambda>j net. gbind (MakeEnd (names ! j) net) (\<lambda>net. Inr (Connect (names ! j) j net))) js net = Inr net'"
    and "net_shape rn net"
  shows "\<exists>rn'. gfold (\<lambda>j net. gbind (MakeEnd (names ! j) net) (\<lambda>net. Inr (Connect (names ! j) j net))) js rn = Inr rn' \<and>
    net_shape rn' net'"
  using assms
proof (induction js arbitrary: rn net)
  case (Cons j js)
  from Cons.prems(1) obtain net1 where 1: "MakeEnd (names ! j) net = Inr net1"
    "gfold (\<lambda>j net. gbind (MakeEnd (names ! j) net) (\<lambda>net. Inr (Connect (names ! j) j net))) js (Connect (names ! j) j net1) = Inr net'"
    by (auto simp: gbind_eq_Inr)
  obtain rn1 where rn1: "MakeEnd (names ! j) rn = Inr rn1" "net_shape rn1 net1"
    using 1(1) Cons.prems(2) by (auto simp: MakeEnd_def net_shape_def split: if_splits)
  from Cons.IH [OF 1(2) shape_ops(5) [OF rn1(2)]] rn1(1) show ?case by simp
qed simp

lemma ns_run_Control: "ns_run (map Control ops) ns = Inr (ns\<lparr>ns_net := fold net_do ops (ns_net ns)\<rparr>)"
  by (induction ops arbitrary: ns) simp_all

section \<open>Every operation of the harness is a run of the networked system\<close>

lemma shows_endname: "shows_config ns cfg \<Longrightarrow> endname cfg = endpoint ns"
  by (simp add: shows_config_def endname_def endpoint_def fun_eq_iff)

lemma running_nth: "i < ns_n ns \<Longrightarrow> running ns ! i = (if up ns i then Some (peer ns i) else None)"
  by (simp add: running_def)

lemma shows_net:
  assumes sh: "shows_config ns cfg" and "net_shape (fold net_do ops (ns_net ns)) (cf_net cfg')"
    and "cf_n cfg' = cf_n cfg" "cf_endnames cfg' = cf_endnames cfg" "cf_rafts cfg' = cf_rafts cfg" "cf_saved cfg' = cf_saved cfg"
  shows "shows_config (ns\<lparr>ns_net := fold net_do ops (ns_net ns)\<rparr>) cfg'"
proof -
  let ?ns = "ns\<lparr>ns_net := fold net_do ops (ns_net ns)\<rparr>"
  have "up ?ns = up ns" "peer ?ns = peer ns"
    using net_dos_frame [of "ns_net ns" ops]
    by (auto simp: up_def same_links_def fun_eq_iff peer_def raft_object_def restarted_def split: option.split)
  moreover from this have "saved_shown ?ns = saved_shown ns"
    by (simp add: saved_shown_def fun_eq_iff split: option.split)
  ultimately show ?thesis using assms by (simp add: shows_config_def running_def)
qed

lemma go_endname_eq: "go_endname cfg i j = Inr e \<Longrightarrow> e = endname cfg i j"
  by (auto simp: go_endname_def endname_def go_idx_def split: option.splits if_splits)

lemma gfold_Enable:
  assumes "gfold (\<lambda>j net. if P j then gbind (g j) (\<lambda>e. Inr (Enable e b net)) else Inr net) js net = Inr net'"
    and "\<And>j e. g j = Inr e \<Longrightarrow> e = f j"
  shows "net' = fold (\<lambda>j net. if P j then Enable (f j) b net else net) js net"
  using assms(1)
proof (induction js arbitrary: net)
  case (Cons j js)
  then show ?case using assms(2) [of j] by (auto simp: gbind_eq_Inr split: if_splits)
qed simp

lemma shows_connect:
  assumes sh: "shows_config ns cfg" and res: "connect i cfg = Inr cfg'"
  shows "shows_config (ns\<lparr>ns_net := fold net_do (connect_ops i cfg) (ns_net ns)\<rparr>) cfg'"
proof (rule shows_net [OF sh])
  let ?c = "(cf_connected cfg)[i := True]"
  from res obtain net1 net2 where 1: "gfold (\<lambda>j net. if ?c ! j then gbind (go_endname cfg i j) (\<lambda>e. Inr (Enable e True net)) else Inr net)
      [0..<cf_n cfg] (cf_net cfg) = Inr net1"
    and 2: "gfold (\<lambda>j net. if ?c ! j then gbind (go_endname cfg j i) (\<lambda>e. Inr (Enable e True net)) else Inr net)
      [0..<cf_n cfg] net1 = Inr net2"
    and cfg': "cfg' = cfg\<lparr>cf_connected := ?c, cf_net := net2\<rparr>"
    by (auto simp: connect_def Let_def gbind_eq_Inr)
  have "net_shape (ns_net ns) (cf_net cfg)" using sh by (simp add: shows_config_def)
  moreover have "net1 = fold (\<lambda>j net. if ?c ! j then Enable (endname cfg i j) True net else net) [0..<cf_n cfg] (cf_net cfg)"
    by (rule gfold_Enable [OF 1]) (rule go_endname_eq)
  moreover have "net2 = fold (\<lambda>j net. if ?c ! j then Enable (endname cfg j i) True net else net) [0..<cf_n cfg] net1"
    by (rule gfold_Enable [OF 2]) (rule go_endname_eq)
  ultimately have "net_shape (fold net_do (connect_ops i cfg) (ns_net ns)) net2"
    unfolding connect_ops_def Let_def fold_append o_apply fold_enables by (simp add: shape_fold_Enable)
  then show "net_shape (fold net_do (connect_ops i cfg) (ns_net ns)) (cf_net cfg')" by (simp add: cfg')
  show "cf_n cfg' = cf_n cfg" "cf_endnames cfg' = cf_endnames cfg" "cf_rafts cfg' = cf_rafts cfg" "cf_saved cfg' = cf_saved cfg"
    by (simp_all add: cfg')
qed

lemma shows_disconnect_shape:
  "net_shape rn (cf_net cfg) \<Longrightarrow> net_shape (fold net_do (disconnect_ops i cfg) rn) (cf_net (disconnect i cfg))"
  unfolding disconnect_ops_def disconnect_def Let_def fold_append o_apply fold_enables by (simp add: shape_fold_Enable)

lemma shows_disconnect:
  assumes "shows_config ns cfg"
  shows "shows_config (ns\<lparr>ns_net := fold net_do (disconnect_ops i cfg) (ns_net ns)\<rparr>) (disconnect i cfg)"
  by (rule shows_net [OF assms shows_disconnect_shape])
    (use assms in \<open>simp_all add: shows_config_def disconnect_def Let_def\<close>)

lemma ns_disconnect_ops:
  assumes "shows_config ns cfg"
  shows "ns_disconnect i ns = fold net_do (disconnect_ops i cfg) (ns_net ns)"
proof -
  have "cf_endnames cfg = ns_endnames ns" "cf_n cfg = ns_n ns" using assms by (simp_all add: shows_config_def)
  then show ?thesis
    unfolding ns_disconnect_def disconnect_ops_def fold_append o_apply fold_enables shows_endname [OF assms] by simp
qed

lemma crash1_fields:
  "cf_net (crash1 i cfg) = DeleteServer i (cf_net (disconnect i cfg))" "cf_n (crash1 i cfg) = cf_n cfg"
  "cf_endnames (crash1 i cfg) = cf_endnames cfg" "cf_rafts (crash1 i cfg) = (cf_rafts cfg)[i := None]"
  "cf_saved (crash1 i cfg) = (cf_saved cfg)[i := map_option crash1_saved (saved_now cfg i)]"
  by (simp_all add: crash1_def disconnect_def Let_def saved_now_def crash1_saved_def [abs_def] option.map_comp o_def split: option.split)

lemma shows_crash:
  assumes sh: "shows_config ns cfg" and inv: "ns_inv ns" and i: "i < ns_n ns"
  shows "shows_config (ns_crash i ns) (crash1 i cfg)"
proof -
  note f = ns_crash_fields [OF i]
  have "net_shape (ns_net (ns_crash i ns)) (cf_net (crash1 i cfg))"
    using sh shows_disconnect_shape [of "ns_net ns" cfg i]
    by (simp add: f(1) crash1_fields ns_disconnect_ops [OF sh] shape_ops shows_config_def)
  moreover have "peer (ns_crash i ns) j = peer ns j" if "j < ns_n ns" "j \<noteq> i" for j
    using crash_peers(1) [OF inv i] that f(3) by (metis ns_cluster_fields(6) nth_list_update_neq)
  then have "running (ns_crash i ns) = (running ns)[i := None]"
    by (intro nth_equalityI, simp add: running_def f(3)) (simp add: running_def f(3,4), use i in \<open>auto simp: nth_list_update\<close>)
  moreover have "saved_shown (ns_crash i ns) j (cf_saved (crash1 i cfg) ! j)" if j: "j < ns_n ns" for j
  proof (cases "j = i")
    case True
    have "saved_shown ns i (cf_saved cfg ! i)" "cf_rafts cfg ! i = running ns ! i" "length (cf_saved cfg) = ns_n ns"
      using sh i by (auto simp: shows_config_def)
    then show ?thesis using True i
      by (auto simp: saved_shown_def crash1_fields f(4,6) saved_now_def running_nth ns_saved_now_def split: option.splits)
  next
    case False
    have "saved_shown ns j (cf_saved cfg ! j)" using sh j by (simp add: shows_config_def)
    then show ?thesis using False by (simp add: saved_shown_def crash1_fields f(4,6) split: option.splits)
  qed
  ultimately show ?thesis using sh by (simp add: shows_config_def f(3,5) crash1_fields)
qed

text \<open>The peers after a start are those before it; \<open>sim_start\<close> says so for every cluster that the system shows.\<close>

lemma start_peers:
  assumes inv: "ns_inv ns" and ok: "i < ns_n ns" "length names = ns_n ns" and res: "ns_start i names ns = Inr ns'"
  shows "ns_inv ns'" "\<And>j. j < ns_n ns \<Longrightarrow> peer ns' j = peer (ns_crash i ns) j"
proof -
  note f = ns_crash_fields [OF ok(1)]
  have sim: "ns_sim (ns_n ns) (ns_crash i ns) (ns_cluster (ns_crash i ns))"
    using crash_inv [OF inv ok(1)] by (simp add: ns_sim_def same_def f(3))
  have sim': "ns_sim (ns_n ns) ns' (ns_cluster (ns_crash i ns))" by (rule sim_start [OF sim res ok])
  then show "ns_inv ns'" by (simp add: ns_sim_def)
  show "peer ns' j = peer (ns_crash i ns) j" if "j < ns_n ns" for j
    using sim_peer [OF sim' that] sim_peer [OF sim that] by simp
qed

lemma start1_eq:
  assumes "start1 names i cfg = Inr cfg'"
  obtains net ps where "make_ends names (cf_n cfg) (cf_net (crash1 i cfg)) = Inr net"
    "ps = (case cf_saved (crash1 i cfg) ! i of Some ps \<Rightarrow> Copy ps | None \<Rightarrow> MakePersister)"
    "cfg' = (crash1 i cfg)\<lparr>cf_endnames := (cf_endnames cfg)[i := Some names],
        cf_saved := (cf_saved (crash1 i cfg))[i := Some ps],
        cf_rafts := (cf_rafts (crash1 i cfg))[i := Some (Make [0..<cf_n cfg] (int i) ps)],
        cf_net := AddServer i (length (server_heap net)) (net\<lparr>server_heap := server_heap net @
          [AddService (MakeService ''Raft'' () raft_methods) MakeServer]\<rparr>)\<rparr>"
  using assms by (auto simp: start1_def Let_def gbind_eq_Inr new_server_def crash1_fields(2,3))

text \<open>Registering a server on both sides, after both have crashed it.\<close>

lemma shows_register:
  assumes sc: "shows_config ns cfg" and i: "i < ns_n ns" and sh: "net_shape (ns_net ns') (cf_net cfg')"
    and up: "\<And>j. up ns' j = (j = i \<or> up ns j)" and n: "ns_n ns' = ns_n ns" "cf_n cfg' = cf_n cfg"
    and names: "ns_endnames ns' = (ns_endnames ns)[i := Some names]" "cf_endnames cfg' = (cf_endnames cfg)[i := Some names]"
    and peers: "\<And>j. j < ns_n ns \<Longrightarrow> peer ns' j = peer ns j" and rafts: "cf_rafts cfg' = (cf_rafts cfg)[i := Some (peer ns i)]"
    and saved: "ns_saved ns' = (ns_saved ns)[i := ps]" "cf_saved cfg' = (cf_saved cfg)[i := Some ps']"
  shows "shows_config ns' cfg'"
proof -
  have c: "cf_n cfg = ns_n ns" "cf_rafts cfg = running ns" "length (cf_saved cfg) = ns_n ns" "cf_endnames cfg = ns_endnames ns"
    using sc by (simp_all add: shows_config_def)
  have "running ns' = cf_rafts cfg'"
  proof (rule nth_equalityI)
    fix j assume "j < length (running ns')"
    then have "j < ns_n ns" using n by (simp add: running_def)
    then show "running ns' ! j = cf_rafts cfg' ! j"
      using n up peers i by (cases "j = i") (simp_all add: running_nth rafts c, simp add: running_def)
  qed (simp add: running_def n rafts c)
  moreover have "saved_shown ns' j (cf_saved cfg' ! j)" if j: "j < ns_n ns" for j
  proof (cases "j = i")
    case True
    then show ?thesis using j c up by (simp add: saved_shown_def saved)
  next
    case False
    have "saved_shown ns j (cf_saved cfg ! j)" using sc j by (simp add: shows_config_def)
    then show ?thesis using False up by (auto simp: saved_shown_def saved split: option.splits)
  qed
  ultimately show ?thesis using sh n names c saved by (simp add: shows_config_def)
qed

lemma shows_start:
  assumes sh: "shows_config ns cfg" and inv: "ns_inv ns" and ok: "i < ns_n ns" "length names = ns_n ns"
    and res: "start1 names i cfg = Inr cfg'"
  shows "\<exists>ns'. ns_start i names ns = Inr ns' \<and> shows_config ns' cfg'"
proof -
  let ?ns = "ns_crash i ns" and ?cfg = "crash1 i cfg"
  note f = ns_crash_fields [OF ok(1)]
  have sc: "shows_config ?ns ?cfg" by (rule shows_crash [OF sh inv ok(1)])
  have n: "cf_n cfg = ns_n ns" using sh by (simp add: shows_config_def)
  from start1_eq [OF res] obtain net ps where me: "make_ends names (ns_n ns) (cf_net ?cfg) = Inr net"
    and ps: "ps = (case cf_saved ?cfg ! i of Some ps \<Rightarrow> Copy ps | None \<Rightarrow> MakePersister)"
    and cfg': "cfg' = ?cfg\<lparr>cf_endnames := (cf_endnames cfg)[i := Some names], cf_saved := (cf_saved ?cfg)[i := Some ps],
        cf_rafts := (cf_rafts ?cfg)[i := Some (Make [0..<ns_n ns] (int i) ps)],
        cf_net := AddServer i (length (server_heap net)) (net\<lparr>server_heap := server_heap net @
          [AddService (MakeService ''Raft'' () raft_methods) MakeServer]\<rparr>)\<rparr>"
    unfolding n by blast
  have "saved_shown ?ns i (cf_saved ?cfg ! i)" using sc ok(1) by (simp add: shows_config_def f(3))
  then have ps': "ps = Copy (ns_saved ?ns ! i)" by (auto simp: saved_shown_def f(4) ps split: option.splits)
  have "net_shape (ns_net ?ns) (cf_net ?cfg)" using sc by (simp add: shows_config_def)
  from shape_make_ends [OF me [unfolded make_ends_def] this] obtain rn
    where rn: "make_ends names (ns_n ns) (ns_net ?ns) = Inr rn" "net_shape rn net" by (auto simp: make_ends_def)
  define ns' where "ns' = ?ns\<lparr>ns_net := AddServer i (length (server_heap rn)) (rn\<lparr>server_heap := server_heap rn @
      [AddService (Raft_service (Make [0..<ns_n ns] (int i) ps)) MakeServer]\<rparr>),
    ns_endnames := (ns_endnames ?ns)[i := Some names], ns_saved := (ns_saved ?ns)[i := ps]\<rparr>"
  have st: "ns_start i names ns = Inr ns'"
    using ok rn by (simp add: ns_start_def Let_def f(3) new_server_def ns'_def ps')
  have rfi: "peer ?ns i = Make [0..<ns_n ns] (int i) ps"
    using ok(1) by (simp add: peer_down f(4) restarted_def f(3,6) ps')
  have srv: "net_servers rn = net_servers (ns_net ?ns)"
    using make_ends_connect [OF rn(1) [unfolded make_ends_def]] by simp
  have "shows_config ns' cfg'"
  proof (rule shows_register [OF sc])
    show "net_shape (ns_net ns') (cf_net cfg')" using rn(2) by (simp add: ns'_def cfg' net_shape_def AddServer_def)
    show "up ns' j = (j = i \<or> up ?ns j)" for j using srv by (auto simp: ns'_def up_def AddServer_def)
    show "peer ns' j = peer ?ns j" if "j < ns_n ?ns" for j using start_peers(2) [OF inv ok st] that f(3) by simp
    show "ns_endnames ns' = (ns_endnames ?ns)[i := Some names]" by (simp add: ns'_def)
    show "ns_saved ns' = (ns_saved ?ns)[i := ps]" by (simp add: ns'_def)
  qed (use ok rfi in \<open>simp_all add: f(3) ns'_def cfg' crash1_fields\<close>)
  with st show ?thesis by blast
qed

section \<open>Every step of the peers is seen\<close>

lemma ProcessReq_shape:
  assumes "ProcessReq ch id req rn = Inr (rn', rep)"
  shows "net_shape rn' rn"
proof -
  obtain en sn sv rel lr where i: "ReadEndnameInfo (req_endname req) rn = (en, sn, sv, rel, lr)"
    by (cases "ReadEndnameInfo (req_endname req) rn")
  have refl: "net_shape rn rn" by (simp add: net_shape_def)
  show ?thesis
  proof (cases "en \<and> sn \<noteq> None \<and> sv \<noteq> None \<and> (rel \<or> \<not> drop_request ch)")
    case True
    then have "\<exists>svr. rn' = rn\<lparr>server_heap := (server_heap rn)[the sv := svr]\<rparr>"
      using assms i by (auto simp: ProcessReq_def gbind_eq_Inr Let_def)
    then show ?thesis by (auto simp: net_shape_def)
  next
    case False
    then have "rn' = rn" using assms i by (cases en; cases sn; cases sv) (auto simp: ProcessReq_def)
    with refl show ?thesis by simp
  qed
qed

lemma Call_shape: "Call ch id e m a rn = Inr (rn', r) \<Longrightarrow> net_shape rn' rn"
  by (auto simp: Call_def gbind_eq_Inr dest: ProcessReq_shape)

lemma send_request_shape:
  assumes "send_request ch id ends rf j req rn = Inr (rn', r)"
  shows "net_shape rn' rn"
  using assms
  by (cases req) (auto simp: send_request_def sendRequestVote_def sendAppendEntries_def peer_call_def gbind_eq_Inr intro: Call_shape)

lemma shows_stepped:
  assumes "shows_config ns cfg" and "net_shape (ns_net ns') (ns_net ns)" and "ns_saved ns' = ns_saved ns" "ns_endnames ns' = ns_endnames ns"
  shows "shows_config ns' (cfg\<lparr>cf_rafts := running ns'\<rparr>)"
proof -
  have "up ns' = up ns" using assms(2) by (simp add: up_def net_shape_def fun_eq_iff)
  then have "saved_shown ns' = saved_shown ns" using assms(3) by (simp add: saved_shown_def fun_eq_iff split: option.split)
  then show ?thesis using assms by (simp add: shows_config_def) (simp add: net_shape_def)
qed

lemma shows_peer_event:
  assumes sh: "shows_config ns cfg" and e: "peer_event e" and res: "ns_exec e ns = Inr ns'"
  shows "shows_config ns' (cfg\<lparr>cf_rafts := running ns'\<rparr>)"
proof (rule shows_stepped [OF sh])
  have shape: "net_shape (set_raft i rf rn) rn" for i rf and rn :: "(string, int) raft_net"
    by (simp add: set_raft_def net_shape_def Let_def split: option.split)
  have refl: "net_shape (ns_net ns) (ns_net ns)" by (simp add: net_shape_def)
  have "net_shape (ns_net ns') (ns_net ns) \<and> ns_saved ns' = ns_saved ns \<and> ns_endnames ns' = ns_endnames ns"
  proof (cases e)
    case (Local ev)
    with res shape refl show ?thesis by (auto simp: ns_local_def gbind_eq_Inr split: option.splits if_splits)
  next
    case (NetCall k ch ops)
    with e res refl show ?thesis
      by (auto simp: ns_call_def Let_def gbind_eq_Inr intro: send_request_shape split: if_splits)
  qed (use e in simp_all)
  then show "net_shape (ns_net ns') (ns_net ns)" "ns_saved ns' = ns_saved ns" "ns_endnames ns' = ns_endnames ns" by simp_all
qed

lemma shows_apply: "shows_config ns cfg \<Longrightarrow> apply_reader i m cfg = Inr cfg' \<Longrightarrow> shows_config ns cfg'"
  by (auto simp: apply_reader_def Let_def shows_config_def split: if_splits option.splits)

section \<open>Systems under the control of the harness\<close>

lemma reachable_inv: "ns_reachable n ns \<Longrightarrow> ns_inv ns \<and> ns_n ns = n"
  using networked.refines [of n ns] by (auto simp: ns_sim_def)

lemma harness_op_run:
  assumes r: "ns_reachable n ns" and sh: "shows_config ns cfg" and ok: "op_ok n op" and res: "harness_do op cfg = Inr cfg'"
  shows "\<exists>ns'. ns_run (op_events op cfg) ns = Inr ns' \<and> shows_config ns' cfg'"
proof -
  have inv: "ns_inv ns" "ns_n ns = n" using reachable_inv [OF r] by simp_all
  have shape: "net_shape (ns_net ns) (cf_net cfg)" using sh by (simp add: shows_config_def)
  show ?thesis
  proof (cases op)
    case (HStart i names)
    then have "start1 names i cfg = Inr cfg'" "i < ns_n ns" "length names = ns_n ns" using ok res inv(2) by simp_all
    from shows_start [OF sh inv(1) this(2,3,1)] obtain ns' where "ns_start i names ns = Inr ns'" "shows_config ns' cfg'" by blast
    with HStart show ?thesis by simp
  next
    case (HUnreliable b)
    with shows_net [OF sh, of "[SetReliable (\<not> b)]" cfg'] shape res show ?thesis by (auto simp: setunreliable_def shape_ops)
  next
    case (HLongReordering b)
    with shows_net [OF sh, of "[SetLongReordering b]" cfg'] shape res show ?thesis
      by (auto simp: setlongreordering_def shape_ops)
  qed (use res ok inv shows_connect [OF sh] shows_disconnect [OF sh] shows_crash [OF sh inv(1)] in \<open>auto simp: ns_run_Control\<close>)
qed

lemma driven_shows: "driven n ns cfg \<Longrightarrow> ns_reachable n ns \<and> shows_config ns cfg"
proof (induction rule: driven.induct)
  case driven_start
  have "shows_config (ns_empty n) (empty_config n)"
    by (auto simp: shows_config_def ns_empty_def empty_config_def net_shape_def running_def up_def MakeNetwork_def saved_shown_def
        intro: nth_equalityI)
  then show ?case using ns_empty_reachable by blast
next
  case (driven_peer ns cfg e ns')
  have "ns_step ns ns'" using driven_peer.hyps by (auto simp: ns_step_def)
  with driven_peer shows_peer_event show ?case by (blast intro: reach_step)
next
  case (driven_apply ns cfg i m cfg')
  then show ?case using shows_apply by blast
next
  case (driven_op ns cfg op cfg' ns')
  with harness_op_run [of n ns cfg op cfg'] ns_run_reachable show ?case by fastforce
qed

text \<open>Runs of peers and harness together.\<close>

datatype harness_event =
    Peers "int net_event"
  | Harness harness_op

fun drive :: "harness_event list \<Rightarrow> int netsys \<times> config \<Rightarrow> (int netsys \<times> config) go" where
  "drive [] s = Inr s"
| "drive (Peers e # es) (ns, cfg) =
     (if peer_event e then gbind (ns_exec e ns) (\<lambda>ns. drive es (ns, cfg\<lparr>cf_rafts := running ns\<rparr>)) else drive es (ns, cfg))"
| "drive (Harness op # es) (ns, cfg) =
     (if op_ok (cf_n cfg) op then
        gbind (harness_do op cfg) (\<lambda>cfg'. gbind (ns_run (op_events op cfg) ns) (\<lambda>ns. drive es (ns, cfg')))
      else drive es (ns, cfg))"

lemma drive_driven: "drive es (ns, cfg) = Inr (ns', cfg') \<Longrightarrow> driven n ns cfg \<Longrightarrow> driven n ns' cfg'"
proof (induction es "(ns, cfg)" arbitrary: ns cfg rule: drive.induct)
  case (2 e es ns cfg)
  then show ?case by (auto simp: gbind_eq_Inr split: if_splits intro: driven_peer)
next
  case (3 op es ns cfg)
  have n: "cf_n cfg = n" using driven_shows [OF 3(4)] reachable_inv [of n ns] by (simp add: shows_config_def)
  show ?case
  proof (cases "op_ok n op")
    case True
    with 3(3) n obtain cfg1 ns1 where 1: "harness_do op cfg = Inr cfg1" "ns_run (op_events op cfg) ns = Inr ns1"
      "drive es (ns1, cfg1) = Inr (ns', cfg')" by (auto simp: gbind_eq_Inr)
    with 3(1) True n driven_op [OF 3(4) True 1(1,2)] show ?thesis by simp
  qed (use 3 n in simp)
qed simp

end
