(* ===== verification/Net_Props.thy ===== *)
theory Net_Props
  imports Raft_Agreement Raft_Props Raft_Harness
begin

text \<open>
  Properties of the simulated network, of Raft over it, and of the Raft test harness that drives it.
\<close>

section \<open>Remote calls\<close>


text \<open>A small network: a counter service that adds its argument.\<close>

definition counter :: "(int, int) Service" where
  "counter = MakeService ''Counter'' 0
     [\<lparr>m_Name = ''Add'', m_PkgPath = [], m_NumIn = 3, m_In2Ptr = True, m_NumOut = 0,
       m_Func = (\<lambda>a st. Inr (st + a, st + a))\<rparr>,
      \<lparr>m_Name = ''hidden'', m_PkgPath = ''p'', m_NumIn = 3, m_In2Ptr = True, m_NumOut = 0,
       m_Func = (\<lambda>a st. Inr (st, 0))\<rparr>]"

definition demo_net :: "(string, nat, int, int) Network" where
  "demo_net = (case MakeEnd ''e'' MakeNetwork of
     Inr rn \<Rightarrow> (case new_server (AddService counter MakeServer) (Connect ''e'' 0 (Enable ''e'' True rn)) of
       (a, rn) \<Rightarrow> AddServer 0 a rn))"

definition good :: choices where
  "good = \<lparr>drop_request = False, drop_reply = False, handler_in_time = True\<rparr>"

text \<open>C24: on a reliable network, a call over an enabled end point to a registered server runs
  the handler that the part of the method name after its last dot names, of the service that
  the part before it names, exactly once, counts it, and returns the handler's reply.\<close>

theorem reliable_call:
  assumes net: "reliable rn" "net_enabled rn e = Some True" "connections rn e = Some n"
    "net_servers rn n = Some a" "a < length (server_heap rn)" "handler_in_time ch"
    and meth: "CHR ''.'' \<notin> set m" "sv_services (server_heap rn ! a) svc = Some sv"
    "svc_methods sv m = Some f" "f args (svc_rcvr sv) = Inr (st, r)"
  shows "Call ch (\<lambda>rn. rn) e (svc @ ''.'' @ m) args rn = Inr
    (rn\<lparr>server_heap := (server_heap rn)[a := (server_heap rn ! a)
         \<lparr>sv_count := sv_count (server_heap rn ! a) + 1,
          sv_services := (sv_services (server_heap rn ! a))(svc \<mapsto> sv\<lparr>svc_rcvr := st\<rparr>)\<rparr>]\<rparr>, Some r)"
proof -
  let ?req = "\<lparr>req_endname = e, req_svcMeth = svc @ CHR ''.'' # m, req_args = args\<rparr>"
  have "server_dispatch ?req (server_heap rn ! a) = Inr ((server_heap rn ! a)
         \<lparr>sv_count := sv_count (server_heap rn ! a) + 1,
          sv_services := (sv_services (server_heap rn ! a))(svc \<mapsto> sv\<lparr>svc_rcvr := st\<rparr>)\<rparr>,
       \<lparr>rep_ok = True, rep_reply = Some r\<rparr>)"
    using meth by (intro server_dispatch_ok [where f = f and meth = m]) simp_all
  then show ?thesis
    using net by (simp add: Call_def ProcessReq_live go_idx_def Let_def ProcessReq_reply_def IsServerDead_def)
qed

theorem reliable_call_witness:
  "\<exists>rn'. Call good (\<lambda>rn. rn) ''e'' (''Counter'' @ ''.'' @ ''Add'') 5 demo_net = Inr (rn', Some 5) \<and>
     sv_count (server_heap rn' ! 0) = 1"
proof -
  obtain f where f: "svc_methods counter ''Add'' = Some f" "f 5 (svc_rcvr counter) = Inr (5, 5)"
    by (simp add: counter_def MakeService_def is_handler_def)
  have h: "reliable demo_net" "net_enabled demo_net ''e'' = Some True" "connections demo_net ''e'' = Some 0"
    "net_servers demo_net 0 = Some 0" "length (server_heap demo_net) = 1" "handler_in_time good"
    "server_heap demo_net ! 0 = AddService counter MakeServer" "svc_name counter = ''Counter''"
    by (simp_all add: demo_net_def good_def MakeEnd_def MakeNetwork_def Connect_def Enable_def new_server_def
        AddServer_def counter_def MakeService_def)
  have "Call good (\<lambda>rn. rn) ''e'' (''Counter'' @ ''.'' @ ''Add'') 5 demo_net = Inr
    (demo_net\<lparr>server_heap := (server_heap demo_net)[0 := (server_heap demo_net ! 0)
         \<lparr>sv_count := sv_count (server_heap demo_net ! 0) + 1,
          sv_services := (sv_services (server_heap demo_net ! 0))(''Counter'' \<mapsto> counter\<lparr>svc_rcvr := 5\<rparr>)\<rparr>]\<rparr>, Some 5)"
    by (rule reliable_call [where f = f]) (simp_all add: h f, simp_all add: AddService_def h)
  then show ?thesis by (simp add: h(5)) (simp add: h(7) AddService_def MakeServer_def)
qed


section \<open>Raft over the network\<close>






section \<open>The test harness\<close>

text \<open>Building a configuration with \<open>n\<close> servers succeeds when the random names of the end
  points are distinct, and afterwards every server can reach every server.\<close>

lemma make_config_all_connected:
  assumes "\<And>a. length (names a) = n"
    and "\<And>a b a' b'. b < n \<Longrightarrow> b' < n \<Longrightarrow> names a ! b = names a' ! b' \<Longrightarrow> a = a' \<and> b = b'"
  shows "\<exists>cfg. make_config names n unrel = Inr cfg \<and> links_ok cfg \<and>
    (\<forall>i<n. \<forall>j<n. link_on (cf_net cfg) (endname cfg i j))"
  using make_config_links [OF assms, where unrel = unrel] by (fastforce simp: links_ok_def)

definition demo_names :: "nat \<Rightarrow> string list" where
  "demo_names i = [itoa i @ ''a'', itoa i @ ''b'']"

lemma demo_names_distinct:
  "length (demo_names a) = 2"
  "b < 2 \<Longrightarrow> b' < 2 \<Longrightarrow> demo_names a ! b = demo_names a' ! b' \<Longrightarrow> a = a' \<and> b = b'"
  by (auto simp: demo_names_def less_2_cases_iff)

text \<open>C26: connecting and disconnecting servers has the intended effect on the network. If the
  end point of server \<open>i\<close> to server \<open>j\<close> is enabled exactly when both are connected, for all
  \<open>i\<close> and \<open>j\<close>, then it is so after any server is disconnected, after any started server is
  connected, and after any server is restarted with new end points.\<close>

theorem links_follow_connections:
  assumes "links_ok cfg" and "i < cf_n cfg"
  shows "links_ok (disconnect i cfg) \<and>
    (started cfg i \<longrightarrow> (\<exists>cfg'. connect i cfg = Inr cfg' \<and> links_ok cfg')) \<and>
    (\<forall>names cfg'. length names = cf_n cfg \<longrightarrow> start1 names i cfg = Inr cfg' \<longrightarrow> links_ok cfg')"
  using disconnect_links [OF assms] connect_links [OF assms] start1_links [OF assms] by blast

theorem links_follow_connections_witness:
  "\<exists>cfg. make_config demo_names 2 True = Inr cfg \<and> links_ok (disconnect 0 cfg)"
proof -
  have "\<exists>cfg. make_config demo_names 2 True = Inr cfg \<and> links_ok cfg \<and> cf_n cfg = 2 \<and>
      (\<forall>i<2. cf_connected cfg ! i \<and> started cfg i)"
    by (rule make_config_links) (simp_all add: demo_names_distinct)
  then obtain cfg where "make_config demo_names 2 True = Inr cfg" "links_ok cfg" "cf_n cfg = 2" by blast
  then show ?thesis using links_follow_connections [of cfg 0] by auto
qed

definition elected_cluster :: "int cluster" where
  "elected_cluster = (case run [MainRead 0, MainTimeout 0, RunGoroutine 0, Deliver 0, Deliver 1, Reply 0, Reply 1]
     (init_cluster 3) of Inr s \<Rightarrow> s)"

definition elected_cfg :: config where
  "elected_cfg = (empty_config 3)\<lparr>cf_connected := [True, True, False], cf_rafts := map Some (servers elected_cluster)\<rparr>"

text \<open>C27: \<open>one\<close> returns agreement. Whatever happens in the system meanwhile, an index it returns has
  been applied by at least one and at least the expected number of servers, with the submitted
  command, and no server has applied another one there. And it returns in its first round when a
  connected server leads, nothing happens while the servers are asked, the readers of the apply
  channels report no error, and at some poll enough servers have applied the command at the index
  that the leader gave it.\<close>

theorem one_agreement:
  "(\<forall>cfg' index. one cmd m rounds cfg = Inr (cfg', index) \<longrightarrow>
      max 1 m \<le> length (appliers cfg' index cmd) \<and>
      (\<forall>i<length (cf_rafts cfg'). (cf_logs cfg' ! i) index = None \<or> (cf_logs cfg' ! i) index = Some cmd)) \<and>
   (rounds = r # rs \<and> (\<forall>k. or_tries r k = (\<lambda>c. c)) \<and> length (cf_rafts cfg) = cf_n cfg \<and>
      (\<exists>i<cf_n cfg. leads cfg i) \<and> healthy cfg \<and> (\<forall>e\<in>set (or_polls r). \<forall>c. healthy c \<longrightarrow> healthy (e c)) \<and>
      k < length (or_polls r) \<and>
      (\<forall>l<cf_n cfg. \<forall>rf. leads cfg l \<and> cf_rafts cfg ! l = Some rf \<longrightarrow>
        max 1 m \<le> length (appliers (fold (\<lambda>e. e) (take k (or_polls r))
          (cfg\<lparr>cf_rafts := (cf_rafts cfg)[l := Some (fst (Start cmd rf))]\<rparr>)) (int (length (Log rf))) cmd)) \<longrightarrow>
    (\<exists>cfg' l rf. one cmd m rounds cfg = Inr (cfg', int (length (Log rf))) \<and>
       l < cf_n cfg \<and> leads cfg l \<and> cf_rafts cfg ! l = Some rf))"
  using one_agreed_sound [OF one_loop_sound [of cmd m rounds 0 cfg]] one_complete [of r cfg _ k cmd m rs]
  by (auto simp: one_def)

text \<open>A round of polls during which servers 0 and 1 apply the command 5 at index 1.\<close>

definition demo_round :: one_round where
  "demo_round = (let msg = \<lparr>AM_Index = 1, AM_Command = Some 5, AM_UseSnapshot = False, AM_Snapshot = []\<rparr> in
     \<lparr>or_tries = (\<lambda>k c. c), or_polls = [applies 0 msg, applies 1 msg, \<lambda>c. c], or_pause = (\<lambda>c. c)\<rparr>)"

theorem one_agreement_witness:
  "\<exists>cfg' index. one 5 2 [demo_round] elected_cfg = Inr (cfg', index) \<and> 2 \<le> length (appliers cfg' index 5)"
proof -
  have leads: "leads elected_cfg 0" "\<not> leads elected_cfg 1" "\<not> leads elected_cfg 2" by code_simp+
  have n: "cf_n elected_cfg = 3" "length (cf_rafts elected_cfg) = 3" by code_simp+
  have l: "\<exists>i<cf_n elected_cfg. leads elected_cfg i" using leads(1) n by (intro exI [of _ 0]) simp
  have h: "healthy elected_cfg"
    using n by (auto simp: healthy_def logs_agree_def elected_cfg_def empty_config_def)
  have polls: "\<forall>e\<in>set (or_polls demo_round). \<forall>c. healthy c \<longrightarrow> healthy (e c)"
    "length (or_polls demo_round) = 3" "\<forall>k. or_tries demo_round k = (\<lambda>c. c)"
    by (simp_all add: demo_round_def Let_def healthy_applies)
  have "max 1 2 \<le> length (appliers (fold (\<lambda>e. e) (take 2 (or_polls demo_round))
      (elected_cfg\<lparr>cf_rafts := (cf_rafts elected_cfg)[0 := Some (fst (Start 5 (servers elected_cluster ! 0)))]\<rparr>))
      (int (length (Log (servers elected_cluster ! 0)))) 5)"
    and "cf_rafts elected_cfg ! 0 = Some (servers elected_cluster ! 0)" by code_simp+
  moreover have "l = 0" if "l < 3" "leads elected_cfg l" for l
    using that leads by (auto simp: numeral_3_eq_3 numeral_2_eq_2 less_Suc_eq)
  ultimately have agree: "\<forall>l<cf_n elected_cfg. \<forall>rf. leads elected_cfg l \<and> cf_rafts elected_cfg ! l = Some rf \<longrightarrow>
      max 1 2 \<le> length (appliers (fold (\<lambda>e. e) (take 2 (or_polls demo_round))
        (elected_cfg\<lparr>cf_rafts := (cf_rafts elected_cfg)[l := Some (fst (Start 5 rf))]\<rparr>)) (int (length (Log rf))) 5)"
    unfolding n by (metis option.inject)
  have "\<exists>cfg' l rf. one 5 2 [demo_round] elected_cfg = Inr (cfg', int (length (Log rf))) \<and>
      l < cf_n elected_cfg \<and> leads elected_cfg l \<and> cf_rafts elected_cfg ! l = Some rf"
    by (rule one_agreement [of 5 2 "[demo_round]" elected_cfg demo_round "[]" 2, THEN conjunct2, THEN mp])
      (use agree polls l n h in simp)
  with one_agreement [of 5 2 "[demo_round]" elected_cfg] show ?thesis by fastforce
qed





end
