(* ===== verification/Base32.thy ===== *)
theory Base32
  imports Go_Strings
begin

text \<open>
  The base32 encoding of the standard library (\<open>encoding/base32\<close>) with which the persistent
  key/value server names its files, and its round trip.
\<close>

section \<open>Encoding and decoding\<close>

text \<open>\<open>base32.StdEncoding\<close>: bytes are cut into groups of five bits, most significant first, the
  last group filled up with zeros; the text is filled up with \<open>=\<close> to a multiple of eight.\<close>

fun to_bits :: "nat \<Rightarrow> nat \<Rightarrow> bool list" where
  "to_bits 0 n = []"
| "to_bits (Suc w) n = to_bits w (n div 2) @ [odd n]"

definition of_bits :: "bool list \<Rightarrow> nat" where
  "of_bits bs = foldl (\<lambda>a b. 2 * a + (if b then 1 else 0)) 0 bs"

function chunks :: "nat \<Rightarrow> 'a list \<Rightarrow> 'a list list" where
  "chunks k xs = (if k = 0 \<or> xs = [] then [] else take k xs # chunks k (drop k xs))"
  by pat_completeness auto
termination
  by (relation "measure (\<lambda>(k, xs). length xs)") auto

declare chunks.simps [simp del]

definition alphabet :: string where
  "alphabet = ''ABCDEFGHIJKLMNOPQRSTUVWXYZ234567''"

definition fill :: "nat \<Rightarrow> bool list \<Rightarrow> bool list" where
  "fill k bs = bs @ replicate (k - length bs) False"

definition pad_count :: "nat \<Rightarrow> nat" where
  "pad_count n = (8 - n mod 8) mod 8"

definition base32_encode :: "string \<Rightarrow> string" where
  "base32_encode s =
     (let bits = concat (map (\<lambda>c. to_bits 8 (of_char c)) s);
          d = map (\<lambda>g. alphabet ! of_bits (fill 5 g)) (chunks 5 bits)
      in d @ replicate (pad_count (length d)) CHR ''='')"

fun index_of :: "'a \<Rightarrow> 'a list \<Rightarrow> nat option" where
  "index_of x [] = None"
| "index_of x (y # ys) = (if x = y then Some 0 else map_option Suc (index_of x ys))"

definition base32_decode :: "string \<Rightarrow> string option" where
  "base32_decode s =
     (let s = filter (\<lambda>c. c \<noteq> CHR 0x0A \<and> c \<noteq> CHR 0x0D) s;
          d = takeWhile (\<lambda>c. c \<noteq> CHR ''='') s;
          p = dropWhile (\<lambda>c. c \<noteq> CHR ''='') s;
          vs = map (\<lambda>c. index_of c alphabet) d in
      if list_all (\<lambda>c. c = CHR ''='') p \<and> length p = pad_count (length d) \<and>
         length d mod 8 \<in> {0, 2, 4, 5, 7} \<and> list_all (\<lambda>v. v \<noteq> None) vs
      then Some (map (\<lambda>g. char_of (of_bits g))
             (filter (\<lambda>g. length g = 8) (chunks 8 (concat (map (\<lambda>v. to_bits 5 (the v)) vs)))))
      else None)"

lemma length_to_bits [simp]: "length (to_bits w n) = w"
  by (induction w arbitrary: n) auto

lemma of_bits_snoc: "of_bits (bs @ [b]) = 2 * of_bits bs + (if b then 1 else 0)"
  by (simp add: of_bits_def)

lemma of_to_bits: "n < 2 ^ w \<Longrightarrow> of_bits (to_bits w n) = n"
proof (induction w arbitrary: n)
  case (Suc w)
  then have "n div 2 < 2 ^ w" by auto
  with Suc show ?case by (auto simp: of_bits_snoc)
qed (simp add: of_bits_def)

lemma to_of_bits: "to_bits (length bs) (of_bits bs) = bs"
proof (induction bs rule: rev_induct)
  case (snoc b bs)
  then show ?case by (simp add: of_bits_snoc)
qed simp

lemma of_bits_less: "of_bits bs < 2 ^ length bs"
proof (induction bs rule: rev_induct)
  case (snoc b bs)
  then show ?case by (auto simp: of_bits_snoc)
qed (simp add: of_bits_def)

lemma chunks_Nil [simp]: "chunks k [] = []"
  by (simp add: chunks.simps)

lemma chunks_full: "length g = k \<Longrightarrow> 0 < k \<Longrightarrow> chunks k (g @ xs) = g # chunks k xs"
  by (subst chunks.simps) auto

lemma chunks_short: "0 < length xs \<Longrightarrow> length xs < k \<Longrightarrow> chunks k xs = [xs]"
  by (simp add: chunks.simps)

lemma chunks_concat:
  assumes "\<And>g. g \<in> set gs \<Longrightarrow> length g = k" and "0 < k" and "length r < k"
  shows "filter (\<lambda>g. length g = k) (chunks k (concat gs @ r)) = gs"
  using assms
proof (induction gs)
  case Nil
  then show ?case by (cases "r = []") (simp_all add: chunks_short)
next
  case (Cons g gs)
  then show ?case by (simp add: chunks_full)
qed

lemma concat_fill:
  assumes "0 < k"
  shows "\<exists>p<k. concat (map (fill k) (chunks k xs)) = xs @ replicate p False \<and>
    length (chunks k xs) * k = length xs + p"
  using assms
proof (induction k xs rule: chunks.induct)
  case (1 k xs)
  show ?case
  proof (cases "length xs \<le> k")
    case True
    show ?thesis
    proof (cases "xs = []")
      case True
      with 1(2) show ?thesis by auto
    next
      case False
      then have "chunks k xs = [xs]" using True 1(2) by (simp add: chunks.simps [of k xs])
      moreover have "k - length xs < k" using False 1(2) by simp
      ultimately show ?thesis using True by (auto simp: fill_def)
    qed
  next
    case False
    then have c: "chunks k xs = take k xs # chunks k (drop k xs)" using 1(2) by (subst chunks.simps) auto
    from False 1 obtain p where p: "p < k"
      "concat (map (fill k) (chunks k (drop k xs))) = drop k xs @ replicate p False"
      "length (chunks k (drop k xs)) * k = length (drop k xs) + p" by fastforce
    have "fill k (take k xs) = take k xs" using False by (simp add: fill_def)
    moreover have "length xs + p = k + (length (drop k xs) + p)" using False by simp
    ultimately show ?thesis using p c by (intro exI [of _ p]) simp
  qed
qed

lemma chunks_length: "0 < k \<Longrightarrow> g \<in> set (chunks k xs) \<Longrightarrow> length g \<le> k"
proof (induction k xs rule: chunks.induct)
  case (1 k xs)
  then show ?case by (subst (asm) (2) chunks.simps) (auto split: if_splits)
qed

lemma alphabet_facts:
  "length alphabet = 32" "distinct alphabet" "CHR ''='' \<notin> set alphabet"
  "CHR 0x0A \<notin> set alphabet" "CHR 0x0D \<notin> set alphabet"
  by (simp_all add: alphabet_def)

lemma index_of_nth: "distinct ys \<Longrightarrow> i < length ys \<Longrightarrow> index_of (ys ! i) ys = Some i"
proof (induction ys arbitrary: i)
  case (Cons y ys)
  then show ?case by (cases i) auto
qed simp

lemma symbol_range:
  assumes "g \<in> set (chunks 5 bits)"
  shows "of_bits (fill 5 g) < 32" "to_bits 5 (of_bits (fill 5 g)) = fill 5 g"
proof -
  have l: "length (fill 5 g) = 5" using chunks_length [of 5 g bits] assms by (simp add: fill_def)
  show "of_bits (fill 5 g) < 32" using of_bits_less [of "fill 5 g"] by (simp add: l)
  show "to_bits 5 (of_bits (fill 5 g)) = fill 5 g" using to_of_bits [of "fill 5 g"] by (simp add: l)
qed

lemma pad_lengths:
  assumes "d * 5 = 8 * n + p" and "p < (5::nat)"
  shows "d mod 8 \<in> {0, 2, 4, 5, 7}"
proof -
  have "(d mod 8 * 5) mod 8 = (d * 5) mod 8" by (simp add: mod_mult_left_eq)
  also have "\<dots> = p" using assms by simp
  finally have "(d mod 8 * 5) mod 8 < 5" using assms(2) by simp
  moreover have "\<forall>r\<in>{0..<8::nat}. (r * 5) mod 8 < 5 \<longrightarrow> r \<in> {0, 2, 4, 5, 7}" by code_simp
  moreover have "d mod 8 \<in> {0..<8}" by simp
  ultimately show ?thesis by blast
qed

lemma base32_roundtrip: "base32_decode (base32_encode s) = Some s"
proof -
  define bits where "bits = concat (map (\<lambda>c. to_bits 8 (of_char c)) s)"
  define d where "d = map (\<lambda>g. alphabet ! of_bits (fill 5 g)) (chunks 5 bits)"
  obtain p where p: "p < 5" "concat (map (fill 5) (chunks 5 bits)) = bits @ replicate p False"
    "length d * 5 = length bits + p" using concat_fill [of 5 bits] by (auto simp: d_def)
  have lb: "length bits = 8 * length s" unfolding bits_def by (induction s) auto
  have enc: "base32_encode s = d @ replicate (pad_count (length d)) CHR ''=''"
    by (simp add: base32_encode_def Let_def d_def bits_def)
  have in_alpha: "set d \<subseteq> set alphabet"
    using symbol_range(1) alphabet_facts(1) by (auto simp: d_def)
  then have nn: "c \<noteq> CHR ''='' \<and> c \<noteq> CHR 0x0A \<and> c \<noteq> CHR 0x0D" if "c \<in> set d" for c
    using that alphabet_facts(3-5) by auto
  have flt: "filter (\<lambda>c. c \<noteq> CHR 0x0A \<and> c \<noteq> CHR 0x0D) (base32_encode s) = base32_encode s"
    unfolding enc filter_append using nn by (auto simp: filter_id_conv)
  have tw: "takeWhile (\<lambda>c. c \<noteq> CHR ''='') (base32_encode s) = d"
    "dropWhile (\<lambda>c. c \<noteq> CHR ''='') (base32_encode s) = replicate (pad_count (length d)) CHR ''=''"
    unfolding enc using nn by (auto simp: takeWhile_append dropWhile_append dropWhile_eq_Nil_conv takeWhile_eq_Nil_iff
        dropWhile_eq_self_iff)
  have vs: "map (\<lambda>c. index_of c alphabet) d = map (\<lambda>g. Some (of_bits (fill 5 g))) (chunks 5 bits)"
    using symbol_range(1) alphabet_facts(1,2) by (simp add: d_def index_of_nth)
  have "concat (map (\<lambda>v. to_bits 5 (the v)) (map (\<lambda>g. Some (of_bits (fill 5 g))) (chunks 5 bits))) =
      concat (map (fill 5) (chunks 5 bits))"
    using symbol_range(2) by (auto simp: comp_def cong: map_cong)
  also have "\<dots> = concat (map (\<lambda>c. to_bits 8 (of_char c)) s) @ replicate p False" using p(2) by (simp add: bits_def)
  finally have "filter (\<lambda>g. length g = 8) (chunks 8
      (concat (map (\<lambda>v. to_bits 5 (the v)) (map (\<lambda>g. Some (of_bits (fill 5 g))) (chunks 5 bits))))) =
      map (\<lambda>c. to_bits 8 (of_char c)) s"
    using p(1) by (simp only:) (rule chunks_concat, auto)
  moreover have "char_of (of_bits (to_bits 8 (of_char c))) = c" for c
    using of_to_bits [of "of_char c" 8] by simp
  moreover have "length d mod 8 \<in> {0, 2, 4, 5, 7}" using pad_lengths p(1,3) lb by metis
  ultimately show ?thesis
    unfolding base32_decode_def flt Let_def tw vs by (simp add: list_all_iff comp_def)
qed

end
