(* ===== verification/Diskv.thy ===== *)
theory Diskv
  imports Base32 Rpc_Server
begin

text \<open>
  The on-disk shards of the persistent key/value server (\<^verbatim>\<open>src/diskv/server.go\<close>):
  reading and replacing the file of one key, reading and replacing a whole
  shard. The handlers \<open>Get\<close>, \<open>PutAppend\<close> and \<open>tick\<close> are empty in the source; the server's
  flags and its accept loop are in theory \<open>Rpc_Server\<close>.

  A path is a directory and a file name, so the doubled slash the code puts between them plays
  no role.
\<close>

section \<open>The disk\<close>

text \<open>A disk maps the name of a directory to its files, an association list; \<open>refuses\<close> says
  which names the operating system refuses to create (\<open>[]\<close> stands for the directory itself).
  A path is a pair of a directory and a name.\<close>

record disk =
  dirs :: "string \<rightharpoonup> (string \<times> string) list"
  refuses :: "string \<Rightarrow> string \<Rightarrow> bool"

definition os_Mkdir :: "string \<Rightarrow> disk \<Rightarrow> disk option" where
  "os_Mkdir d dk =
     (if dirs dk d \<noteq> None \<or> refuses dk d [] then None else Some (dk\<lparr>dirs := (dirs dk)(d \<mapsto> [])\<rparr>))"

definition ReadFile :: "string \<times> string \<Rightarrow> disk \<Rightarrow> string option" where
  "ReadFile p dk = (case dirs dk (fst p) of None \<Rightarrow> None | Some fl \<Rightarrow> map_of fl (snd p))"

definition WriteFile :: "string \<times> string \<Rightarrow> string \<Rightarrow> disk \<Rightarrow> disk option" where
  "WriteFile p content dk =
     (case dirs dk (fst p) of
        None \<Rightarrow> None
      | Some fl \<Rightarrow> if refuses dk (fst p) (snd p) then None
          else Some (dk\<lparr>dirs := (dirs dk)(fst p \<mapsto> AList.update (snd p) content fl)\<rparr>))"

definition Rename :: "string \<times> string \<Rightarrow> string \<times> string \<Rightarrow> disk \<Rightarrow> disk option" where
  "Rename p q dk =
     (case ReadFile p dk of
        None \<Rightarrow> None
      | Some content \<Rightarrow> WriteFile q content
          (dk\<lparr>dirs := (dirs dk)(fst p := map_option (AList.delete (snd p)) (dirs dk (fst p)))\<rparr>))"

definition RemoveAll :: "string \<Rightarrow> disk \<Rightarrow> disk" where
  "RemoveAll d dk = dk\<lparr>dirs := (dirs dk)(d := None)\<rparr>"

definition ReadDir :: "string \<Rightarrow> disk \<Rightarrow> string list option" where
  "ReadDir d dk = map_option (\<lambda>fl. sort (map fst fl)) (dirs dk d)"

section \<open>Key files and shards\<close>

definition shardDir :: "DisKV \<Rightarrow> int \<Rightarrow> disk \<Rightarrow> (string \<times> disk) go" where
  "shardDir kv shard dk =
     (let d = kv_dir kv @ ''/shard-'' @ Itoa shard @ ''/'' in
      if dirs dk d \<noteq> None then Inr (d, dk)
      else case os_Mkdir d dk of
             None \<Rightarrow> Inl (LogFatal ''Mkdir'')
           | Some dk \<Rightarrow> Inr (d, dk))"

definition encodeKey :: "string \<Rightarrow> string" where
  "encodeKey key = base32_encode key"

definition decodeKey :: "string \<Rightarrow> string option" where
  "decodeKey filename = base32_decode filename"

text \<open>The content is \<^const>\<open>None\<close> where the code returns an error.\<close>

definition fileGet :: "DisKV \<Rightarrow> int \<Rightarrow> string \<Rightarrow> disk \<Rightarrow> (string option \<times> disk) go" where
  "fileGet kv shard key dk =
     gbind (shardDir kv shard dk) (\<lambda>(d, dk).
     Inr (ReadFile (d, ''key-'' @ encodeKey key) dk, dk))"

text \<open>The truth value says whether the code returns no error.\<close>

definition filePut :: "DisKV \<Rightarrow> int \<Rightarrow> string \<Rightarrow> string \<Rightarrow> disk \<Rightarrow> (bool \<times> disk) go" where
  "filePut kv shard key content dk =
     gbind (shardDir kv shard dk) (\<lambda>(d1, dk).
     let fullname = (d1, ''key-'' @ encodeKey key) in
     gbind (shardDir kv shard dk) (\<lambda>(d2, dk).
     let tempname = (d2, ''temp-'' @ encodeKey key) in
     case WriteFile tempname content dk of
       None \<Rightarrow> Inr (False, dk)
     | Some dk \<Rightarrow>
         (case Rename tempname fullname dk of
            None \<Rightarrow> Inr (False, dk)
          | Some dk \<Rightarrow> Inr (True, dk))))"

definition readShard_file ::
  "DisKV \<Rightarrow> int \<Rightarrow> string \<Rightarrow> (string \<rightharpoonup> string) \<times> disk \<Rightarrow> ((string \<rightharpoonup> string) \<times> disk) go" where
  "readShard_file kv shard n1 s =
     gbind (go_slice_to n1 4) (\<lambda>p.
     if p = ''key-'' then
       (case decodeKey (drop 4 n1) of
          None \<Rightarrow> Inl (LogFatal ''fileReadShard bad file name'')
        | Some key \<Rightarrow>
            gbind (fileGet kv shard key (snd s)) (\<lambda>(content, dk).
            case content of
              None \<Rightarrow> Inl (LogFatal ''fileReadShard fileGet failed'')
            | Some c \<Rightarrow> Inr ((fst s)(key \<mapsto> c), dk)))
     else Inr s)"

definition fileReadShard :: "DisKV \<Rightarrow> int \<Rightarrow> disk \<Rightarrow> ((string \<rightharpoonup> string) \<times> disk) go" where
  "fileReadShard kv shard dk =
     gbind (shardDir kv shard dk) (\<lambda>(d, dk).
     case ReadDir d dk of
       None \<Rightarrow> Inl (LogFatal ''fileReadShard could not read'')
     | Some fls \<Rightarrow> gfold (readShard_file kv shard) fls (Map.empty, dk))"

text \<open>The pairs of the map \<open>m\<close> come in the order in which Go visits them.\<close>

definition fileReplaceShard :: "DisKV \<Rightarrow> int \<Rightarrow> (string \<times> string) list \<Rightarrow> disk \<Rightarrow> disk go" where
  "fileReplaceShard kv shard m dk =
     gbind (shardDir kv shard dk) (\<lambda>(d, dk).
     gfold (\<lambda>(k, v) dk. gbind (filePut kv shard k v dk) (\<lambda>(ok, dk). Inr dk)) m (RemoveAll d dk))"

text \<open>The disks that a crash during \<open>filePut\<close> may leave behind: before and after the directory
  is made, with the temporary file written up to any byte, and after the renaming.\<close>

definition filePut_crash :: "DisKV \<Rightarrow> int \<Rightarrow> string \<Rightarrow> string \<Rightarrow> disk \<Rightarrow> disk list" where
  "filePut_crash kv shard key content dk =
     dk # (case shardDir kv shard dk of
        Inl e \<Rightarrow> []
      | Inr (d, dk1) \<Rightarrow> dk1 #
          concat (map (\<lambda>i. case WriteFile (d, ''temp-'' @ encodeKey key) (take i content) dk1 of
             None \<Rightarrow> [] | Some dk2 \<Rightarrow> [dk2]) [0..<Suc (length content)]) @
          (case filePut kv shard key content dk of Inl e \<Rightarrow> [] | Inr (ok, dk3) \<Rightarrow> [dk3]))"

section \<open>The shards of a disk as maps\<close>

definition shard_path :: "DisKV \<Rightarrow> int \<Rightarrow> string" where
  "shard_path kv shard = kv_dir kv @ ''/shard-'' @ Itoa shard @ ''/''"

definition shard_files :: "DisKV \<Rightarrow> disk \<Rightarrow> int \<Rightarrow> (string \<times> string) list" where
  "shard_files kv dk shard = (case dirs dk (shard_path kv shard) of None \<Rightarrow> [] | Some fl \<Rightarrow> fl)"

definition set_files :: "DisKV \<Rightarrow> int \<Rightarrow> (string \<times> string) list \<Rightarrow> disk \<Rightarrow> disk" where
  "set_files kv shard fl dk = dk\<lparr>dirs := (dirs dk)(shard_path kv shard \<mapsto> fl)\<rparr>"

text \<open>The map that a shard's directory stands for.\<close>

definition shard_map :: "DisKV \<Rightarrow> disk \<Rightarrow> int \<Rightarrow> string \<rightharpoonup> string" where
  "shard_map kv dk shard key = map_of (shard_files kv dk shard) (''key-'' @ encodeKey key)"

definition files_ok :: "(string \<times> string) list \<Rightarrow> bool" where
  "files_ok fl \<longleftrightarrow> distinct (map fst fl) \<and>
     (\<forall>n\<in>fst ` set fl. \<exists>k. n = ''key-'' @ encodeKey k \<or> n = ''temp-'' @ encodeKey k)"

definition accepts :: "DisKV \<Rightarrow> disk \<Rightarrow> bool" where
  "accepts kv dk \<longleftrightarrow> (\<forall>shard n. \<not> refuses dk (shard_path kv shard) n)"

definition disk_ok :: "DisKV \<Rightarrow> disk \<Rightarrow> bool" where
  "disk_ok kv dk \<longleftrightarrow> accepts kv dk \<and> (\<forall>shard\<ge>0. files_ok (shard_files kv dk shard))"

lemma encodeKey_inject [simp]: "encodeKey k = encodeKey k' \<longleftrightarrow> k = k'"
  unfolding encodeKey_def by (metis base32_roundtrip option.inject)

lemma decode_encodeKey [simp]: "decodeKey (encodeKey k) = Some k"
  by (simp add: encodeKey_def decodeKey_def base32_roundtrip)

lemma shard_path_inject [simp]: "0 \<le> s \<Longrightarrow> 0 \<le> s' \<Longrightarrow> shard_path kv s = shard_path kv s' \<longleftrightarrow> s = s'"
  by (simp add: shard_path_def Itoa_inject)

lemma set_files_simps [simp]:
  "accepts kv (set_files kv shard fl dk) = accepts kv dk"
  "0 \<le> s \<Longrightarrow> 0 \<le> s' \<Longrightarrow>
     shard_files kv (set_files kv s fl dk) s' = (if s' = s then fl else shard_files kv dk s')"
  "dirs (set_files kv s fl dk) (shard_path kv s) = Some fl"
  "set_files kv s fl (set_files kv s fl' dk) = set_files kv s fl dk"
  "shard_files kv (set_files kv s fl dk) s = fl"
  "refuses (set_files kv s fl dk) = refuses dk"
  by (auto simp: set_files_def accepts_def shard_files_def)

lemma shardDir_eq:
  assumes "accepts kv dk"
  shows "shardDir kv shard dk =
    Inr (shard_path kv shard, set_files kv shard (shard_files kv dk shard) dk)"
proof (cases "dirs dk (shard_path kv shard)")
  case None
  with assms show ?thesis
    unfolding shardDir_def Let_def shard_path_def [symmetric]
    by (simp add: os_Mkdir_def set_files_def shard_files_def accepts_def)
next
  case (Some fl)
  then have "(dirs dk)(shard_path kv shard \<mapsto> fl) = dirs dk" by auto
  with Some show ?thesis
    unfolding shardDir_def Let_def shard_path_def [symmetric]
    by (simp add: set_files_def shard_files_def)
qed

lemma fileGet_eq:
  "accepts kv dk \<Longrightarrow> fileGet kv shard key dk =
     Inr (shard_map kv dk shard key, set_files kv shard (shard_files kv dk shard) dk)"
  by (simp add: fileGet_def shardDir_eq ReadFile_def shard_map_def)

definition put_file :: "string \<Rightarrow> string \<Rightarrow> (string \<times> string) list \<Rightarrow> (string \<times> string) list" where
  "put_file key content fl = AList.update (''key-'' @ encodeKey key) content
     (AList.delete (''temp-'' @ encodeKey key) (AList.update (''temp-'' @ encodeKey key) content fl))"

lemma WriteFile_eq:
  "accepts kv dk \<Longrightarrow> WriteFile (shard_path kv shard, n) c (set_files kv shard fl dk) =
     Some (set_files kv shard (AList.update n c fl) dk)"
  by (simp add: WriteFile_def accepts_def) (simp add: set_files_def)

lemma filePut_eq:
  assumes "accepts kv dk"
  shows "filePut kv shard key content dk =
    Inr (True, set_files kv shard (put_file key content (shard_files kv dk shard)) dk)"
proof -
  let ?fl = "shard_files kv dk shard" and ?t = "''temp-'' @ encodeKey key"
  let ?fl1 = "AList.update ?t content ?fl"
  let ?dk1 = "set_files kv shard ?fl1 dk"
  have rd: "ReadFile (shard_path kv shard, ?t) ?dk1 = Some content"
    by (simp add: ReadFile_def update_conv')
  have del: "?dk1\<lparr>dirs := (dirs ?dk1)(shard_path kv shard :=
      map_option (AList.delete ?t) (dirs ?dk1 (shard_path kv shard)))\<rparr> =
      set_files kv shard (AList.delete ?t ?fl1) dk"
    by (simp add: set_files_def)
  have "Rename (shard_path kv shard, ?t) (shard_path kv shard, ''key-'' @ encodeKey key) ?dk1 =
      Some (set_files kv shard (put_file key content ?fl) dk)"
    unfolding Rename_def rd option.case fst_conv snd_conv del WriteFile_eq [OF assms] put_file_def ..
  then show ?thesis
    using assms by (simp add: filePut_def shardDir_eq WriteFile_eq Let_def)
qed

lemma put_file_lookup:
  "map_of (put_file key content fl) (''key-'' @ encodeKey k) =
     (if k = key then Some content else map_of fl (''key-'' @ encodeKey k))"
  by (simp add: put_file_def update_conv' delete_conv')

lemma keys_update: "fst ` set (AList.update n c fl) = insert n (fst ` set fl)"
  using dom_update [of n c fl] by simp

lemma files_ok_update:
  assumes "files_ok fl" and "n = ''key-'' @ encodeKey k \<or> n = ''temp-'' @ encodeKey k"
  shows "files_ok (AList.update n c fl)"
  using assms unfolding files_ok_def keys_update by (auto simp: distinct_update)

lemma files_ok_delete: "files_ok fl \<Longrightarrow> files_ok (AList.delete n fl)"
  unfolding files_ok_def
  by (intro conjI distinct_delete) (auto simp: AList.delete_eq)

lemma files_ok_put: "files_ok fl \<Longrightarrow> files_ok (put_file key content fl)"
  unfolding put_file_def by (blast intro: files_ok_update files_ok_delete)

lemma disk_ok_set_files:
  "disk_ok kv dk \<Longrightarrow> files_ok fl \<Longrightarrow> 0 \<le> shard \<Longrightarrow> disk_ok kv (set_files kv shard fl dk)"
  by (simp add: disk_ok_def)

lemma shard_map_set_files:
  "0 \<le> s \<Longrightarrow> 0 \<le> s' \<Longrightarrow> shard_map kv (set_files kv s fl dk) s' k =
     (if s' = s then map_of fl (''key-'' @ encodeKey k) else shard_map kv dk s' k)"
  by (simp add: shard_map_def)

lemma shard_map_put:
  assumes "0 \<le> s" and "0 \<le> s'"
  shows "shard_map kv (set_files kv s (put_file key c (shard_files kv dk s)) dk) s' k =
    (if s' = s \<and> k = key then Some c else shard_map kv dk s' k)"
  unfolding shard_map_set_files [OF assms] put_file_lookup by (simp add: shard_map_def)

section \<open>The store\<close>

text \<open>What a client of the file functions may rely on: a put succeeds, keeps the invariant and
  changes the value of its key only.\<close>

locale kv_files =
  fixes inv :: "'d \<Rightarrow> bool"
    and get :: "'d \<Rightarrow> 'k \<Rightarrow> 'v option"
    and put :: "'k \<Rightarrow> 'v \<Rightarrow> 'd \<Rightarrow> 'd go"
  assumes put_law: "inv d \<Longrightarrow> \<exists>d'. put k v d = Inr d' \<and> inv d' \<and> get d' = (get d)(k \<mapsto> v)"
begin

lemma puts:
  assumes "inv d"
  shows "\<exists>d'. gfold (\<lambda>(k, v). put k v) kvs d = Inr d' \<and> inv d' \<and> get d' = get d ++ map_of (rev kvs)"
  using assms
proof (induction kvs arbitrary: d)
  case (Cons kv kvs)
  obtain k v where kv: "kv = (k, v)" by (cases kv)
  from put_law [OF Cons.prems, of k v] obtain d1 where
    d1: "put k v d = Inr d1" "inv d1" "get d1 = (get d)(k \<mapsto> v)" by blast
  from Cons.IH [OF d1(2)] obtain d' where "gfold (\<lambda>(k, v). put k v) kvs d1 = Inr d'" "inv d'"
    "get d' = get d1 ++ map_of (rev kvs)" by blast
  then show ?case by (simp add: kv d1)
qed simp

lemma puts_distinct:
  assumes "inv d" and "distinct (map fst kvs)"
  shows "\<exists>d'. gfold (\<lambda>(k, v). put k v) kvs d = Inr d' \<and> inv d' \<and> get d' = get d ++ map_of kvs"
proof -
  have "map_of (rev kvs) = map_of kvs"
    using assms(2) by (intro map_of_inject_set [THEN iffD2]) (simp_all add: rev_map [symmetric])
  with puts [OF assms(1), of kvs] show ?thesis by simp
qed

end

text \<open>The file functions as an instance, for all shards of a disk at once.\<close>

definition put_step :: "DisKV \<Rightarrow> nat \<times> string \<Rightarrow> string \<Rightarrow> disk \<Rightarrow> disk go" where
  "put_step kv sk v dk = gbind (filePut kv (int (fst sk)) (snd sk) v dk) (\<lambda>(ok, dk). Inr dk)"

definition get_map :: "DisKV \<Rightarrow> disk \<Rightarrow> nat \<times> string \<Rightarrow> string option" where
  "get_map kv dk sk = shard_map kv dk (int (fst sk)) (snd sk)"

interpretation diskv: kv_files "disk_ok kv" "get_map kv" "put_step kv" for kv
proof
  fix d :: disk and k :: "nat \<times> string" and v :: string
  assume ok: "disk_ok kv d"
  obtain s key where k: "k = (s, key)" by (cases k)
  let ?d' = "set_files kv (int s) (put_file key v (shard_files kv d (int s))) d"
  have "put_step kv k v d = Inr ?d'"
    using ok by (simp add: put_step_def k filePut_eq disk_ok_def)
  moreover have "disk_ok kv ?d'"
    using ok by (intro disk_ok_set_files files_ok_put) (simp_all add: disk_ok_def)
  moreover have "get_map kv ?d' = (get_map kv d)(k \<mapsto> v)"
    by (rule ext) (auto simp: get_map_def k shard_map_put)
  ultimately show "\<exists>d'. put_step kv k v d = Inr d' \<and> disk_ok kv d' \<and> get_map kv d' = (get_map kv d)(k \<mapsto> v)"
    by blast
qed

text \<open>Reading a shard.\<close>

lemma key_name: "go_slice_to (''key-'' @ e) 4 = Inr ''key-''" "drop 4 (''key-'' @ e) = e"
  by (simp_all add: go_slice_to_def)

lemma temp_name: "go_slice_to (''temp-'' @ e) 4 = Inr ''temp''"
  by (simp add: go_slice_to_def)

lemma readShard_file_eq:
  assumes ac: "accepts kv dk" and fl: "dk = set_files kv shard (shard_files kv dk shard) dk"
    and n: "n \<in> fst ` set (shard_files kv dk shard)"
    and nm: "n = ''key-'' @ encodeKey k \<or> n = ''temp-'' @ encodeKey k"
  shows "readShard_file kv shard n (m, dk) =
    Inr (if n = ''key-'' @ encodeKey k then m(k := shard_map kv dk shard k) else m, dk)"
proof (cases "n = ''key-'' @ encodeKey k")
  case True
  obtain c where c: "shard_map kv dk shard k = Some c"
    using n unfolding shard_map_def True by (cases "map_of (shard_files kv dk shard) (''key-'' @ encodeKey k)")
      (auto simp: map_of_eq_None_iff)
  have "fileGet kv shard k dk = Inr (Some c, dk)" using fileGet_eq [OF ac, of shard k] c fl by simp
  then show ?thesis
    unfolding readShard_file_def True key_name by (simp add: c)
next
  case False
  with nm have "n = ''temp-'' @ encodeKey k" by blast
  then show ?thesis using False unfolding readShard_file_def by (simp only: temp_name gbind_Inr) simp
qed

lemma readShard_files:
  assumes ac: "accepts kv dk" and fl: "dk = set_files kv shard (shard_files kv dk shard) dk"
    and ok: "files_ok (shard_files kv dk shard)"
    and ns: "set ns \<subseteq> fst ` set (shard_files kv dk shard)"
  shows "gfold (readShard_file kv shard) ns (m, dk) =
    Inr (\<lambda>k. if ''key-'' @ encodeKey k \<in> set ns then shard_map kv dk shard k else m k, dk)"
  using ns
proof (induction ns arbitrary: m)
  case (Cons n ns)
  then have n: "n \<in> fst ` set (shard_files kv dk shard)" by simp
  with ok obtain k where nm: "n = ''key-'' @ encodeKey k \<or> n = ''temp-'' @ encodeKey k"
    unfolding files_ok_def by blast
  let ?m1 = "if n = ''key-'' @ encodeKey k then m(k := shard_map kv dk shard k) else m"
  have "gfold (readShard_file kv shard) (n # ns) (m, dk) = gfold (readShard_file kv shard) ns (?m1, dk)"
    by (simp add: readShard_file_eq [OF ac fl n nm])
  also have "\<dots> = Inr (\<lambda>k'. if ''key-'' @ encodeKey k' \<in> set ns then shard_map kv dk shard k' else ?m1 k', dk)"
    using Cons by simp
  also have "(\<lambda>k'. if ''key-'' @ encodeKey k' \<in> set ns then shard_map kv dk shard k' else ?m1 k') =
      (\<lambda>k'. if ''key-'' @ encodeKey k' \<in> set (n # ns) then shard_map kv dk shard k' else m k')"
    using nm by (auto simp: fun_eq_iff)
  finally show ?case .
qed simp

lemma fileReadShard_eq:
  assumes ok: "disk_ok kv dk" and s: "0 \<le> shard"
  shows "fileReadShard kv shard dk =
    Inr (shard_map kv dk shard, set_files kv shard (shard_files kv dk shard) dk)"
proof -
  let ?fl = "shard_files kv dk shard"
  let ?dk = "set_files kv shard ?fl dk"
  have ac: "accepts kv dk" and fo: "files_ok ?fl" using ok s by (simp_all add: disk_ok_def)
  have "gfold (readShard_file kv shard) (sort (map fst ?fl)) (Map.empty, ?dk) =
      Inr (\<lambda>k. if ''key-'' @ encodeKey k \<in> set (sort (map fst ?fl)) then shard_map kv ?dk shard k else None, ?dk)"
    by (rule readShard_files) (simp_all add: ac fo)
  also have "(\<lambda>k. if ''key-'' @ encodeKey k \<in> set (sort (map fst ?fl)) then shard_map kv ?dk shard k else None) =
      shard_map kv dk shard"
    by (rule ext) (auto simp: shard_map_def intro!: map_of_eq_None_iff [THEN iffD2, symmetric])
  finally show ?thesis
    using ac by (simp add: fileReadShard_def shardDir_eq ReadDir_def)
qed

text \<open>Replacing a shard.\<close>

lemma RemoveAll_facts:
  assumes "disk_ok kv dk" and "0 \<le> shard"
  shows "disk_ok kv (RemoveAll (shard_path kv shard) dk)"
    and "0 \<le> s \<Longrightarrow> shard_map kv (RemoveAll (shard_path kv shard) dk) s =
      (if s = shard then Map.empty else shard_map kv dk s)"
proof -
  have fl: "shard_files kv (RemoveAll (shard_path kv shard) dk) s =
      (if s = shard then [] else shard_files kv dk s)" if "0 \<le> s" for s
    using assms(2) that by (simp add: shard_files_def RemoveAll_def)
  then show "disk_ok kv (RemoveAll (shard_path kv shard) dk)"
    using assms by (simp add: disk_ok_def accepts_def) (simp add: files_ok_def RemoveAll_def)
  show "0 \<le> s \<Longrightarrow> shard_map kv (RemoveAll (shard_path kv shard) dk) s =
      (if s = shard then Map.empty else shard_map kv dk s)"
    using fl by (auto simp: shard_map_def)
qed

lemma set_files_touch:
  assumes "disk_ok kv dk" and "0 \<le> shard"
  shows "disk_ok kv (set_files kv shard (shard_files kv dk shard) dk)"
    and "0 \<le> s \<Longrightarrow> shard_map kv (set_files kv shard (shard_files kv dk shard) dk) s = shard_map kv dk s"
  using assms by (auto simp: disk_ok_def shard_map_def fun_eq_iff)

lemma fileReplaceShard_ok:
  assumes ok: "disk_ok kv dk" and s: "0 \<le> shard" and d: "distinct (map fst m)"
  shows "\<exists>dk'. fileReplaceShard kv shard m dk = Inr dk' \<and> disk_ok kv dk' \<and>
    (\<forall>s\<ge>0. shard_map kv dk' s = (if s = shard then map_of m else shard_map kv dk s))"
proof -
  let ?kvs = "map (\<lambda>(k, v). ((nat shard, k), v)) m"
  let ?dk1 = "set_files kv shard (shard_files kv dk shard) dk"
  let ?dk2 = "RemoveAll (shard_path kv shard) ?dk1"
  note t = set_files_touch [OF ok s]
  have "distinct (map fst ?kvs)"
    using d by (auto simp: distinct_map inj_on_def) (metis fst_conv snd_conv)
  with RemoveAll_facts(1) [OF t(1) s] diskv.puts_distinct obtain dk' where
    dk': "gfold (\<lambda>(k, v). put_step kv k v) ?kvs ?dk2 = Inr dk'" "disk_ok kv dk'"
    "get_map kv dk' = get_map kv ?dk2 ++ map_of ?kvs" by blast
  have "gfold (\<lambda>(k, v). put_step kv k v) ?kvs ?dk2 =
      gfold (\<lambda>(k, v) dk. gbind (filePut kv shard k v dk) (\<lambda>(ok, dk). Inr dk)) m ?dk2"
    unfolding gfold_map using s by (intro gfold_cong) (auto simp: put_step_def)
  with dk'(1) have "fileReplaceShard kv shard m dk = Inr dk'"
    using ok by (simp add: fileReplaceShard_def shardDir_eq disk_ok_def)
  moreover have "shard_map kv dk' s' = (if s' = shard then map_of m else shard_map kv dk s')" if "0 \<le> s'" for s'
  proof (rule ext)
    fix k
    have "map_of ?kvs (nat s', k) = (if s' = shard then map_of m k else None)"
      using s that by (induction m) auto
    then have "shard_map kv dk' s' k =
        (if s' = shard \<and> map_of m k \<noteq> None then map_of m k else shard_map kv ?dk2 s' k)"
      using fun_cong [OF dk'(3), of "(nat s', k)"] that
      by (simp add: get_map_def map_add_def split: option.splits)
    then show "shard_map kv dk' s' k = (if s' = shard then map_of m else shard_map kv dk s') k"
      using that s by (auto simp: RemoveAll_facts(2) [OF t(1) s] t(2))
  qed
  ultimately show ?thesis using dk'(2) by blast
qed

text \<open>Crashes.\<close>

lemma filePut_crash_cases:
  assumes ok: "disk_ok kv dk" and dk': "dk' \<in> set (filePut_crash kv shard key content dk)"
  obtains "dk' = dk" | "dk' = set_files kv shard (shard_files kv dk shard) dk"
  | c where "dk' = set_files kv shard (AList.update (''temp-'' @ encodeKey key) c (shard_files kv dk shard)) dk"
  | "dk' = set_files kv shard (put_file key content (shard_files kv dk shard)) dk"
proof -
  have ac: "accepts kv dk" using ok by (simp add: disk_ok_def)
  show ?thesis
    using dk' that unfolding filePut_crash_def shardDir_eq [OF ac] sum.case prod.case
      WriteFile_eq [OF ac] filePut_eq [OF ac] option.case by auto
qed

lemma shard_map_temp:
  assumes "0 \<le> s" and "0 \<le> shard"
  shows "shard_map kv (set_files kv shard (AList.update (''temp-'' @ e) c (shard_files kv dk shard)) dk) s =
    shard_map kv dk s"
  using assms by (intro ext) (simp add: shard_map_def update_conv')

lemma filePut_crash_ok:
  assumes ok: "disk_ok kv dk" and s: "0 \<le> shard"
    and dk': "dk' \<in> set (filePut_crash kv shard key content dk)"
  shows "disk_ok kv dk'" (is ?ok)
    and "(\<forall>s\<ge>0. shard_map kv dk' s = shard_map kv dk s) \<or>
      (\<forall>s\<ge>0. shard_map kv dk' s =
        (if s = shard then (shard_map kv dk s)(key \<mapsto> content) else shard_map kv dk s))" (is ?map)
proof -
  have fo: "files_ok (shard_files kv dk shard)" using ok s by (simp add: disk_ok_def)
  have "?ok \<and> ?map"
    using ok dk'
  proof (cases rule: filePut_crash_cases)
    case 1
    with ok show ?thesis by simp
  next
    case 2
    with set_files_touch [OF ok s] show ?thesis by simp
  next
    case (3 c)
    then have ?ok using ok s fo files_ok_update by (auto intro: disk_ok_set_files)
    moreover have "\<forall>s\<ge>0. shard_map kv dk' s = shard_map kv dk s"
      unfolding 3 using s by (blast intro: shard_map_temp)
    ultimately show ?thesis by blast
  next
    case 4
    then have ?ok using ok s fo by (auto intro: disk_ok_set_files files_ok_put)
    moreover have "\<forall>s\<ge>0. shard_map kv dk' s =
        (if s = shard then (shard_map kv dk s)(key \<mapsto> content) else shard_map kv dk s)"
      using s unfolding 4 by (auto simp: shard_map_put fun_eq_iff)
    ultimately show ?thesis by blast
  qed
  then show ?ok ?map by blast+
qed

lemma encodeKey_chars: "set (encodeKey key) \<subseteq> insert CHR ''='' (set alphabet)"
proof -
  have "alphabet ! of_bits (fill 5 g) \<in> set alphabet" if "g \<in> set (chunks 5 bits)" for g bits
    using symbol_range(1) [OF that] alphabet_facts(1) by simp
  then show ?thesis by (auto simp: encodeKey_def base32_encode_def Let_def)
qed

lemma filePut_crash_length:
  assumes "accepts kv dk"
  shows "length (filePut_crash kv shard key content dk) = length content + 4"
proof -
  have "concat (map (\<lambda>i. [f i]) xs) = map f xs" for f and xs :: "nat list"
    by (induction xs) simp_all
  then show ?thesis
    unfolding filePut_crash_def shardDir_eq [OF assms] sum.case prod.case
      WriteFile_eq [OF assms] filePut_eq [OF assms] option.case by simp
qed

end
