(* ===== verification/Clerk_Sessions.thy ===== *)
theory Clerk_Sessions
  imports Socket_Services
begin

text \<open>
  The clerks of the sharded services as objects (\<^verbatim>\<open>src/shardkv/client.go\<close>,
  \<^verbatim>\<open>src/diskv/client.go\<close>, \<^verbatim>\<open>src/paxos-shardkv/client.go\<close>): each holds a clerk of the shardmaster
  and the configuration it last saw, and keeps both from one operation to the next. A session is
  the sequence of operations of one client. As in \<open>Shard_Clerk\<close> the loops take a number of rounds;
  an operation that has not returned by then has the result \<^const>\<open>None\<close>.
\<close>

section \<open>Clerks\<close>

record 's sm_Clerk =
  smk_servers :: "'s list"

definition sm_MakeClerk :: "'s list \<Rightarrow> 's sm_Clerk" where
  "sm_MakeClerk servers = \<lparr>smk_servers = servers\<rparr>"

text \<open>The clerk of \<^verbatim>\<open>src/paxos-shardmaster/client.go\<close> has the same field, with socket names.\<close>

definition psm_MakeClerk :: "string list \<Rightarrow> string sm_Clerk" where
  "psm_MakeClerk servers = \<lparr>smk_servers = servers\<rparr>"

record ('s, 'e) skv_Clerk =
  skk_sm :: "'s sm_Clerk"
  skk_config :: Config
  skk_make_end :: "string \<Rightarrow> 'e"

definition skv_MakeClerk :: "'s list \<Rightarrow> (string \<Rightarrow> 'e) \<Rightarrow> ('s, 'e) skv_Clerk" where
  "skv_MakeClerk masters make_end =
     \<lparr>skk_sm = sm_MakeClerk masters, skk_config = zero_config, skk_make_end = make_end\<rparr>"

text \<open>The socket clerks of \<^verbatim>\<open>diskv\<close> and \<^verbatim>\<open>paxos-shardkv\<close> have the same fields.\<close>

record dkv_Clerk =
  dkk_sm :: "string sm_Clerk"
  dkk_config :: Config

definition dkv_MakeClerk :: "string list \<Rightarrow> dkv_Clerk" where
  "dkv_MakeClerk shardmasters = \<lparr>dkk_sm = psm_MakeClerk shardmasters, dkk_config = zero_config\<rparr>"

definition psk_MakeClerk :: "string list \<Rightarrow> dkv_Clerk" where
  "psk_MakeClerk shardmasters = \<lparr>dkk_sm = psm_MakeClerk shardmasters, dkk_config = zero_config\<rparr>"

section \<open>Operations\<close>

datatype clerk_op = OpGet string | OpPut string string | OpAppend string string

text \<open>An operation with the clerk's own shardmaster clerk and configuration. The result of \<open>Put\<close> and
  \<open>Append\<close> is the empty string.\<close>

fun skv_op where
  "skv_op gc pc mc sleep n (OpGet key) (ck, w) =
     gbind (Get (\<lambda>srv. gc (skk_make_end ck srv)) (Query mc sleep (smk_servers (skk_sm ck)) n (-1)) sleep key n
       (skk_config ck) w) (\<lambda>(v, cfg, w). Inr (v, ck\<lparr>skk_config := cfg\<rparr>, w))"
| "skv_op gc pc mc sleep n (OpPut key val) (ck, w) =
     gbind (Put (\<lambda>srv. pc (skk_make_end ck srv)) (Query mc sleep (smk_servers (skk_sm ck)) n (-1)) sleep key val n
       (skk_config ck) w) (\<lambda>(v, cfg, w). Inr (map_option (\<lambda>u. []) v, ck\<lparr>skk_config := cfg\<rparr>, w))"
| "skv_op gc pc mc sleep n (OpAppend key val) (ck, w) =
     gbind (Append (\<lambda>srv. pc (skk_make_end ck srv)) (Query mc sleep (smk_servers (skk_sm ck)) n (-1)) sleep key val n
       (skk_config ck) w) (\<lambda>(v, cfg, w). Inr (map_option (\<lambda>u. []) v, ck\<lparr>skk_config := cfg\<rparr>, w))"

fun dkv_op where
  "dkv_op gc pc mc sleep n (OpGet key) (ck, w) =
     gbind (dkv_Get gc (paxos_Query mc sleep (smk_servers (dkk_sm ck)) n (-1)) sleep key n (dkk_config ck) w)
       (\<lambda>(v, cfg, w). Inr (v, ck\<lparr>dkk_config := cfg\<rparr>, w))"
| "dkv_op gc pc mc sleep n (OpPut key val) (ck, w) =
     gbind (dkv_Put pc (paxos_Query mc sleep (smk_servers (dkk_sm ck)) n (-1)) sleep key val n (dkk_config ck) w)
       (\<lambda>(v, cfg, w). Inr (map_option (\<lambda>u. []) v, ck\<lparr>dkk_config := cfg\<rparr>, w))"
| "dkv_op gc pc mc sleep n (OpAppend key val) (ck, w) =
     gbind (dkv_Append pc (paxos_Query mc sleep (smk_servers (dkk_sm ck)) n (-1)) sleep key val n (dkk_config ck) w)
       (\<lambda>(v, cfg, w). Inr (map_option (\<lambda>u. []) v, ck\<lparr>dkk_config := cfg\<rparr>, w))"

fun psk_op where
  "psk_op gc pc mc sleep n (OpGet key) (ck, w) =
     gbind (psk_Get gc (paxos_Query mc sleep (smk_servers (dkk_sm ck)) n (-1)) sleep key n (dkk_config ck) w)
       (\<lambda>(v, cfg, w). Inr (v, ck\<lparr>dkk_config := cfg\<rparr>, w))"
| "psk_op gc pc mc sleep n (OpPut key val) (ck, w) =
     gbind (psk_Put pc (paxos_Query mc sleep (smk_servers (dkk_sm ck)) n (-1)) sleep key val n (dkk_config ck) w)
       (\<lambda>(v, cfg, w). Inr (map_option (\<lambda>u. []) v, ck\<lparr>dkk_config := cfg\<rparr>, w))"
| "psk_op gc pc mc sleep n (OpAppend key val) (ck, w) =
     gbind (psk_Append pc (paxos_Query mc sleep (smk_servers (dkk_sm ck)) n (-1)) sleep key val n (dkk_config ck) w)
       (\<lambda>(v, cfg, w). Inr (map_option (\<lambda>u. []) v, ck\<lparr>dkk_config := cfg\<rparr>, w))"

section \<open>Sessions\<close>

fun session :: "('op \<Rightarrow> 's \<Rightarrow> ('r \<times> 's) go) \<Rightarrow> 'op list \<Rightarrow> 's \<Rightarrow> ('r list \<times> 's) go" where
  "session run [] s = Inr ([], s)"
| "session run (op # ops) s =
     gbind (run op s) (\<lambda>(r, s). gbind (session run ops s) (\<lambda>(rs, s). Inr (r # rs, s)))"

text \<open>What a session relies on: an operation on a good state returns and leaves a good state,
  changing the state only in ways that compose.\<close>

locale clerk_session =
  fixes run :: "'op \<Rightarrow> 's \<Rightarrow> ('r \<times> 's) go" and ok :: "'s \<Rightarrow> bool" and keeps :: "'s \<Rightarrow> 's \<Rightarrow> bool"
  assumes run_ok: "ok s \<Longrightarrow> \<exists>r s'. run op s = Inr (r, s') \<and> ok s' \<and> keeps s s'"
    and keeps_refl: "keeps s s" and keeps_trans: "keeps s t \<Longrightarrow> keeps t u \<Longrightarrow> keeps s u"
begin

lemma session_ok:
  "ok s \<Longrightarrow> \<exists>rs s'. session run ops s = Inr (rs, s') \<and> length rs = length ops \<and> ok s' \<and> keeps s s'"
proof (induction ops arbitrary: s)
  case Nil
  then show ?case by (simp add: keeps_refl)
next
  case (Cons op ops)
  obtain r s1 where r: "run op s = Inr (r, s1)" "ok s1" "keeps s s1" using run_ok [OF Cons.prems] by blast
  from Cons.IH [OF r(2)] obtain rs s' where "session run ops s1 = Inr (rs, s')" "length rs = length ops" "ok s'" "keeps s1 s'"
    by blast
  with r show ?case using keeps_trans by (auto intro!: exI [of _ "r # rs"])
qed

end

lemma shard_loop_held:
  "shard_loop c good stop query sleep key n cfg w = Inr (r, cfg', w') \<Longrightarrow> held query cfg cfg'"
proof (induction n arbitrary: cfg w)
  case (Suc n)
  obtain gid where g: "go_idx (Shards cfg) (key2shard key) = Inr gid"
    using Suc.prems by (cases "go_idx (Shards cfg) (key2shard key)") auto
  let ?t = "case Groups cfg gid of None \<Rightarrow> (None, w) | Some servers \<Rightarrow> try_servers c good stop servers w"
  obtain o1 w1 where t: "?t = (o1, w1)" by (cases ?t)
  obtain o2 w2 where q: "query (sleep w1) = (o2, w2)" by (cases "query (sleep w1)")
  show ?case
  proof (cases "o1 = None \<and> o2 \<noteq> None")
    case True
    then obtain cfg2 where o2: "o1 = None" "o2 = Some cfg2" by blast
    with Suc.prems g t q have "shard_loop c good stop query sleep key n cfg2 w2 = Inr (r, cfg', w')" by simp
    from Suc.IH [OF this] have "held query cfg2 cfg'" .
    moreover have "fst (query (sleep w1)) = Some cfg2" using q o2(2) by simp
    ultimately show ?thesis by (auto simp: held_def)
  next
    case False
    then have "cfg' = cfg" using Suc.prems g t q by (cases o1; cases o2) simp_all
    then show ?thesis by (simp add: held_def)
  qed
qed (simp add: held_def)

text \<open>The loop of the three clerks on a configuration of ten shards.\<close>

lemma shard_loop_ok:
  assumes "config_ok cfg" and "\<forall>u cfg'. fst (query u) = Some cfg' \<longrightarrow> config_ok cfg'"
  shows "\<exists>r cfg' w'. shard_loop c good stop query sleep key n cfg w = Inr (r, cfg', w') \<and> config_ok cfg'"
proof -
  obtain r cfg' w' where l: "shard_loop c good stop query sleep key n cfg w = Inr (r, cfg', w')"
    using shard_loop_no_panic [OF assms(1), of query] assms(2) by (metis prod_cases3)
  from shard_loop_held [OF this] assms l show ?thesis by (auto simp: held_def)
qed

definition masters_ok where
  "masters_ok mc \<longleftrightarrow> (\<forall>srv args w r. fst (mc srv args w) = Some r \<longrightarrow> config_ok (QR_Config r))"

definition sockets_ok where
  "sockets_ok mc \<longleftrightarrow> (\<forall>srv name args w cfg. fst (mc srv name args w) = Some cfg \<longrightarrow> config_ok cfg)"

lemma Query_config_ok: "masters_ok mc \<Longrightarrow> fst (Query mc sleep servers n num u) = Some cfg \<Longrightarrow> config_ok cfg"
  using Query_reply [of mc sleep servers n num u cfg "snd (Query mc sleep servers n num u)"]
  by (metis fst_conv masters_ok_def prod.collapse)

lemma paxos_Query_config_ok: "sockets_ok mc \<Longrightarrow> fst (paxos_Query mc sleep servers n num u) = Some cfg \<Longrightarrow> config_ok cfg"
  using paxos_Query_reply [of mc sleep servers n num u cfg "snd (paxos_Query mc sleep servers n num u)"]
  by (metis fst_conv sockets_ok_def prod.collapse)

lemmas clerk_defs = Get_def Put_def Append_def PutAppend_def dkv_Get_def dkv_Put_def dkv_Append_def dkv_PutAppend_def
  psk_Get_def psk_Put_def psk_Append_def psk_PutAppend_def

interpretation skv: clerk_session "skv_op gc pc mc sleep n"
  "\<lambda>(ck, w). config_ok (skk_config ck) \<and> masters_ok mc"
  "\<lambda>(ck, w) (ck', w'). skk_sm ck' = skk_sm ck \<and> skk_make_end ck' = skk_make_end ck"
proof (standard, goal_cases)
  case (1 s op)
  then obtain ck w where s: "s = (ck, w)" "config_ok (skk_config ck)" "masters_ok mc" by (cases s) simp
  note loop = shard_loop_ok [OF s(2), of "Query mc sleep (smk_servers (skk_sm ck)) n (- 1)"]
  show ?case
    using Query_config_ok [OF s(3)] s
    by (cases op) (fastforce simp: clerk_defs Let_def gbind_eq_Inr dest: loop)+
qed auto

interpretation dkv_ck: clerk_session "dkv_op gc pc mc sleep n"
  "\<lambda>(ck, w). config_ok (dkk_config ck) \<and> sockets_ok mc" "\<lambda>(ck, w) (ck', w'). dkk_sm ck' = dkk_sm ck"
proof (standard, goal_cases)
  case (1 s op)
  then obtain ck w where s: "s = (ck, w)" "config_ok (dkk_config ck)" "sockets_ok mc" by (cases s) simp
  note loop = shard_loop_ok [OF s(2), of "paxos_Query mc sleep (smk_servers (dkk_sm ck)) n (- 1)"]
  show ?case
    using paxos_Query_config_ok [OF s(3)] s
    by (cases op) (fastforce simp: clerk_defs Let_def gbind_eq_Inr dest: loop)+
qed auto

interpretation psk_ck: clerk_session "psk_op gc pc mc sleep n"
  "\<lambda>(ck, w). config_ok (dkk_config ck) \<and> sockets_ok mc" "\<lambda>(ck, w) (ck', w'). dkk_sm ck' = dkk_sm ck"
proof (standard, goal_cases)
  case (1 s op)
  then obtain ck w where s: "s = (ck, w)" "config_ok (dkk_config ck)" "sockets_ok mc" by (cases s) simp
  note loop = shard_loop_ok [OF s(2), of "paxos_Query mc sleep (smk_servers (dkk_sm ck)) n (- 1)"]
  show ?case
    using paxos_Query_config_ok [OF s(3)] s
    by (cases op) (fastforce simp: clerk_defs Let_def gbind_eq_Inr dest: loop)+
qed auto

text \<open>A new clerk completes any sequence of operations without a panic, and keeps its masters.\<close>

lemma new_clerk_session:
  assumes "masters_ok mc"
  shows "\<exists>rs ck w'. session (skv_op gc pc mc sleep n) ops (skv_MakeClerk masters make_end, w) = Inr (rs, ck, w') \<and>
    length rs = length ops \<and> config_ok (skk_config ck) \<and> skk_sm ck = sm_MakeClerk masters \<and> skk_make_end ck = make_end"
  using skv.session_ok [of mc "(skv_MakeClerk masters make_end, w)" gc pc sleep n ops] assms
  by (auto simp: skv_MakeClerk_def config_ok_def zero_config_def NShards_def)

lemma new_socket_clerk_session:
  assumes "sockets_ok mc"
  shows "\<exists>rs ck w'. session (dkv_op gc pc mc sleep n) ops (dkv_MakeClerk masters, w) = Inr (rs, ck, w') \<and>
      length rs = length ops \<and> config_ok (dkk_config ck) \<and> dkk_sm ck = psm_MakeClerk masters"
    and "\<exists>rs ck w'. session (psk_op gc' pc' mc sleep n) ops (psk_MakeClerk masters, w) = Inr (rs, ck, w') \<and>
      length rs = length ops \<and> config_ok (dkk_config ck) \<and> dkk_sm ck = psm_MakeClerk masters"
  using dkv_ck.session_ok [of mc "(dkv_MakeClerk masters, w)" gc pc sleep n ops]
    psk_ck.session_ok [of mc "(psk_MakeClerk masters, w)" gc' pc' sleep n ops] assms
  by (auto simp: dkv_MakeClerk_def psk_MakeClerk_def config_ok_def zero_config_def NShards_def)

end
