(* ===== verification/Store_Props.thy ===== *)
theory Store_Props
  imports Diskv Lockservice Clerk_Sessions
begin

text \<open>
  The properties of the persistent key/value files, the lock service, the socket servers and the
  sharded clients, with witnesses.
\<close>

section \<open>Key files\<close>

definition demo_kv :: DisKV where
  "demo_kv = \<lparr>dead = 0, unreliable = 0, rpcCount = 0, listener = True, kv_me = 0,
     kv_px = \<lparr>dead = 0, unreliable = 0, rpcCount = 0, listener = False, px_peers = [''s''], px_me = 0\<rparr>,
     kv_gid = 1, kv_masters = [], kv_dir = ''d''\<rparr>"

definition demo_disk :: disk where
  "demo_disk = \<lparr>dirs = Map.empty, refuses = (\<lambda>d n. False)\<rparr>"

lemma demo_disk_ok: "disk_ok demo_kv demo_disk"
  by (simp add: disk_ok_def accepts_def demo_disk_def shard_files_def files_ok_def)


text \<open>C29: on a disk that accepts writes, \<open>filePut\<close> succeeds; afterwards \<open>fileGet\<close> of the same
  shard and key returns the content written, and of every other shard or key what it returned
  before. The directories keep the form \<open>fileReadShard\<close> needs.\<close>

theorem filePut_fileGet:
  assumes "disk_ok kv dk" and "0 \<le> shard" and "0 \<le> shard'"
  shows "\<exists>dk1 dk2 old dk3. filePut kv shard key content dk = Inr (True, dk1) \<and> disk_ok kv dk1 \<and>
    fileGet kv shard' key' dk = Inr (old, dk3) \<and>
    fileGet kv shard' key' dk1 =
      Inr (if shard' = shard \<and> key' = key then Some content else old, dk2)"
proof -
  let ?dk1 = "set_files kv shard (put_file key content (shard_files kv dk shard)) dk"
  have ac: "accepts kv dk" "accepts kv ?dk1" using assms(1) by (simp_all add: disk_ok_def)
  have "disk_ok kv ?dk1"
    using assms by (intro disk_ok_set_files files_ok_put) (simp_all add: disk_ok_def)
  moreover note filePut_eq [OF ac(1), of shard key content] fileGet_eq [OF ac(1), of shard' key']
    fileGet_eq [OF ac(2), of shard' key', unfolded shard_map_put [OF assms(2,3)]]
  ultimately show ?thesis by (simp only: prod.inject sum.inject) blast
qed

theorem filePut_fileGet_witness:
  "\<exists>dk1 dk2 old dk3. filePut demo_kv 3 ''a/b'' ''v'' demo_disk = Inr (True, dk1) \<and> disk_ok demo_kv dk1 \<and>
    fileGet demo_kv 3 ''a/b'' demo_disk = Inr (old, dk3) \<and>
    fileGet demo_kv 3 ''a/b'' dk1 = Inr (Some ''v'', dk2)"
  using filePut_fileGet [OF demo_disk_ok, of 3 3 "''a/b''" "''v''" "''a/b''"] by simp

text \<open>C30: replacing a shard and reading it back returns exactly the map that was written,
  whatever the order in which Go visits it; the other shards keep their contents.\<close>

theorem fileReplaceShard_fileReadShard:
  assumes "disk_ok kv dk" and "0 \<le> shard" and "distinct (map fst m)"
  shows "\<exists>dk1. fileReplaceShard kv shard m dk = Inr dk1 \<and>
    (\<forall>s\<ge>0. \<exists>dk2. fileReadShard kv s dk1 = Inr (if s = shard then map_of m else shard_map kv dk s, dk2))"
proof -
  obtain dk1 where dk1: "fileReplaceShard kv shard m dk = Inr dk1" "disk_ok kv dk1"
    "\<forall>s\<ge>0. shard_map kv dk1 s = (if s = shard then map_of m else shard_map kv dk s)"
    using fileReplaceShard_ok [OF assms] by blast
  with fileReadShard_eq [OF dk1(2)] show ?thesis by (auto intro!: exI [of _ dk1])
qed

theorem fileReplaceShard_fileReadShard_witness:
  "\<exists>dk1 dk2. fileReplaceShard demo_kv 2 [(''k'', ''1''), (''l'', ''2'')] demo_disk = Inr dk1 \<and>
    fileReadShard demo_kv 2 dk1 = Inr ([''k'' \<mapsto> ''1'', ''l'' \<mapsto> ''2''], dk2)"
proof -
  let ?m = "[(''k'', ''1''), (''l'', ''2'')]"
  have m: "map_of ?m = [''k'' \<mapsto> ''1'', ''l'' \<mapsto> ''2'']" by auto
  obtain dk1 where dk1: "fileReplaceShard demo_kv 2 ?m demo_disk = Inr dk1"
    "\<forall>s\<ge>0. \<exists>dk2. fileReadShard demo_kv s dk1 =
       Inr (if s = 2 then map_of ?m else shard_map demo_kv demo_disk s, dk2)"
    using fileReplaceShard_fileReadShard [OF demo_disk_ok, of 2 ?m] by auto
  have "\<exists>dk2. fileReadShard demo_kv 2 dk1 = Inr (map_of ?m, dk2)"
    using dk1(2) [rule_format, of 2] by simp
  with dk1(1) show ?thesis unfolding m by blast
qed



text \<open>C32: the name of a key's file determines the key, for keys of any bytes, and contains only
  capital letters, digits and the padding sign, hence no slash.\<close>

theorem encodeKey_roundtrip:
  "decodeKey (encodeKey key) = Some key \<and>
   set (encodeKey key) \<subseteq> set ''ABCDEFGHIJKLMNOPQRSTUVWXYZ234567=''"
proof
  show "decodeKey (encodeKey key) = Some key" by (rule decode_encodeKey)
  have "''ABCDEFGHIJKLMNOPQRSTUVWXYZ234567='' = alphabet @ ''=''" by (simp add: alphabet_def)
  then have "set ''ABCDEFGHIJKLMNOPQRSTUVWXYZ234567='' = insert CHR ''='' (set alphabet)"
    by (simp only: set_append) simp
  with encodeKey_chars [of key]
  show "set (encodeKey key) \<subseteq> set ''ABCDEFGHIJKLMNOPQRSTUVWXYZ234567=''" by (simp only:)
qed

section \<open>The lock service\<close>


section \<open>Socket servers\<close>

text \<open>A reliable server of the persistent key/value service that is not killed serves every
  connection it accepts, with its reply; once it is killed, while it waits for connection
  number \<open>length as\<close>, it serves neither that one nor any later one.\<close>

lemma kv_accept_serves:
  assumes "\<not> isdead kv" and "\<not> isunreliable kv" and "\<forall>a\<in>set as. conn_ok a \<and> \<not> killed a" and "killed a"
  shows "fst (accept_loop kv_accept as kv) = replicate (length as) Served \<and>
    length (filter served (fst (accept_loop kv_accept (as @ a # bs) kv))) \<le> length as"
  using dkv.loop_reliable [OF assms(1-3)] dkv.loop_stops [OF assms(4), of as bs kv] by blast

text \<open>The request counters of a Paxos peer and of the view server count, modulo \<open>2^32\<close>, the
  connections that were served, with or without their reply, and nothing else.\<close>

lemma rpcCount_counts_served:
  "rpcCount (snd (accept_loop px_accept as px)) =
     rpcCount px + of_nat (length (filter served (fst (accept_loop px_accept as px)))) \<and>
   rpcCount (snd (accept_loop vs_accept as vs)) =
     rpcCount vs + of_nat (length (filter served (fst (accept_loop vs_accept as vs))))"
  using px.loop_count vs.loop_count by blast

section \<open>Clerks\<close>

text \<open>A world for the witnesses: the number of calls and pauses so far. Master \<open>m1\<close> is never the
  leader, \<open>m2\<close> is from time 5 on; the group's second server answers.\<close>

definition demo_cfg :: Config where
  "demo_cfg = \<lparr>Num = 1, Shards = replicate 10 7, Groups = [7 \<mapsto> [''g1'', ''g2'']]\<rparr>"

definition demo_master :: "string \<Rightarrow> QueryArgs \<Rightarrow> nat \<Rightarrow> QueryReply option \<times> nat" where
  "demo_master srv args w =
     (Some \<lparr>WrongLeader = (srv \<noteq> ''m2'' \<or> w < 5), Err = ''OK'', QR_Config = demo_cfg\<rparr>, Suc w)"

definition demo_get :: "string \<Rightarrow> GetArgs \<Rightarrow> nat \<Rightarrow> GetReply option \<times> nat" where
  "demo_get srv args w =
     (if srv = ''g2'' then Some \<lparr>GR_WrongLeader = False, GR_Err = ''OK'', GR_Value = GA_Key args\<rparr> else None, Suc w)"

definition demo_put :: "string \<Rightarrow> PutAppendArgs \<Rightarrow> nat \<Rightarrow> PutAppendReply option \<times> nat" where
  "demo_put srv args w =
     (if srv = ''g2'' then Some \<lparr>PR_WrongLeader = False, PR_Err = ''OK''\<rparr> else None, Suc w)"

lemma demo_master_answers:
  "will_answer (\<lambda>srv. demo_master srv args) (\<lambda>reply. \<not> WrongLeader reply) (\<lambda>reply. False) [''m1'', ''m2''] {5..}"
  unfolding will_answer_def by (auto simp: demo_master_def)

text \<open>C36: the shardmaster clerk's \<open>Query\<close> returns once the system is, after any number \<open>k\<close> of
  failed rounds, in a state from which on one of the masters answers as the leader; what it
  returns is the configuration in the last reply, of a master that did not say it is not the
  leader.\<close>

theorem Query_returns:
  assumes "will_answer (\<lambda>srv. c srv \<lparr>QA_Num = num\<rparr>) (\<lambda>reply. \<not> WrongLeader reply) (\<lambda>reply. False) servers L"
    and "snd (Query c sleep servers k num w) \<in> L" and "k < n"
  shows "\<exists>cfg w'. Query c sleep servers n num w = (Some cfg, w') \<and>
    (\<exists>srv\<in>set servers. \<exists>u r. c srv \<lparr>QA_Num = num\<rparr> u = (Some r, w') \<and> \<not> WrongLeader r \<and> QR_Config r = cfg)"
proof -
  obtain cfg w' where q: "Query c sleep servers n num w = (Some cfg, w')"
    using Query_answers [OF assms] by (metis prod.collapse)
  from Query_reply [OF q] q show ?thesis by blast
qed

theorem Query_returns_witness:
  "\<exists>cfg w'. Query demo_master Suc [''m1'', ''m2''] 3 (-1) 0 = (Some cfg, w') \<and> Num cfg = 1"
proof -
  have "5 \<le> snd (Query demo_master Suc [''m1'', ''m2''] 2 (-1) 0)" by code_simp
  then have "snd (Query demo_master Suc [''m1'', ''m2''] 2 (-1) 0) \<in> {5..}" by simp
  from Query_returns [OF demo_master_answers this, of 3] show ?thesis
    by (auto simp: demo_master_def demo_cfg_def)
qed

text \<open>C37: a value that the sharded clerk's \<open>Get\<close> returns is the value in a reply, with result
  \<open>OK\<close> or \<open>ErrNoKey\<close> and not from a follower, of a server of the group to which the clerk's
  configuration assigns the key's shard; that configuration is the one it started with or one
  the shardmaster returned. With configurations of ten shards \<open>Get\<close> never panics.\<close>

theorem Get_from_responsible_group:
  assumes "config_ok cfg" and "\<forall>u cfg'. fst (query u) = Some cfg' \<longrightarrow> config_ok cfg'"
  shows "\<exists>ov cfg' w'. Get c query sleep key n cfg w = Inr (ov, cfg', w') \<and>
    (\<forall>v. ov = Some v \<longrightarrow> (cfg' = cfg \<or> (\<exists>u. fst (query u) = Some cfg')) \<and>
      (\<exists>servers srv u r. Groups cfg' (Shards cfg' ! nat (key2shard key)) = Some servers \<and> srv \<in> set servers \<and>
        c srv \<lparr>GA_Key = key\<rparr> u = (Some r, w') \<and> GR_Value r = v \<and> \<not> GR_WrongLeader r \<and>
        (GR_Err r = ''OK'' \<or> GR_Err r = ''ErrNoKey'')))"
proof -
  let ?loop = "shard_loop (\<lambda>srv. c srv \<lparr>GA_Key = key\<rparr>)
        (\<lambda>reply. \<not> GR_WrongLeader reply \<and> (GR_Err reply = ''OK'' \<or> GR_Err reply = ''ErrNoKey''))
        (\<lambda>reply. GR_Err reply = ''ErrWrongGroup'') query sleep key n cfg w"
  have "\<exists>res. ?loop = Inr res"
    by (rule shard_loop_no_panic [OF assms(1)]) (use assms(2) in blast)
  then obtain res where "?loop = Inr res" by blast
  moreover obtain o1 cfg' w' where "res = (o1, cfg', w')" by (cases res)
  ultimately have l: "?loop = Inr (o1, cfg', w')" by (simp only:)
  then have g: "Get c query sleep key n cfg w = Inr (map_option GR_Value o1, cfg', w')"
    by (simp add: Get_def Let_def)
  show ?thesis
  proof (cases o1)
    case None
    with g show ?thesis by simp
  next
    case (Some r)
    from shard_loop_reply [OF l [unfolded Some]] obtain gid servers srv u where
      r: "\<not> GR_WrongLeader r" "GR_Err r = ''OK'' \<or> GR_Err r = ''ErrNoKey''" "held query cfg cfg'"
      "go_idx (Shards cfg') (key2shard key) = Inr gid" "Groups cfg' gid = Some servers" "srv \<in> set servers"
      "c srv \<lparr>GA_Key = key\<rparr> u = (Some r, w')" by blast
    have "gid = Shards cfg' ! nat (key2shard key)" using r(4) by (simp add: go_idx_Inr)
    with r(5-7) have "\<exists>servers srv u r. Groups cfg' (Shards cfg' ! nat (key2shard key)) = Some servers \<and>
        srv \<in> set servers \<and> c srv \<lparr>GA_Key = key\<rparr> u = (Some r, w') \<and> GR_Value r = v \<and> \<not> GR_WrongLeader r \<and>
        (GR_Err r = ''OK'' \<or> GR_Err r = ''ErrNoKey'')" if "map_option GR_Value o1 = Some v" for v
      using that r(1,2) unfolding Some by (simp only: option.map option.inject) blast
    with g r(3) show ?thesis unfolding held_def by blast
  qed
qed

theorem Get_from_responsible_group_witness:
  "\<exists>ov cfg' w'. Get demo_get (Query demo_master Suc [''m1'', ''m2''] 9 (-1)) Suc ''key'' 2 zero_config 0 =
     Inr (ov, cfg', w') \<and> (\<forall>v. ov = Some v \<longrightarrow> v = ''key'')"
proof -
  let ?q = "Query demo_master Suc [''m1'', ''m2''] 9 (-1)"
  have z: "config_ok zero_config" by (simp add: config_ok_def zero_config_def NShards_def)
  have q: "\<forall>u cfg. fst (?q u) = Some cfg \<longrightarrow> config_ok cfg"
  proof (intro allI impI)
    fix u cfg assume "fst (?q u) = Some cfg"
    then obtain w' where "?q u = (Some cfg, w')" by (cases "?q u") auto
    from Query_reply [OF this] show "config_ok cfg"
      by (auto simp: demo_master_def demo_cfg_def config_ok_def NShards_def)
  qed
  from Get_from_responsible_group [where c = demo_get and sleep = Suc and key = "''key''" and n = 2 and w = 0,
      OF z q] obtain ov cfg' w' where
    g: "Get demo_get ?q Suc ''key'' 2 zero_config 0 = Inr (ov, cfg', w')"
    "\<forall>v. ov = Some v \<longrightarrow> (\<exists>srv u r. demo_get srv \<lparr>GA_Key = ''key''\<rparr> u = (Some r, w') \<and> GR_Value r = v)" by blast
  have "v = ''key''" if "ov = Some v" for v
    using g(2) that by (auto simp: demo_get_def split: if_splits)
  with g(1) show ?thesis by blast
qed

text \<open>C38: a clerk recovers from any stale configuration. When the system is in a state from
  which on the masters answer with a configuration and the group it assigns the key's shard to
  answers, \<open>PutAppend\<close> returns within two rounds.\<close>

theorem PutAppend_recovers:
  assumes "config_ok cfg0"
    and closed: "\<And>w srv. w \<in> L \<Longrightarrow> snd (c srv \<lparr>PA_Key = key, PA_Value = val, PA_Op = op\<rparr> w) \<in> L"
      "\<And>w. w \<in> L \<Longrightarrow> sleep w \<in> L" "\<And>w srv. w \<in> L \<Longrightarrow> snd (mc srv \<lparr>QA_Num = -1\<rparr> w) \<in> L"
    and masters: "will_answer (\<lambda>srv. mc srv \<lparr>QA_Num = -1\<rparr>) (\<lambda>reply. \<not> WrongLeader reply) (\<lambda>reply. False) ms L"
      "\<And>w srv r. fst (mc srv \<lparr>QA_Num = -1\<rparr> w) = Some r \<Longrightarrow> \<not> WrongLeader r \<Longrightarrow> QR_Config r = cfg"
    and grp: "config_ok cfg" "Groups cfg (Shards cfg ! nat (key2shard key)) = Some servers"
      "will_answer (\<lambda>srv. c srv \<lparr>PA_Key = key, PA_Value = val, PA_Op = op\<rparr>)
        (\<lambda>reply. \<not> PR_WrongLeader reply \<and> PR_Err reply = ''OK'')
        (\<lambda>reply. PR_Err reply = ''ErrWrongGroup'') servers L"
    and w: "w \<in> L" and fuel: "0 < m" "2 \<le> n"
  shows "\<exists>cfg' w'. PutAppend c (Query mc sleep ms m (-1)) sleep key val op n cfg0 w = Inr (Some (), cfg', w')"
proof -
  let ?q = "Query mc sleep ms m (-1)"
  have q: "\<exists>w'\<in>L. ?q w = (Some cfg, w')" if w: "w \<in> L" for w
  proof -
    have "snd (Query mc sleep ms 0 (-1) w) \<in> L" using w by (simp add: Query_def)
    from Query_answers [OF masters(1) this fuel(1)] obtain cfg1 w' where q: "?q w = (Some cfg1, w')"
      by (metis prod.collapse)
    have "snd (?q w) \<in> L" by (rule Query_closed) (use closed(2,3) w in auto)
    then have "w' \<in> L" by (simp add: q)
    moreover obtain srv u r where r: "mc srv \<lparr>QA_Num = -1\<rparr> u = (Some r, w')" "\<not> WrongLeader r" "QR_Config r = cfg1"
      using Query_reply [OF q] by blast
    have "cfg1 = cfg" unfolding r(3) [symmetric] by (rule masters(2) [of srv u]) (simp_all add: r)
    ultimately show ?thesis using q by blast
  qed
  have gi: "go_idx (Shards cfg) (key2shard key) = Inr (Shards cfg ! nat (key2shard key))"
    using grp(1) key2shard_range [of key] by (simp add: go_idx_def config_ok_def)
  have "\<exists>r cfg' w'. shard_loop (\<lambda>srv. c srv \<lparr>PA_Key = key, PA_Value = val, PA_Op = op\<rparr>)
      (\<lambda>reply. \<not> PR_WrongLeader reply \<and> PR_Err reply = ''OK'') (\<lambda>reply. PR_Err reply = ''ErrWrongGroup'')
      ?q sleep key n cfg0 w = Inr (Some r, cfg', w') \<and> \<not> PR_WrongLeader r \<and> PR_Err r = ''OK''"
    by (rule shard_loop_recovers [OF assms(1) _ _ _ gi grp(2,3) w fuel(2)]) (use closed(1,2) q in auto)
  then show ?thesis by (auto simp: PutAppend_def Let_def)
qed

theorem PutAppend_recovers_witness:
  "\<exists>cfg' w'. PutAppend demo_put (Query demo_master Suc [''m1'', ''m2''] 1 (-1)) Suc ''key'' ''v'' ''Put'' 2
     zero_config 5 = Inr (Some (), cfg', w')"
proof (rule PutAppend_recovers [where L = "{5..}" and cfg = demo_cfg and servers = "[''g1'', ''g2'']"])
  show "config_ok zero_config" "config_ok demo_cfg"
    by (simp_all add: config_ok_def zero_config_def demo_cfg_def NShards_def)
  show "Groups demo_cfg (Shards demo_cfg ! nat (key2shard ''key'')) = Some [''g1'', ''g2'']" by code_simp
  show "will_answer (\<lambda>srv. demo_put srv \<lparr>PA_Key = ''key'', PA_Value = ''v'', PA_Op = ''Put''\<rparr>)
      (\<lambda>reply. \<not> PR_WrongLeader reply \<and> PR_Err reply = ''OK'')
      (\<lambda>reply. PR_Err reply = ''ErrWrongGroup'') [''g1'', ''g2''] {5..}"
    unfolding will_answer_def by (auto simp: demo_put_def)
qed (auto simp: demo_put_def demo_master_def intro: demo_master_answers)

end
