(* ===== verification/Service_Config.thy ===== *)
theory Service_Config
  imports Raft_Config Shard_Clerk "HOL-Library.Multiset"
begin

text \<open>
  The Raft based services and their test harnesses: the key/value server
  (\<^verbatim>\<open>src/kvraft/server.go\<close>) with \<^verbatim>\<open>src/kvraft/config.go\<close>, and the shardmaster
  (\<^verbatim>\<open>src/shardmaster/server.go\<close>) with \<^verbatim>\<open>src/shardmaster/config.go\<close>. The request handlers of
  both servers are empty in the source. The two harnesses differ only in the server they start,
  so what concerns the network is stated once, over a configuration with servers of any type.

  The operation that a service hands to Raft is the empty struct \<open>Op\<close>, here the unit type. A
  nil slice is \<^const>\<open>None\<close>; indexing it panics as indexing an empty slice does.
\<close>

section \<open>Servers\<close>

record RaftKV =
  rk_me :: int
  rk_rf :: "unit Raft"
  rk_maxraftstate :: int

definition StartKVServer :: "nat list \<Rightarrow> int \<Rightarrow> unit gob Persister \<Rightarrow> int \<Rightarrow> RaftKV" where
  "StartKVServer ends i pst maxraftstate =
     \<lparr>rk_me = i, rk_rf = Make ends i pst, rk_maxraftstate = maxraftstate\<rparr>"

definition rk_Kill :: "RaftKV \<Rightarrow> RaftKV" where
  "rk_Kill kv = kv\<lparr>rk_rf := Kill (rk_rf kv)\<rparr>"

record ShardMaster =
  sm_me :: int
  sm_rf :: "unit Raft"
  sm_configs :: "Config list"

definition sm_StartServer :: "nat list \<Rightarrow> int \<Rightarrow> unit gob Persister \<Rightarrow> ShardMaster" where
  "sm_StartServer ends i pst =
     \<lparr>sm_me = i, sm_rf = Make ends i pst, sm_configs = [zero_config\<lparr>Groups := Map.empty\<rparr>]\<rparr>"

definition sm_Kill :: "ShardMaster \<Rightarrow> ShardMaster" where
  "sm_Kill sm = sm\<lparr>sm_rf := Kill (sm_rf sm)\<rparr>"

definition sm_Raft :: "ShardMaster \<Rightarrow> unit Raft" where
  "sm_Raft sm = sm_rf sm"

definition sm_methods :: "(unit, unit) rmethod list" where
  "sm_methods = [reflected ''Join'' 3 0, reflected ''Kill'' 1 0, reflected ''Leave'' 3 0, reflected ''Move'' 3 0,
     reflected ''Query'' 3 0, reflected ''Raft'' 1 1]"

section \<open>The harness\<close>

type_synonym svc_net = "(string, int, unit, unit) Network"

record 's svc_config =
  sc_net :: svc_net
  sc_n :: nat
  sc_servers :: "'s option list"
  sc_saved :: "unit gob Persister option list"
  sc_endnames :: "string list option list"
  sc_clerks :: "nat \<rightharpoonup> string list"
  sc_nextClientId :: int
  sc_maxraftstate :: int

text \<open>\<open>random_handles\<close>: \<open>js\<close> are the random numbers, \<open>js ! i\<close> at most \<open>i\<close>.\<close>

definition swap :: "nat \<Rightarrow> nat \<Rightarrow> 'a list \<Rightarrow> 'a list" where
  "swap i j xs = xs[i := xs ! j, j := xs ! i]"

definition random_handles :: "(nat \<Rightarrow> nat) \<Rightarrow> 'a list \<Rightarrow> 'a list" where
  "random_handles js kvh = fold (\<lambda>i. swap i (js i)) [0..<length kvh] kvh"

definition LogSize :: "'s svc_config \<Rightarrow> int go" where
  "LogSize cfg =
     gfold (\<lambda>i logsize.
       gbind (go_idx (sc_saved cfg) i) (\<lambda>s.
       case s of
         None \<Rightarrow> Inl NilDereference
       | Some ps \<Rightarrow> Inr (if RaftStateSize ps > logsize then RaftStateSize ps else logsize)))
     [0..int (sc_n cfg) - 1] 0"

subsection \<open>Connections between servers\<close>

definition go_name :: "'s svc_config \<Rightarrow> int \<Rightarrow> int \<Rightarrow> string go" where
  "go_name cfg i j =
     gbind (go_idx (sc_endnames cfg) i) (\<lambda>es.
     case es of None \<Rightarrow> Inl IndexOutOfRange | Some es \<Rightarrow> go_idx es j)"

definition connectUnlocked :: "int \<Rightarrow> int list \<Rightarrow> 's svc_config \<Rightarrow> 's svc_config go" where
  "connectUnlocked i to cfg =
     gbind (gfold (\<lambda>t net. gbind (go_name cfg i t) (\<lambda>e. Inr (Enable e True net))) to (sc_net cfg)) (\<lambda>net.
     gbind (gfold (\<lambda>t net. gbind (go_name cfg t i) (\<lambda>e. Inr (Enable e True net))) to net) (\<lambda>net.
     Inr (cfg\<lparr>sc_net := net\<rparr>)))"

text \<open>The second loop tests \<open>endnames[j]\<close> where \<open>endnames[from[j]]\<close> is meant.\<close>

definition disconnectUnlocked :: "int \<Rightarrow> int list \<Rightarrow> 's svc_config \<Rightarrow> 's svc_config go" where
  "disconnectUnlocked i frm cfg =
     gbind (gfold (\<lambda>f net.
       gbind (go_idx (sc_endnames cfg) i) (\<lambda>es.
       if es \<noteq> None then gbind (go_name cfg i f) (\<lambda>e. Inr (Enable e False net)) else Inr net))
       frm (sc_net cfg)) (\<lambda>net.
     gbind (gfold (\<lambda>(j, f) net.
       gbind (go_idx (sc_endnames cfg) (int j)) (\<lambda>es.
       if es \<noteq> None then gbind (go_name cfg f i) (\<lambda>e. Inr (Enable e False net)) else Inr net))
       (List.enumerate 0 frm) net) (\<lambda>net.
     Inr (cfg\<lparr>sc_net := net\<rparr>)))"

definition All_cfg :: "'s svc_config \<Rightarrow> int list" where
  "All_cfg cfg = [0..int (sc_n cfg) - 1]"

definition ConnectAll :: "'s svc_config \<Rightarrow> 's svc_config go" where
  "ConnectAll cfg = gfold (\<lambda>i cfg. connectUnlocked i (All_cfg cfg) cfg) [0..int (sc_n cfg) - 1] cfg"

definition partition_cfg :: "int list \<Rightarrow> int list \<Rightarrow> 's svc_config \<Rightarrow> 's svc_config go" where
  "partition_cfg p1 p2 cfg =
     gbind (gfold (\<lambda>i cfg. gbind (disconnectUnlocked i p2 cfg) (connectUnlocked i p1)) p1 cfg) (\<lambda>cfg.
     gfold (\<lambda>i cfg. gbind (disconnectUnlocked i p1 cfg) (connectUnlocked i p2)) p2 cfg)"

subsection \<open>Clients\<close>

definition ConnectClientUnlocked :: "nat \<Rightarrow> int list \<Rightarrow> 's svc_config \<Rightarrow> 's svc_config go" where
  "ConnectClientUnlocked ck to cfg =
     (let endnames = map_zero [] (sc_clerks cfg) ck in
      gbind (gfold (\<lambda>t net. gbind (go_idx endnames t) (\<lambda>s. Inr (Enable s True net))) to (sc_net cfg)) (\<lambda>net.
      Inr (cfg\<lparr>sc_net := net\<rparr>)))"

definition DisconnectClientUnlocked :: "nat \<Rightarrow> int list \<Rightarrow> 's svc_config \<Rightarrow> 's svc_config go" where
  "DisconnectClientUnlocked ck frm cfg =
     (let endnames = map_zero [] (sc_clerks cfg) ck in
      gbind (gfold (\<lambda>f net. gbind (go_idx endnames f) (\<lambda>s. Inr (Enable s False net))) frm (sc_net cfg)) (\<lambda>net.
      Inr (cfg\<lparr>sc_net := net\<rparr>)))"

definition svc_make_ends :: "string list \<Rightarrow> nat \<Rightarrow> svc_net \<Rightarrow> svc_net go" where
  "svc_make_ends names n net =
     gfold (\<lambda>j net. gbind (MakeEnd (names ! j) net) (\<lambda>net. Inr (Connect (names ! j) (int j) net))) [0..<n] net"

text \<open>\<open>names\<close> are the random names of the client's end points and \<open>ck\<close> is the address of the
  new clerk; the result is the clerk's shuffled handles.\<close>

definition makeClient ::
  "string list \<Rightarrow> (nat \<Rightarrow> nat) \<Rightarrow> nat \<Rightarrow> int list \<Rightarrow> 's svc_config \<Rightarrow> (string list \<times> 's svc_config) go" where
  "makeClient names js ck to cfg =
     gbind (svc_make_ends names (sc_n cfg) (sc_net cfg)) (\<lambda>net.
     let handles = random_handles js names;
         cfg = cfg\<lparr>sc_net := net, sc_clerks := (sc_clerks cfg)(ck \<mapsto> names),
                   sc_nextClientId := sc_nextClientId cfg + 1\<rparr> in
     gbind (ConnectClientUnlocked ck to cfg) (\<lambda>cfg. Inr (handles, cfg)))"

definition deleteClient :: "nat \<Rightarrow> 's svc_config \<Rightarrow> 's svc_config" where
  "deleteClient ck cfg = cfg\<lparr>sc_clerks := (sc_clerks cfg)(ck := None)\<rparr>"

subsection \<open>Starting and stopping servers\<close>

text \<open>The persister a running server writes to is the one the harness holds; \<open>rf\<close> reads the
  server's Raft peer.\<close>

definition svc_saved :: "('s \<Rightarrow> unit Raft) \<Rightarrow> nat \<Rightarrow> 's svc_config \<Rightarrow> unit gob Persister option" where
  "svc_saved rf i cfg = (case sc_servers cfg ! i of
     Some kv \<Rightarrow> map_option (\<lambda>_. persister (rf kv)) (sc_saved cfg ! i) | None \<Rightarrow> sc_saved cfg ! i)"

definition svc_Shutdown :: "('s \<Rightarrow> unit Raft) \<Rightarrow> nat \<Rightarrow> 's svc_config \<Rightarrow> 's svc_config go" where
  "svc_Shutdown rf i cfg =
     gbind (disconnectUnlocked (int i) (All_cfg cfg) cfg) (\<lambda>cfg.
     let cfg = cfg\<lparr>sc_net := DeleteServer (int i) (sc_net cfg)\<rparr>;
         saved = map_option Copy (svc_saved rf i cfg)
     in Inr (cfg\<lparr>sc_saved := (sc_saved cfg)[i := saved], sc_servers := (sc_servers cfg)[i := None]\<rparr>))"

definition svc_Start ::
  "(nat list \<Rightarrow> int \<Rightarrow> unit gob Persister \<Rightarrow> int \<Rightarrow> 's) \<Rightarrow> ('s \<Rightarrow> unit Raft) \<Rightarrow> string \<Rightarrow>
   (unit, unit) rmethod list \<Rightarrow> string list \<Rightarrow> nat \<Rightarrow>
   's svc_config \<Rightarrow> 's svc_config go" where
  "svc_Start start rf typename ms names i cfg =
     (let cfg = cfg\<lparr>sc_endnames := (sc_endnames cfg)[i := Some names]\<rparr> in
      gbind (svc_make_ends names (sc_n cfg) (sc_net cfg)) (\<lambda>net.
      let saved = (case svc_saved rf i cfg of Some ps \<Rightarrow> Copy ps | None \<Rightarrow> MakePersister);
          kv = start [0..<sc_n cfg] (int i) saved (sc_maxraftstate cfg);
          srv = AddService (MakeService ''Raft'' () raft_methods) (AddService (MakeService typename () ms) MakeServer);
          (a, net) = new_server srv net
      in Inr (cfg\<lparr>sc_saved := (sc_saved cfg)[i := Some saved], sc_servers := (sc_servers cfg)[i := Some kv],
                  sc_net := AddServer (int i) a net\<rparr>)))"

definition svc_Leader :: "('s \<Rightarrow> unit Raft) \<Rightarrow> 's svc_config \<Rightarrow> (bool \<times> int) go" where
  "svc_Leader rf cfg =
     gbind (gfold (\<lambda>i found.
       if found \<noteq> None then Inr found
       else gbind (go_idx (sc_servers cfg) i) (\<lambda>s.
         case s of
           None \<Rightarrow> Inl NilDereference
         | Some kv \<Rightarrow> Inr (if snd (GetState (rf kv)) then Some i else None)))
       [0..int (sc_n cfg) - 1] None) (\<lambda>found.
     Inr (case found of Some i \<Rightarrow> (True, i) | None \<Rightarrow> (False, 0)))"

definition partition_slot :: "int \<Rightarrow> int \<Rightarrow> int \<times> int list \<times> int list \<Rightarrow> (int \<times> int list \<times> int list) go" where
  "partition_slot l i s =
     (case s of (j, p1, p2) \<Rightarrow>
        if i \<noteq> l then
          (if j < int (length p1) then gbind (go_upd p1 j i) (\<lambda>p1. Inr (j + 1, p1, p2))
           else gbind (go_upd p2 (j - int (length p1)) i) (\<lambda>p2. Inr (j + 1, p1, p2)))
        else Inr s)"

definition svc_make_partition :: "('s \<Rightarrow> unit Raft) \<Rightarrow> 's svc_config \<Rightarrow> (int list \<times> int list) go" where
  "svc_make_partition rf cfg =
     gbind (svc_Leader rf cfg) (\<lambda>(_, l).
     gbind (gfold (partition_slot l) [0..int (sc_n cfg) - 1]
       (0, replicate (sc_n cfg div 2 + 1) 0, replicate (sc_n cfg div 2) 0)) (\<lambda>(j, p1, p2).
     gbind (go_upd p2 (int (length p2) - 1) l) (\<lambda>p2.
     Inr (p1, p2))))"

definition svc_cleanup :: "('s \<Rightarrow> 's) \<Rightarrow> 's svc_config \<Rightarrow> 's svc_config" where
  "svc_cleanup kill cfg = cfg\<lparr>sc_servers := map (map_option kill) (sc_servers cfg)\<rparr>"

definition svc_empty :: "nat \<Rightarrow> int \<Rightarrow> 's svc_config" where
  "svc_empty n maxraftstate = \<lparr>sc_net = MakeNetwork, sc_n = n, sc_servers = replicate n None,
     sc_saved = replicate n None, sc_endnames = replicate n None, sc_clerks = Map.empty,
     sc_nextClientId = int n + 1000, sc_maxraftstate = maxraftstate\<rparr>"

definition svc_make_config ::
  "(string list \<Rightarrow> nat \<Rightarrow> 's svc_config \<Rightarrow> 's svc_config go) \<Rightarrow> (nat \<Rightarrow> string list) \<Rightarrow> nat \<Rightarrow> bool \<Rightarrow> int \<Rightarrow>
   's svc_config go" where
  "svc_make_config start names n unreliable maxraftstate =
     gbind (gfold (\<lambda>i. start (names i) i) [0..<n] (svc_empty n maxraftstate)) (\<lambda>cfg.
     gbind (ConnectAll cfg) (\<lambda>cfg.
     Inr (cfg\<lparr>sc_net := Reliable (\<not> unreliable) (sc_net cfg)\<rparr>)))"

subsection \<open>The two harnesses\<close>

definition kv_ShutdownServer :: "nat \<Rightarrow> RaftKV svc_config \<Rightarrow> RaftKV svc_config go" where
  "kv_ShutdownServer = svc_Shutdown rk_rf"

definition kv_cfg_StartServer :: "string list \<Rightarrow> nat \<Rightarrow> RaftKV svc_config \<Rightarrow> RaftKV svc_config go" where
  "kv_cfg_StartServer = svc_Start StartKVServer rk_rf ''RaftKV''
     [reflected ''Get'' 3 0, reflected ''Kill'' 1 0, reflected ''PutAppend'' 3 0]"

definition kv_Leader :: "RaftKV svc_config \<Rightarrow> (bool \<times> int) go" where
  "kv_Leader = svc_Leader rk_rf"

definition make_partition :: "RaftKV svc_config \<Rightarrow> (int list \<times> int list) go" where
  "make_partition = svc_make_partition rk_rf"

definition kv_cleanup :: "RaftKV svc_config \<Rightarrow> RaftKV svc_config" where
  "kv_cleanup = svc_cleanup rk_Kill"

definition kv_make_config :: "(nat \<Rightarrow> string list) \<Rightarrow> nat \<Rightarrow> bool \<Rightarrow> int \<Rightarrow> RaftKV svc_config go" where
  "kv_make_config = svc_make_config kv_cfg_StartServer"

definition sm_ShutdownServer :: "nat \<Rightarrow> ShardMaster svc_config \<Rightarrow> ShardMaster svc_config go" where
  "sm_ShutdownServer = svc_Shutdown sm_rf"

definition sm_cfg_StartServer :: "string list \<Rightarrow> nat \<Rightarrow> ShardMaster svc_config \<Rightarrow> ShardMaster svc_config go" where
  "sm_cfg_StartServer = svc_Start (\<lambda>ends i pst mrs. sm_StartServer ends i pst) sm_rf ''ShardMaster'' sm_methods"

definition sm_Leader :: "ShardMaster svc_config \<Rightarrow> (bool \<times> int) go" where
  "sm_Leader = svc_Leader sm_rf"

definition sm_make_partition :: "ShardMaster svc_config \<Rightarrow> (int list \<times> int list) go" where
  "sm_make_partition = svc_make_partition sm_rf"

definition sm_cleanup :: "ShardMaster svc_config \<Rightarrow> ShardMaster svc_config" where
  "sm_cleanup = svc_cleanup sm_Kill"

text \<open>The shardmaster's harness has no limit on the size of Raft's state.\<close>

definition sm_make_config :: "(nat \<Rightarrow> string list) \<Rightarrow> nat \<Rightarrow> bool \<Rightarrow> ShardMaster svc_config go" where
  "sm_make_config names n unreliable = svc_make_config sm_cfg_StartServer names n unreliable 0"

end
