(* ===== verification/Service_Correct.thy ===== *)
theory Service_Correct
  imports Service_Config
begin

text \<open>
  What the harnesses of the Raft based services do to the network: connections, partitions and
  the choice of a partition that leaves the leader in the minority.
\<close>

section \<open>Links between servers\<close>

text \<open>All servers have been started, and their end points have different names.\<close>

definition all_started :: "'s svc_config \<Rightarrow> bool" where
  "all_started cfg \<longleftrightarrow> length (sc_endnames cfg) = sc_n cfg \<and>
     (\<forall>es\<in>set (sc_endnames cfg). \<exists>ns. es = Some ns \<and> length ns = sc_n cfg)"

definition end_name :: "'s svc_config \<Rightarrow> int \<Rightarrow> int \<Rightarrow> string" where
  "end_name cfg i j = the (sc_endnames cfg ! nat i) ! nat j"

definition servers_of :: "'s svc_config \<Rightarrow> int set" where
  "servers_of cfg = {0..<int (sc_n cfg)}"

definition names_differ :: "'s svc_config \<Rightarrow> bool" where
  "names_differ cfg \<longleftrightarrow> (\<forall>i\<in>servers_of cfg. \<forall>j\<in>servers_of cfg. \<forall>i'\<in>servers_of cfg. \<forall>j'\<in>servers_of cfg.
     end_name cfg i j = end_name cfg i' j' \<longrightarrow> i = i' \<and> j = j')"

definition svc_ok :: "'s svc_config \<Rightarrow> bool" where
  "svc_ok cfg \<longleftrightarrow> all_started cfg \<and> names_differ cfg"

definition link :: "'s svc_config \<Rightarrow> int \<Rightarrow> int \<Rightarrow> bool" where
  "link cfg i j = link_on (sc_net cfg) (end_name cfg i j)"

lemma frame_simps [simp]:
  "svc_ok (cfg\<lparr>sc_net := net\<rparr>) = svc_ok cfg"
  "end_name (cfg\<lparr>sc_net := net\<rparr>) = end_name cfg"
  "servers_of (cfg\<lparr>sc_net := net\<rparr>) = servers_of cfg"
  by (auto simp: svc_ok_def all_started_def names_differ_def end_name_def servers_of_def fun_eq_iff)

lemma go_name_ok:
  assumes "svc_ok cfg" and "i \<in> servers_of cfg" and "j \<in> servers_of cfg"
  shows "go_name cfg i j = Inr (end_name cfg i j)" "go_idx (sc_endnames cfg) i \<noteq> Inr None"
    "\<exists>ns. go_idx (sc_endnames cfg) i = Inr (Some ns)"
proof -
  have i: "nat i < length (sc_endnames cfg)" "0 \<le> i" "i < int (length (sc_endnames cfg))"
    using assms(1,2) by (auto simp: svc_ok_def all_started_def servers_of_def)
  then obtain ns where ns: "sc_endnames cfg ! nat i = Some ns" "length ns = sc_n cfg"
    using assms(1) unfolding svc_ok_def all_started_def by (metis nth_mem)
  then have g: "go_idx (sc_endnames cfg) i = Inr (Some ns)" using i by (simp add: go_idx_def)
  then show "go_idx (sc_endnames cfg) i \<noteq> Inr None" "\<exists>ns. go_idx (sc_endnames cfg) i = Inr (Some ns)" by simp_all
  show "go_name cfg i j = Inr (end_name cfg i j)"
    unfolding go_name_def g using assms(3) ns by (simp add: go_idx_def end_name_def servers_of_def)
qed

lemma end_name_inject:
  assumes "svc_ok cfg" and "i \<in> servers_of cfg" "j \<in> servers_of cfg" "i' \<in> servers_of cfg" "j' \<in> servers_of cfg"
  shows "end_name cfg i j = end_name cfg i' j' \<longleftrightarrow> i = i' \<and> j = j'"
  using assms unfolding svc_ok_def names_differ_def by blast

text \<open>Switching the links between a server and a list of servers, in both directions.\<close>

definition switch_net :: "'s svc_config \<Rightarrow> bool \<Rightarrow> int \<Rightarrow> int list \<Rightarrow> svc_net" where
  "switch_net cfg b i to = fold (\<lambda>e. Enable e b) (map (\<lambda>t. end_name cfg t i) to)
     (fold (\<lambda>e. Enable e b) (map (\<lambda>t. end_name cfg i t) to) (sc_net cfg))"

lemma switch_net_link:
  assumes "svc_ok cfg" and "i \<in> servers_of cfg" and "set to \<subseteq> servers_of cfg"
    and "a \<in> servers_of cfg" and "c \<in> servers_of cfg"
  shows "link (cfg\<lparr>sc_net := switch_net cfg b i to\<rparr>) a c =
    (if a = i \<and> c \<in> set to \<or> c = i \<and> a \<in> set to then b else link cfg a c)"
proof -
  have "end_name cfg a c \<in> set (map (\<lambda>t. end_name cfg i t) to) \<longleftrightarrow> a = i \<and> c \<in> set to"
    "end_name cfg a c \<in> set (map (\<lambda>t. end_name cfg t i) to) \<longleftrightarrow> c = i \<and> a \<in> set to"
    using assms(3) by (auto simp: end_name_inject [OF assms(1)] assms(2,4,5) subset_iff image_iff)
  then show ?thesis
    unfolding link_def switch_net_def by (simp add: net_links.on_fold)
qed

lemma connectUnlocked_eq:
  assumes "svc_ok cfg" and "i \<in> servers_of cfg" and "set to \<subseteq> servers_of cfg"
  shows "connectUnlocked i to cfg = Inr (cfg\<lparr>sc_net := switch_net cfg True i to\<rparr>)"
proof -
  have "gfold (\<lambda>t net. gbind (go_name cfg i t) (\<lambda>e. Inr (Enable e True net))) to net =
      Inr (fold (\<lambda>t. Enable (end_name cfg i t) True) to net)"
    "gfold (\<lambda>t net. gbind (go_name cfg t i) (\<lambda>e. Inr (Enable e True net))) to net =
      Inr (fold (\<lambda>t. Enable (end_name cfg t i) True) to net)" for net :: svc_net
    using assms(3) by (auto intro!: gfold_Inr simp: go_name_ok(1) [OF assms(1)] assms(2) subset_iff)
  then show ?thesis by (simp add: connectUnlocked_def switch_net_def fold_map comp_def)
qed

lemma gfold_enumerate:
  assumes "\<And>j f s. j < k + length xs \<Longrightarrow> f \<in> set xs \<Longrightarrow> F (j, f) s = Inr (g f s)"
  shows "gfold F (List.enumerate k xs) s = Inr (fold g xs s)"
  using assms
proof (induction xs arbitrary: k s)
  case (Cons x xs)
  have "F (k, x) s = Inr (g x s)" using Cons.prems [of k x s] by simp
  moreover have "gfold F (List.enumerate (Suc k) xs) (g x s) = Inr (fold g xs (g x s))"
    using Cons.prems by (intro Cons.IH) simp
  ultimately show ?case by simp
qed simp

lemma disconnectUnlocked_eq:
  assumes "svc_ok cfg" and "i \<in> servers_of cfg" and "set frm \<subseteq> servers_of cfg" and "length frm \<le> sc_n cfg"
  shows "disconnectUnlocked i frm cfg = Inr (cfg\<lparr>sc_net := switch_net cfg False i frm\<rparr>)"
proof -
  have started: "\<exists>ns. go_idx (sc_endnames cfg) k = Inr (Some ns)" if "k \<in> servers_of cfg" for k
    using go_name_ok(3) [OF assms(1) that assms(2)] .
  have 1: "gfold (\<lambda>f net. gbind (go_idx (sc_endnames cfg) i) (\<lambda>es.
       if es \<noteq> None then gbind (go_name cfg i f) (\<lambda>e. Inr (Enable e False net)) else Inr net)) frm net =
     Inr (fold (\<lambda>f. Enable (end_name cfg i f) False) frm net)" for net :: svc_net
  proof (rule gfold_Inr)
    fix f net assume "f \<in> set frm"
    then have "go_name cfg i f = Inr (end_name cfg i f)" using assms(3) go_name_ok(1) [OF assms(1,2)] by blast
    with started [OF assms(2)]
    show "gbind (go_idx (sc_endnames cfg) i) (\<lambda>es. if es \<noteq> None then gbind (go_name cfg i f)
        (\<lambda>e. Inr (Enable e False net)) else Inr net) = Inr (Enable (end_name cfg i f) False net)" by auto
  qed
  have 2: "gfold (\<lambda>(j, f) net. gbind (go_idx (sc_endnames cfg) (int j)) (\<lambda>es.
       if es \<noteq> None then gbind (go_name cfg f i) (\<lambda>e. Inr (Enable e False net)) else Inr net))
       (List.enumerate 0 frm) net =
     Inr (fold (\<lambda>f. Enable (end_name cfg f i) False) frm net)" for net :: svc_net
  proof (rule gfold_enumerate)
    fix j f net assume "j < 0 + length frm" and f: "f \<in> set frm"
    then have "int j \<in> servers_of cfg" using assms(4) by (simp add: servers_of_def)
    with started obtain ns where "go_idx (sc_endnames cfg) (int j) = Inr (Some ns)" by blast
    moreover have "go_name cfg f i = Inr (end_name cfg f i)"
      using assms(3) f go_name_ok(1) [OF assms(1) _ assms(2)] by blast
    ultimately show "(case (j, f) of (j, f) \<Rightarrow> \<lambda>net. gbind (go_idx (sc_endnames cfg) (int j)) (\<lambda>es.
        if es \<noteq> None then gbind (go_name cfg f i) (\<lambda>e. Inr (Enable e False net)) else Inr net)) net =
        Inr (Enable (end_name cfg f i) False net)" by simp
  qed
  show ?thesis
    unfolding disconnectUnlocked_def 1 2 gbind_Inr by (simp add: switch_net_def fold_map comp_def)
qed

section \<open>Partitions\<close>

text \<open>One side of \<open>partition\<close>: the servers of \<open>xs\<close> leave those of \<open>other\<close> and join those of
  \<open>own\<close>.\<close>

lemma partition_side:
  assumes "svc_ok cfg" and "set xs \<subseteq> set own" and "set own \<subseteq> servers_of cfg" and "set other \<subseteq> servers_of cfg"
    and "length other \<le> sc_n cfg" and "set own \<inter> set other = {}"
  shows "\<exists>net. gfold (\<lambda>i cfg. gbind (disconnectUnlocked i other cfg) (connectUnlocked i own)) xs cfg =
      Inr (cfg\<lparr>sc_net := net\<rparr>) \<and>
    (\<forall>a\<in>servers_of cfg. \<forall>c\<in>servers_of cfg. link (cfg\<lparr>sc_net := net\<rparr>) a c =
      (if (a \<in> set xs \<or> c \<in> set xs) \<and> a \<in> set own \<and> c \<in> set own then True
       else if a \<in> set xs \<and> c \<in> set other \<or> c \<in> set xs \<and> a \<in> set other then False
       else link cfg a c))"
  using assms
proof (induction xs arbitrary: cfg)
  case Nil
  have "cfg\<lparr>sc_net := sc_net cfg\<rparr> = cfg" by simp
  then show ?case by (intro exI [of _ "sc_net cfg"]) simp
next
  case (Cons i xs)
  have i: "i \<in> servers_of cfg" "i \<in> set own" "i \<notin> set other" using Cons.prems by auto
  define cfg1 where "cfg1 = cfg\<lparr>sc_net := switch_net cfg False i other\<rparr>"
  define cfg2 where "cfg2 = cfg1\<lparr>sc_net := switch_net cfg1 True i own\<rparr>"
  have sim: "svc_ok cfg1" "servers_of cfg1 = servers_of cfg" "svc_ok cfg2" "servers_of cfg2 = servers_of cfg"
    "sc_n cfg2 = sc_n cfg" "\<And>net. cfg2\<lparr>sc_net := net\<rparr> = cfg\<lparr>sc_net := net\<rparr>"
    using Cons.prems(1) by (simp_all add: cfg1_def cfg2_def)
  have step: "gbind (disconnectUnlocked i other cfg) (connectUnlocked i own) = Inr cfg2"
    using disconnectUnlocked_eq [OF Cons.prems(1) i(1) Cons.prems(4,5)]
      connectUnlocked_eq [OF sim(1), of i own] i(1) Cons.prems(3) sim(2)
    by (simp add: cfg1_def [symmetric] cfg2_def)
  have l2: "link cfg2 a c = (if a = i \<and> c \<in> set own \<or> c = i \<and> a \<in> set own then True
      else if a = i \<and> c \<in> set other \<or> c = i \<and> a \<in> set other then False else link cfg a c)"
    if "a \<in> servers_of cfg" "c \<in> servers_of cfg" for a c
  proof -
    have "link cfg1 a c = (if a = i \<and> c \<in> set other \<or> c = i \<and> a \<in> set other then False else link cfg a c)"
      unfolding cfg1_def by (rule switch_net_link [OF Cons.prems(1) i(1) Cons.prems(4) that])
    moreover have "link cfg2 a c = (if a = i \<and> c \<in> set own \<or> c = i \<and> a \<in> set own then True else link cfg1 a c)"
      unfolding cfg2_def by (rule switch_net_link [OF sim(1)]) (use sim(2) i(1) Cons.prems(3) that in simp_all)
    ultimately show ?thesis by (simp only:)
  qed
  from Cons.IH [OF sim(3)] Cons.prems sim(4,5) obtain net where
    net: "gfold (\<lambda>i cfg. gbind (disconnectUnlocked i other cfg) (connectUnlocked i own)) xs cfg2 =
      Inr (cfg\<lparr>sc_net := net\<rparr>)"
    "\<And>a c. a \<in> servers_of cfg \<Longrightarrow> c \<in> servers_of cfg \<Longrightarrow> link (cfg\<lparr>sc_net := net\<rparr>) a c =
      (if (a \<in> set xs \<or> c \<in> set xs) \<and> a \<in> set own \<and> c \<in> set own then True
       else if a \<in> set xs \<and> c \<in> set other \<or> c \<in> set xs \<and> a \<in> set other then False
       else link cfg2 a c)"
    unfolding sim(6) by auto
  have "gfold (\<lambda>i cfg. gbind (disconnectUnlocked i other cfg) (connectUnlocked i own)) (i # xs) cfg =
      Inr (cfg\<lparr>sc_net := net\<rparr>)" by (simp add: step net(1))
  moreover have "link (cfg\<lparr>sc_net := net\<rparr>) a c =
      (if (a \<in> set (i # xs) \<or> c \<in> set (i # xs)) \<and> a \<in> set own \<and> c \<in> set own then True
       else if a \<in> set (i # xs) \<and> c \<in> set other \<or> c \<in> set (i # xs) \<and> a \<in> set other then False
       else link cfg a c)" if ac: "a \<in> servers_of cfg" "c \<in> servers_of cfg" for a c
    unfolding net(2) [OF ac] l2 [OF ac] using i Cons.prems(2,6) by auto
  ultimately show ?case by blast
qed

lemma partition_links:
  assumes ok: "svc_ok cfg" and d: "distinct (p1 @ p2)" and all: "set (p1 @ p2) = servers_of cfg"
  shows "\<exists>cfg'. partition_cfg p1 p2 cfg = Inr cfg' \<and> svc_ok cfg' \<and> end_name cfg' = end_name cfg \<and>
    (\<forall>a\<in>servers_of cfg. \<forall>c\<in>servers_of cfg.
       link cfg' a c = (a \<in> set p1 \<and> c \<in> set p1 \<or> a \<in> set p2 \<and> c \<in> set p2))"
proof -
  have "length (p1 @ p2) = card (servers_of cfg)" using distinct_card [OF d] all by simp
  then have len: "length p1 \<le> sc_n cfg" "length p2 \<le> sc_n cfg" by (simp_all add: servers_of_def)
  have sub: "set p1 \<subseteq> servers_of cfg" "set p2 \<subseteq> servers_of cfg" and dis: "set p1 \<inter> set p2 = {}"
    using all d by auto
  obtain net1 where n1: "gfold (\<lambda>i cfg. gbind (disconnectUnlocked i p2 cfg) (connectUnlocked i p1)) p1 cfg =
      Inr (cfg\<lparr>sc_net := net1\<rparr>)"
    "\<forall>a\<in>servers_of cfg. \<forall>c\<in>servers_of cfg. link (cfg\<lparr>sc_net := net1\<rparr>) a c =
      (if (a \<in> set p1 \<or> c \<in> set p1) \<and> a \<in> set p1 \<and> c \<in> set p1 then True
       else if a \<in> set p1 \<and> c \<in> set p2 \<or> c \<in> set p1 \<and> a \<in> set p2 then False else link cfg a c)"
    using partition_side [OF ok subset_refl sub len(2) dis] by blast
  let ?cfg1 = "cfg\<lparr>sc_net := net1\<rparr>"
  have ok1: "svc_ok ?cfg1" and sub1: "set p1 \<subseteq> servers_of ?cfg1" "set p2 \<subseteq> servers_of ?cfg1"
    and len1: "length p1 \<le> sc_n ?cfg1" and dis1: "set p2 \<inter> set p1 = {}"
    using ok sub len dis by auto
  from partition_side [OF ok1 subset_refl sub1(2,1) len1 dis1, unfolded frame_simps(3)] obtain net2 where
    n2: "gfold (\<lambda>i cfg. gbind (disconnectUnlocked i p1 cfg) (connectUnlocked i p2)) p2 ?cfg1 =
      Inr (?cfg1\<lparr>sc_net := net2\<rparr>)"
    "\<forall>a\<in>servers_of cfg. \<forall>c\<in>servers_of cfg. link (?cfg1\<lparr>sc_net := net2\<rparr>) a c =
      (if (a \<in> set p2 \<or> c \<in> set p2) \<and> a \<in> set p2 \<and> c \<in> set p2 then True
       else if a \<in> set p2 \<and> c \<in> set p1 \<or> c \<in> set p2 \<and> a \<in> set p1 then False else link ?cfg1 a c)"
    by blast
  define cfg2 where "cfg2 = ?cfg1\<lparr>sc_net := net2\<rparr>"
  have lk: "link cfg2 a c = (a \<in> set p1 \<and> c \<in> set p1 \<or> a \<in> set p2 \<and> c \<in> set p2)"
    if ac: "a \<in> servers_of cfg" "c \<in> servers_of cfg" for a c
  proof -
    note l2 = n2(2) [rule_format, OF ac, folded cfg2_def] and l1 = n1(2) [rule_format, OF ac]
    have "a \<in> set p1 \<and> a \<notin> set p2 \<or> a \<in> set p2 \<and> a \<notin> set p1"
      "c \<in> set p1 \<and> c \<notin> set p2 \<or> c \<in> set p2 \<and> c \<notin> set p1" using ac all dis by auto
    then show ?thesis unfolding l2 l1 by (elim disjE conjE) simp_all
  qed
  have "partition_cfg p1 p2 cfg = Inr cfg2"
    unfolding cfg2_def partition_cfg_def n1(1) gbind_Inr by (rule n2(1))
  moreover have "svc_ok cfg2" "end_name cfg2 = end_name cfg" using ok by (simp_all add: cfg2_def)
  ultimately show ?thesis using lk by blast
qed

section \<open>Shuffling\<close>

lemma mset_swap_lists: "i < length xs \<Longrightarrow> j < length xs \<Longrightarrow> mset (swap i j xs) = mset xs"
  unfolding swap_def by (rule mset_swap)

lemma random_handles_mset:
  assumes "\<And>i. js i \<le> i"
  shows "mset (random_handles js xs) = mset xs"
proof -
  have "mset (fold (\<lambda>i. swap i (js i)) is ys) = mset ys \<and> length (fold (\<lambda>i. swap i (js i)) is ys) = length ys"
    if "\<forall>i\<in>set is. i < length ys" for "is" and ys :: "'a list"
    using that
  proof (induction "is" arbitrary: ys)
    case (Cons i "is")
    then have "i < length ys" "js i < length ys" using assms [of i] by auto
    moreover have "length (swap i (js i) ys) = length ys" by (simp add: swap_def)
    ultimately show ?case using Cons.IH [of "swap i (js i) ys"] Cons.prems by (simp add: mset_swap_lists)
  qed simp
  from this [of "[0..<length xs]" xs] show ?thesis by (simp add: random_handles_def)
qed

section \<open>The leader in the minority\<close>

lemma gfold_skip:
  assumes "\<And>x s. \<not> P x \<Longrightarrow> F x s = Inr s"
  shows "gfold F xs s = gfold F (filter P xs) s"
proof (induction xs arbitrary: s)
  case (Cons x xs)
  then show ?case using assms [of x s] by (cases "P x"; cases "F x s") simp_all
qed simp

text \<open>The two slices filled one after the other are one list.\<close>

lemma partition_slots:
  assumes "\<forall>x\<in>set xs. x \<noteq> l" and "length ys + length xs \<le> length p1 + length p2"
    and "p1 @ p2 = ys @ replicate (length p1 + length p2 - length ys) 0"
  shows "\<exists>q1 q2. gfold (partition_slot l) xs (int (length ys), p1, p2) = Inr (int (length ys + length xs), q1, q2) \<and>
    length q1 = length p1 \<and> length q2 = length p2 \<and>
    q1 @ q2 = (ys @ xs) @ replicate (length p1 + length p2 - length (ys @ xs)) 0"
  using assms
proof (induction xs arbitrary: ys p1 p2)
  case (Cons x xs)
  let ?j = "length ys" and ?m = "length p1 + length p2"
  define q where "q = (p1 @ p2)[?j := x]"
  define q1 where "q1 = take (length p1) q"
  define q2 where "q2 = drop (length p1) q"
  have j: "?j < ?m" using Cons.prems(2) by simp
  have q: "q = (ys @ [x]) @ replicate (?m - length (ys @ [x])) 0"
  proof -
    have "replicate (?m - ?j) (0 :: int) = 0 # replicate (?m - length (ys @ [x])) 0"
      using j by (cases "?m - ?j") auto
    then show ?thesis unfolding q_def Cons.prems(3) by (simp add: list_update_append)
  qed
  have len: "length q1 = length p1" "length q2 = length p2" "q1 @ q2 = q"
    by (simp_all add: q1_def q2_def q_def)
  have "partition_slot l x (int ?j, p1, p2) = Inr (int (length (ys @ [x])), q1, q2)"
  proof (cases "?j < length p1")
    case True
    then have "q1 = p1[?j := x]" "q2 = p2" by (simp_all add: q1_def q2_def q_def list_update_append)
    with True Cons.prems(1) show ?thesis by (simp add: partition_slot_def go_upd_def)
  next
    case False
    then have "q1 = p1" "q2 = p2[?j - length p1 := x]" by (simp_all add: q1_def q2_def q_def list_update_append)
    with False Cons.prems(1) j show ?thesis by (simp add: partition_slot_def go_upd_def nat_diff_distrib)
  qed
  moreover have "\<exists>r1 r2. gfold (partition_slot l) xs (int (length (ys @ [x])), q1, q2) =
      Inr (int (length (ys @ [x]) + length xs), r1, r2) \<and> length r1 = length q1 \<and> length r2 = length q2 \<and>
      r1 @ r2 = ((ys @ [x]) @ xs) @ replicate (length q1 + length q2 - length ((ys @ [x]) @ xs)) 0"
    using Cons.prems(1,2) len q by (intro Cons.IH) auto
  ultimately show ?case by (simp add: len)
qed simp

text \<open>\<open>Leader\<close> is a search for the first server that leads.\<close>

lemma svc_Leader_find:
  assumes "length (sc_servers cfg) = sc_n cfg" and "None \<notin> set (sc_servers cfg)"
  shows "svc_Leader rf cfg =
    Inr (case find (\<lambda>i. State (rf (the (sc_servers cfg ! nat i))) = Leader) [0..int (sc_n cfg) - 1] of
      Some i \<Rightarrow> (True, i) | None \<Rightarrow> (False, 0))"
proof -
  let ?F = "\<lambda>i found. if found \<noteq> None then Inr found else gbind (go_idx (sc_servers cfg) i) (\<lambda>s.
         case s of None \<Rightarrow> Inl NilDereference
         | Some kv \<Rightarrow> Inr (if snd (GetState (rf kv)) then Some i else None))"
  let ?lead = "\<lambda>i. State (rf (the (sc_servers cfg ! nat i))) = Leader"
  have F: "?F i None = Inr (if ?lead i then Some i else None)" if "i \<in> servers_of cfg" for i
  proof -
    have i: "nat i < length (sc_servers cfg)" "0 \<le> i" "i < int (length (sc_servers cfg))"
      using that assms(1) by (auto simp: servers_of_def)
    then obtain kv where "sc_servers cfg ! nat i = Some kv" using assms(2) by (metis not_None_eq nth_mem)
    with i show ?thesis by (simp add: go_idx_def GetState_def)
  qed
  have stay: "gfold ?F xs (Some k) = Inr (Some k)" for xs k by (induction xs) simp_all
  have all: "gfold ?F xs None = Inr (find ?lead xs)" if "set xs \<subseteq> servers_of cfg" for xs
    using that
  proof (induction xs)
    case (Cons x xs)
    show ?case
    proof (cases "?lead x")
      case True
      then have "?F x None = Inr (Some x)" using F [of x] Cons.prems by simp
      then have "gfold ?F (x # xs) None = gfold ?F xs (Some x)" by (simp only: gfold.simps gbind_Inr)
      with stay True show ?thesis by simp
    next
      case False
      then have "?F x None = Inr None" using F [of x] Cons.prems by simp
      then have "gfold ?F (x # xs) None = gfold ?F xs None" by (simp only: gfold.simps gbind_Inr)
      with Cons False show ?thesis by simp
    qed
  qed simp
  let ?is = "[0..int (sc_n cfg) - 1]"
  have "gfold ?F ?is None = Inr (find ?lead ?is)" by (rule all) (auto simp: servers_of_def)
  then show "svc_Leader rf cfg = Inr (case find ?lead ?is of Some i \<Rightarrow> (True, i) | None \<Rightarrow> (False, 0))"
    unfolding svc_Leader_def by (simp only: gbind_Inr)
qed

lemma svc_Leader_ok:
  assumes "length (sc_servers cfg) = sc_n cfg" and "None \<notin> set (sc_servers cfg)" and "0 < sc_n cfg"
  shows "\<exists>b l. svc_Leader rf cfg = Inr (b, l) \<and> l \<in> servers_of cfg \<and>
    (b \<longrightarrow> State (rf (the (sc_servers cfg ! nat l))) = Leader) \<and>
    (\<not> b \<longrightarrow> (\<forall>kv. Some kv \<in> set (sc_servers cfg) \<longrightarrow> State (rf kv) \<noteq> Leader))"
proof -
  let ?lead = "\<lambda>i. State (rf (the (sc_servers cfg ! nat i))) = Leader" and ?is = "[0..int (sc_n cfg) - 1]"
  note eq = svc_Leader_find [OF assms(1,2), of rf]
  show ?thesis
  proof (cases "find ?lead ?is")
    case None
    then have "\<not> ?lead i" if "0 \<le> i" "i < int (sc_n cfg)" for i using that by (auto simp: find_None_iff)
    then have "State (rf kv) \<noteq> Leader" if "Some kv \<in> set (sc_servers cfg)" for kv
      using that assms(1) by (metis in_set_conv_nth nat_int of_nat_0_le_iff of_nat_less_iff option.sel)
    with None eq assms(3) show ?thesis by (auto simp: servers_of_def)
  next
    case (Some i)
    then have "?lead i" "i \<in> set ?is" by (auto simp: find_Some_iff in_set_conv_nth)
    with Some eq show ?thesis by (auto simp: servers_of_def)
  qed
qed

lemma make_partition_ok:
  assumes "length (sc_servers cfg) = sc_n cfg" and "None \<notin> set (sc_servers cfg)"
    and n: "sc_n cfg = 2 * k + 1" "0 < k"
  shows "\<exists>b l p1 p2. svc_Leader rf cfg = Inr (b, l) \<and> svc_make_partition rf cfg = Inr (p1, p2) \<and>
    distinct (p1 @ p2) \<and> set (p1 @ p2) = servers_of cfg \<and> length p1 = k + 1 \<and> length p2 = k \<and> l \<in> set p2"
proof -
  obtain b l where l: "svc_Leader rf cfg = Inr (b, l)" "l \<in> servers_of cfg"
    using svc_Leader_ok [OF assms(1,2), of rf] n by auto
  let ?is = "[0..int (sc_n cfg) - 1]" and ?p1 = "replicate (k + 1) (0 :: int)" and ?p2 = "replicate k (0 :: int)"
  let ?xs = "filter (\<lambda>i. i \<noteq> l) ?is"
  have iset: "set ?is = servers_of cfg" by (auto simp: servers_of_def)
  have xs: "distinct ?xs" "set ?xs = servers_of cfg - {l}" using iset by auto
  have "length ?xs = card (servers_of cfg - {l})" using distinct_card [OF xs(1)] xs(2) by simp
  then have lxs: "length ?xs = 2 * k" using l(2) n by (simp add: servers_of_def)
  have "\<exists>q1 q2. gfold (partition_slot l) ?xs (int (length ([] :: int list)), ?p1, ?p2) = Inr (int (length ([] :: int list) + length ?xs), q1, q2) \<and>
    length q1 = length ?p1 \<and> length q2 = length ?p2 \<and>
    q1 @ q2 = ([] @ ?xs) @ replicate (length ?p1 + length ?p2 - length ([] @ ?xs)) 0"
  proof (rule partition_slots)
    show "?p1 @ ?p2 = [] @ replicate (length ?p1 + length ?p2 - length ([] :: int list)) 0"
      by (simp add: replicate_add)
  qed (simp_all add: lxs)
  then obtain q1 q2 where q: "gfold (partition_slot l) ?xs (0, ?p1, ?p2) = Inr (int (length ?xs), q1, q2)"
    "length q1 = k + 1" "length q2 = k" "q1 @ q2 = ?xs @ [0]" by (auto simp: lxs)
  have "gfold (partition_slot l) ?is (0, ?p1, ?p2) = gfold (partition_slot l) ?xs (0, ?p1, ?p2)"
    by (rule gfold_skip) (simp add: partition_slot_def)
  with q have g: "gfold (partition_slot l) ?is (0, ?p1, ?p2) = Inr (int (length ?xs), q1, q2)" by simp
  define r2 where "r2 = q2[k - 1 := l]"
  have "q2 \<noteq> []" using q(3) n(2) by auto
  then have "svc_make_partition rf cfg = Inr (q1, r2)"
    using q(3) n g by (simp add: svc_make_partition_def l(1) go_upd_def r2_def nat_diff_distrib)
  moreover have r2: "q1 @ r2 = ?xs @ [l]"
  proof -
    have "q1 @ r2 = (q1 @ q2)[2 * k := l]" using q(2,3) n(2) by (simp add: r2_def list_update_append)
    also have "\<dots> = (?xs @ [0])[2 * k := l]" using q(4) by simp
    also have "\<dots> = ?xs @ [l]" using lxs by (simp add: list_update_append)
    finally show ?thesis .
  qed
  then have "distinct (q1 @ r2)" "set (q1 @ r2) = servers_of cfg"
    unfolding r2 using xs l(2) by auto
  moreover have "length r2 = k" using q(3) by (simp add: r2_def)
  moreover have "l \<in> set r2" using q(3) n(2) by (simp add: r2_def set_update_memI)
  ultimately show ?thesis using l(1) q(2) by blast
qed

section \<open>Construction\<close>

text \<open>The first \<open>k\<close> servers have been started with the end points \<open>names\<close>.\<close>

definition built :: "(nat \<Rightarrow> string list) \<Rightarrow> nat \<Rightarrow> nat \<Rightarrow> 's svc_config \<Rightarrow> bool" where
  "built names n k cfg \<longleftrightarrow> sc_n cfg = n \<and> length (sc_servers cfg) = n \<and> length (sc_saved cfg) = n \<and>
     sc_endnames cfg = map (\<lambda>i. Some (names i)) [0..<k] @ replicate (n - k) None \<and>
     {e. net_ends (sc_net cfg) e} = set (concat (map names [0..<k])) \<and> (\<forall>i<k. sc_servers cfg ! i \<noteq> None)"

lemma svc_make_ends_returns:
  assumes "distinct names" and "length names = n" and "\<forall>e\<in>set names. \<not> net_ends net e"
  shows "\<exists>net'. svc_make_ends names n net = Inr net' \<and> {e. net_ends net' e} = {e. net_ends net e} \<union> set names"
proof -
  let ?P = "\<lambda>k (net' :: svc_net). {e. net_ends net' e} = {e. net_ends net e} \<union> set (take k names)"
  have "\<exists>net'. gfold (\<lambda>j net. gbind (MakeEnd (names ! j) net) (\<lambda>net. Inr (Connect (names ! j) (int j) net))) [0..<n] net =
      Inr net' \<and> ?P n net'"
  proof (rule gfold_upt_inv [where P = ?P])
    fix k net' assume k: "k < n" and P: "?P k net'"
    have "names ! k \<notin> {e. net_ends net e} \<union> set (take k names)"
      using nth_first [OF assms(1)] assms k by auto
    with P have "\<not> net_ends net' (names ! k)" by blast
    moreover have "insert (names ! k) ({e. net_ends net e} \<union> set (take k names)) =
        {e. net_ends net e} \<union> set (take (Suc k) names)"
      using k assms(2) by (auto simp: take_Suc_conv_app_nth)
    moreover have "Collect ((net_ends net')(names ! k := True)) = insert (names ! k) {e. net_ends net' e}" by auto
    ultimately show "\<exists>s'. gbind (MakeEnd (names ! k) net') (\<lambda>net. Inr (Connect (names ! k) (int k) net)) = Inr s' \<and>
        ?P (Suc k) s'"
      using P by (simp add: MakeEnd_def Connect_def)
  qed simp
  with assms(2) show ?thesis by (simp add: svc_make_ends_def)
qed

lemma svc_Start_built:
  assumes b: "built names n k cfg" and k: "k < n" and len: "length (names k) = n"
    and d: "distinct (concat (map names [0..<n]))"
  shows "\<exists>cfg'. svc_Start start rf tn ms (names k) k cfg = Inr cfg' \<and> built names n (Suc k) cfg'"
proof -
  have fresh: "distinct (names k)" "\<forall>e\<in>set (names k). \<not> net_ends (sc_net cfg) e"
    using distinct_concat_part(1,2) [OF d k] b unfolding built_def by blast+
  obtain net where net: "svc_make_ends (names k) n (sc_net cfg) = Inr net"
    "{e. net_ends net e} = {e. net_ends (sc_net cfg) e} \<union> set (names k)"
    using svc_make_ends_returns [OF fresh(1) len fresh(2)] by blast
  have "(sc_endnames cfg)[k := Some (names k)] = map (\<lambda>i. Some (names i)) [0..<Suc k] @ replicate (n - Suc k) None"
    using b k by (cases "n - k") (auto simp: built_def list_update_append)
  with b k net show ?thesis
    by (auto simp: svc_Start_def built_def Let_def new_server_def AddServer_def nth_list_update less_Suc_eq)
qed

lemma built_ok:
  assumes b: "built names n n cfg" and len: "\<forall>i<n. length (names i) = n" and d: "distinct (concat (map names [0..<n]))"
  shows "svc_ok cfg" "\<And>i j. i < n \<Longrightarrow> end_name cfg (int i) (int j) = names i ! j"
proof -
  have e: "sc_endnames cfg = map (\<lambda>i. Some (names i)) [0..<n]" and n: "sc_n cfg = n" using b by (simp_all add: built_def)
  show en: "end_name cfg (int i) (int j) = names i ! j" if "i < n" for i j using that by (simp add: end_name_def e)
  have "names_differ cfg"
    unfolding names_differ_def
  proof (intro ballI impI)
    fix i j i' j'
    assume s: "i \<in> servers_of cfg" "j \<in> servers_of cfg" "i' \<in> servers_of cfg" "j' \<in> servers_of cfg"
      and eq: "end_name cfg i j = end_name cfg i' j'"
    then obtain a b a' b' where i: "i = int a" "j = int b" "i' = int a'" "j' = int b'"
      "a < n" "b < n" "a' < n" "b' < n" by (auto simp: servers_of_def n elim!: nonneg_int_cases)
    with eq en have "names a ! b = names a' ! b'" by simp
    then have "a = a' \<and> b = b'" using i len by (intro distinct_concat_nth [OF d]) auto
    then show "i = i' \<and> j = j'" by (simp add: i)
  qed
  then show "svc_ok cfg" using len by (auto simp: svc_ok_def all_started_def e n)
qed

lemma ConnectAll_links:
  assumes "svc_ok cfg"
  shows "\<exists>net. ConnectAll cfg = Inr (cfg\<lparr>sc_net := net\<rparr>) \<and>
    (\<forall>a\<in>servers_of cfg. \<forall>c\<in>servers_of cfg. link (cfg\<lparr>sc_net := net\<rparr>) a c)"
proof -
  have "\<exists>net. gfold (\<lambda>i cfg. connectUnlocked i (All_cfg cfg) cfg) is cfg = Inr (cfg\<lparr>sc_net := net\<rparr>) \<and>
      (\<forall>a\<in>servers_of cfg. \<forall>c\<in>servers_of cfg. link (cfg\<lparr>sc_net := net\<rparr>) a c = (link cfg a c \<or> a \<in> set is \<or> c \<in> set is))"
    if "set is \<subseteq> servers_of cfg" for "is"
    using that assms
  proof (induction "is" arbitrary: cfg)
    case Nil
    have "cfg\<lparr>sc_net := sc_net cfg\<rparr> = cfg" by simp
    then show ?case by (intro exI [of _ "sc_net cfg"]) simp
  next
    case (Cons i "is")
    have i: "i \<in> servers_of cfg" and all: "set (All_cfg cfg) = servers_of cfg"
      using Cons.prems(1) by (auto simp: All_cfg_def servers_of_def)
    define cfg1 where "cfg1 = cfg\<lparr>sc_net := switch_net cfg True i (All_cfg cfg)\<rparr>"
    have step: "connectUnlocked i (All_cfg cfg) cfg = Inr cfg1"
      unfolding cfg1_def by (rule connectUnlocked_eq [OF Cons.prems(2) i]) (simp add: all)
    have l1: "link cfg1 a c = (a = i \<or> c = i \<or> link cfg a c)" if "a \<in> servers_of cfg" "c \<in> servers_of cfg" for a c
      unfolding cfg1_def using switch_net_link [OF Cons.prems(2) i _ that, of "All_cfg cfg" True] that all by auto
    have "set is \<subseteq> servers_of cfg1" "svc_ok cfg1" using Cons.prems by (simp_all add: cfg1_def)
    from Cons.IH [OF this] obtain net where
      net: "gfold (\<lambda>i cfg. connectUnlocked i (All_cfg cfg) cfg) is cfg1 = Inr (cfg1\<lparr>sc_net := net\<rparr>)"
      "\<forall>a\<in>servers_of cfg1. \<forall>c\<in>servers_of cfg1. link (cfg1\<lparr>sc_net := net\<rparr>) a c =
        (link cfg1 a c \<or> a \<in> set is \<or> c \<in> set is)" by blast
    have fr: "cfg1\<lparr>sc_net := net\<rparr> = cfg\<lparr>sc_net := net\<rparr>" "servers_of cfg1 = servers_of cfg" by (simp_all add: cfg1_def)
    have "gfold (\<lambda>i cfg. connectUnlocked i (All_cfg cfg) cfg) (i # is) cfg = Inr (cfg\<lparr>sc_net := net\<rparr>)"
      using step net(1) fr(1) by simp
    with net(2) [unfolded fr] l1 show ?case by auto
  qed
  note loop = this
  have all: "set [0..int (sc_n cfg) - 1] = servers_of cfg" by (auto simp: servers_of_def)
  obtain net where net: "ConnectAll cfg = Inr (cfg\<lparr>sc_net := net\<rparr>)"
    "\<forall>a\<in>servers_of cfg. \<forall>c\<in>servers_of cfg. link (cfg\<lparr>sc_net := net\<rparr>) a c =
      (link cfg a c \<or> a \<in> servers_of cfg \<or> c \<in> servers_of cfg)"
    using loop [of "[0..int (sc_n cfg) - 1]"] unfolding ConnectAll_def all by blast
  then show ?thesis by auto
qed

text \<open>What \<open>make_config\<close> needs of the \<open>StartServer\<close> of a service, and what it then builds.\<close>

locale service_harness =
  fixes start :: "string list \<Rightarrow> nat \<Rightarrow> 's svc_config \<Rightarrow> 's svc_config go"
  assumes start_builds: "built names n k cfg \<Longrightarrow> k < n \<Longrightarrow> length (names k) = n \<Longrightarrow>
    distinct (concat (map names [0..<n])) \<Longrightarrow> \<exists>cfg'. start (names k) k cfg = Inr cfg' \<and> built names n (Suc k) cfg'"
begin

lemma make_config_ok:
  assumes len: "\<forall>i<n. length (names i) = n" and d: "distinct (concat (map names [0..<n]))"
  shows "\<exists>cfg. svc_make_config start names n unr mrs = Inr cfg \<and> svc_ok cfg \<and> sc_n cfg = n \<and>
    length (sc_servers cfg) = n \<and> None \<notin> set (sc_servers cfg) \<and>
    (\<forall>i<n. \<forall>j<n. end_name cfg (int i) (int j) = names i ! j) \<and>
    (\<forall>a\<in>servers_of cfg. \<forall>c\<in>servers_of cfg. link cfg a c)"
proof -
  have "\<exists>cfg. gfold (\<lambda>i. start (names i) i) [0..<n] (svc_empty n mrs) = Inr cfg \<and> built names n n cfg"
  proof (rule gfold_upt_inv [where P = "built names n"])
    show "built names n 0 (svc_empty n mrs)" by (simp add: built_def svc_empty_def MakeNetwork_def)
    fix k and cfg :: "'s svc_config" assume "k < n" "built names n k cfg"
    then show "\<exists>cfg'. start (names k) k cfg = Inr cfg' \<and> built names n (Suc k) cfg'"
      using len d by (intro start_builds) auto
  qed
  then obtain cfg where c: "gfold (\<lambda>i. start (names i) i) [0..<n] (svc_empty n mrs) = Inr cfg" "built names n n cfg" by blast
  note ok = built_ok [OF c(2) len d]
  obtain net where net: "ConnectAll cfg = Inr (cfg\<lparr>sc_net := net\<rparr>)"
    "\<forall>a\<in>servers_of cfg. \<forall>c\<in>servers_of cfg. link (cfg\<lparr>sc_net := net\<rparr>) a c"
    using ConnectAll_links [OF ok(1)] by blast
  define cfg' where "cfg' = cfg\<lparr>sc_net := Reliable (\<not> unr) net\<rparr>"
  have "svc_make_config start names n unr mrs = Inr cfg'"
    by (simp add: svc_make_config_def c(1) net(1) cfg'_def)
  moreover have "svc_ok cfg'" "servers_of cfg' = servers_of cfg" "end_name cfg' = end_name cfg" "sc_n cfg' = n"
    "sc_servers cfg' = sc_servers cfg" using ok(1) c(2) by (simp_all add: cfg'_def built_def)
  moreover have "link cfg' a c = link (cfg\<lparr>sc_net := net\<rparr>) a c" for a c
    by (simp add: link_def cfg'_def link_on_def Reliable_def)
  moreover have "length (sc_servers cfg) = n" "None \<notin> set (sc_servers cfg)"
    using c(2) by (auto simp: built_def in_set_conv_nth)
  ultimately show ?thesis using net(2) ok(2) by (intro exI [of _ cfg']) simp
qed

end

interpretation kv_harness: service_harness kv_cfg_StartServer
  unfolding kv_cfg_StartServer_def by unfold_locales (rule svc_Start_built)

interpretation sm_harness: service_harness sm_cfg_StartServer
  unfolding sm_cfg_StartServer_def by unfold_locales (rule svc_Start_built)

text \<open>The shardmaster's harness starts with every link enabled.\<close>

lemma sm_make_config_links:
  assumes "\<forall>i<n. length (names i) = n" and "distinct (concat (map names [0..<n]))"
  shows "\<exists>cfg. sm_make_config names n unr = Inr cfg \<and> svc_ok cfg \<and> (\<forall>a\<in>servers_of cfg. \<forall>c\<in>servers_of cfg. link cfg a c)"
  unfolding sm_make_config_def using sm_harness.make_config_ok [OF assms, of unr 0] by blast

section \<open>Even cluster sizes\<close>

text \<open>With four servers, of which server 1 leads, \<open>p2\<close> has a slot that is never written and so
  names server 0, which is in \<open>p1\<close>: the two sides are not disjoint.\<close>

definition even_cfg :: "RaftKV svc_config" where
  "even_cfg = (let kv = \<lambda>i. StartKVServer [0..<4] i MakePersister (- 1) in
     (svc_empty 4 (- 1))\<lparr>sc_servers := [Some (kv 0), Some ((kv 1)\<lparr>rk_rf := (rk_rf (kv 1))\<lparr>State := Leader\<rparr>\<rparr>),
       Some (kv 2), Some (kv 3)]\<rparr>)"

lemma make_partition_even: "make_partition even_cfg = Inr ([0, 2, 3], [0, 1])"
  by code_simp

end
