(* ===== verification/Randstring.thy ===== *)
theory Randstring
  imports Base32
begin

text \<open>
  The random names of end points in the test harnesses (\<open>randstring\<close> of \<^verbatim>\<open>src/raft/config.go\<close>,
  \<^verbatim>\<open>src/kvraft/config.go\<close>, \<^verbatim>\<open>src/shardmaster/config.go\<close> and \<^verbatim>\<open>src/shardkv/config.go\<close>): the first
  \<open>n\<close> characters of the base64 text of \<open>2 n\<close> random bytes. The harnesses assume that names
  differ; they do exactly when the random bits they show differ.
\<close>

section \<open>Base64 with the alphabet for URLs\<close>

definition url_alphabet :: string where
  "url_alphabet = ''ABCDEFGHIJKLMNOPQRSTUVWXYZabcdefghijklmnopqrstuvwxyz0123456789-_''"

definition byte_bits :: "string \<Rightarrow> bool list" where
  "byte_bits b = concat (map (\<lambda>c. to_bits 8 (of_char c)) b)"

definition sextets :: "bool list \<Rightarrow> string" where
  "sextets bits = map (\<lambda>g. url_alphabet ! of_bits (fill 6 g)) (chunks 6 bits)"

definition base64_url :: "string \<Rightarrow> string" where
  "base64_url b = (let d = sextets (byte_bits b) in d @ replicate ((4 - length d mod 4) mod 4) CHR ''='')"

text \<open>\<open>read k\<close> are the \<open>k\<close> bytes that \<open>crand.Read\<close> puts in the slice.\<close>

definition randstring :: "(nat \<Rightarrow> string) \<Rightarrow> int \<Rightarrow> string go" where
  "randstring read n =
     (if n < 0 then Inl MakeSliceLen
      else let b = read (nat (2 * n)); s = base64_url b in go_slice_to s n)"

definition kv_randstring :: "(nat \<Rightarrow> string) \<Rightarrow> int \<Rightarrow> string go" where
  "kv_randstring = randstring"

definition sm_randstring :: "(nat \<Rightarrow> string) \<Rightarrow> int \<Rightarrow> string go" where
  "sm_randstring = randstring"

definition skv_randstring :: "(nat \<Rightarrow> string) \<Rightarrow> int \<Rightarrow> string go" where
  "skv_randstring = randstring"

section \<open>What a name shows\<close>

lemma length_byte_bits [simp]: "length (byte_bits b) = 8 * length b"
  unfolding byte_bits_def by (induction b) auto

lemma take_chunks: "0 < k \<Longrightarrow> n * k \<le> length xs \<Longrightarrow> take n (chunks k xs) = chunks k (take (n * k) xs)"
proof (induction n arbitrary: xs)
  case (Suc n)
  then have "k \<le> length xs" "n * k \<le> length (drop k xs)" by simp_all
  moreover have "chunks k xs = take k xs # chunks k (drop k xs)"
    using \<open>k \<le> length xs\<close> Suc.prems(1) chunks_full [of "take k xs" k "drop k xs"] by simp
  moreover have "take (Suc n * k) xs = take k xs @ take (n * k) (drop k xs)" by (simp add: take_add)
  ultimately show ?case using Suc by (simp add: chunks_full)
qed simp

lemma length_chunks: "0 < k \<Longrightarrow> length xs = n * k \<Longrightarrow> length (chunks k xs) = n"
proof (induction n arbitrary: xs)
  case (Suc n)
  then have "length (take k xs) = k" "length (drop k xs) = n * k" by simp_all
  with Suc chunks_full [of "take k xs" k "drop k xs"] show ?case by simp
qed simp

lemma sextets_inject:
  assumes "length xs = n * 6" and "length ys = n * 6"
  shows "sextets xs = sextets ys \<longleftrightarrow> xs = ys"
  using assms
proof (induction n arbitrary: xs ys)
  case (Suc n)
  define a where "a = take 6 xs" define b where "b = take 6 ys"
  have xs: "xs = a @ drop 6 xs" "length a = 6" and ys: "ys = b @ drop 6 ys" "length b = 6"
    using Suc.prems by (simp_all add: a_def b_def)
  have "url_alphabet ! of_bits a = url_alphabet ! of_bits b \<longleftrightarrow> of_bits a = of_bits b"
    using of_bits_less [of a] of_bits_less [of b] xs(2) ys(2)
    by (intro nth_eq_iff_index_eq) (simp_all add: url_alphabet_def)
  also have "\<dots> \<longleftrightarrow> a = b" using to_of_bits [of a] to_of_bits [of b] xs(2) ys(2) by metis
  finally have "sextets (a @ drop 6 xs) = sextets (b @ drop 6 ys) \<longleftrightarrow> a = b \<and> drop 6 xs = drop 6 ys"
    using Suc.IH [of "drop 6 xs" "drop 6 ys"] Suc.prems xs(2) ys(2)
    by (simp add: sextets_def chunks_full fill_def)
  with xs ys show ?case by (metis append_eq_append_conv)
qed simp

lemma randstring_shows:
  assumes "length (read (2 * n)) = 2 * n"
  shows "randstring read (int n) = Inr (sextets (take (6 * n) (byte_bits (read (2 * n)))))"
    "length (sextets (take (6 * n) (byte_bits (read (2 * n))))) = n"
proof -
  let ?bits = "byte_bits (read (2 * n))"
  have l: "length (take (6 * n) ?bits) = n * 6" using assms by simp
  then show len: "length (sextets (take (6 * n) ?bits)) = n" by (simp add: sextets_def length_chunks [OF _ l])
  have "take n (sextets ?bits) = sextets (take (6 * n) ?bits)"
    using take_chunks [of 6 n ?bits] assms by (simp add: sextets_def take_map mult.commute)
  moreover have "n \<le> length (sextets ?bits)" using len calculation by (metis length_take min.cobounded1)
  ultimately show "randstring read (int n) = Inr (sextets (take (6 * n) ?bits))"
    by (simp add: randstring_def base64_url_def go_slice_to_def Let_def nat_mult_distrib)
qed

text \<open>Two names of \<open>n\<close> characters are equal exactly when their first \<open>6 n\<close> random bits are.\<close>

lemma randstring_distinct:
  assumes "length (read (2 * n)) = 2 * n" and "length (read' (2 * n)) = 2 * n"
  shows "randstring read (int n) = randstring read' (int n) \<longleftrightarrow>
    take (6 * n) (byte_bits (read (2 * n))) = take (6 * n) (byte_bits (read' (2 * n)))"
  using assms by (simp add: randstring_shows sextets_inject [where n = n])

end
