(* ===== verification/Shardmaster_Config.thy ===== *)
theory Shardmaster_Config
  imports Service_Correct Randstring
begin

text \<open>
  The harness of the shardmaster over Raft (\<^verbatim>\<open>src/shardmaster/config.go\<close>): the code of
  \<^verbatim>\<open>src/kvraft/config.go\<close> over another server type, and the functions of both that take the
  harness lock around another one. With the random names of \<open>Randstring\<close> the harness comes up
  with all servers connected whenever the random bits behind the names differ.
\<close>

section \<open>The functions that take the lock\<close>

definition cfg_connect :: "int \<Rightarrow> int list \<Rightarrow> RaftKV svc_config \<Rightarrow> RaftKV svc_config go" where
  "cfg_connect i to cfg = connectUnlocked i to cfg"

definition cfg_disconnect :: "int \<Rightarrow> int list \<Rightarrow> RaftKV svc_config \<Rightarrow> RaftKV svc_config go" where
  "cfg_disconnect i frm cfg = disconnectUnlocked i frm cfg"

definition ConnectClient :: "nat \<Rightarrow> int list \<Rightarrow> RaftKV svc_config \<Rightarrow> RaftKV svc_config go" where
  "ConnectClient ck to cfg = ConnectClientUnlocked ck to cfg"

definition DisconnectClient :: "nat \<Rightarrow> int list \<Rightarrow> RaftKV svc_config \<Rightarrow> RaftKV svc_config go" where
  "DisconnectClient ck frm cfg = DisconnectClientUnlocked ck frm cfg"

section \<open>The shardmaster's harness\<close>

type_synonym sm_config = "ShardMaster svc_config"

definition sm_random_handles :: "(nat \<Rightarrow> nat) \<Rightarrow> 'a list \<Rightarrow> 'a list" where
  "sm_random_handles = random_handles"

definition sm_LogSize :: "sm_config \<Rightarrow> int go" where
  "sm_LogSize = LogSize"

definition sm_connectUnlocked :: "int \<Rightarrow> int list \<Rightarrow> sm_config \<Rightarrow> sm_config go" where
  "sm_connectUnlocked = connectUnlocked"

definition sm_connect :: "int \<Rightarrow> int list \<Rightarrow> sm_config \<Rightarrow> sm_config go" where
  "sm_connect i to cfg = sm_connectUnlocked i to cfg"

definition sm_disconnectUnlocked :: "int \<Rightarrow> int list \<Rightarrow> sm_config \<Rightarrow> sm_config go" where
  "sm_disconnectUnlocked = disconnectUnlocked"

definition sm_disconnect :: "int \<Rightarrow> int list \<Rightarrow> sm_config \<Rightarrow> sm_config go" where
  "sm_disconnect i frm cfg = sm_disconnectUnlocked i frm cfg"

definition sm_All :: "sm_config \<Rightarrow> int list" where
  "sm_All = All_cfg"

definition sm_ConnectAll :: "sm_config \<Rightarrow> sm_config go" where
  "sm_ConnectAll cfg = gfold (\<lambda>i cfg. sm_connectUnlocked i (sm_All cfg) cfg) [0..int (sc_n cfg) - 1] cfg"

definition sm_partition :: "int list \<Rightarrow> int list \<Rightarrow> sm_config \<Rightarrow> sm_config go" where
  "sm_partition p1 p2 cfg =
     gbind (gfold (\<lambda>i cfg. gbind (sm_disconnectUnlocked i p2 cfg) (sm_connectUnlocked i p1)) p1 cfg) (\<lambda>cfg.
     gfold (\<lambda>i cfg. gbind (sm_disconnectUnlocked i p1 cfg) (sm_connectUnlocked i p2)) p2 cfg)"

definition sm_makeClient ::
  "string list \<Rightarrow> (nat \<Rightarrow> nat) \<Rightarrow> nat \<Rightarrow> int list \<Rightarrow> sm_config \<Rightarrow> (string list \<times> sm_config) go" where
  "sm_makeClient = makeClient"

definition sm_deleteClient :: "nat \<Rightarrow> sm_config \<Rightarrow> sm_config" where
  "sm_deleteClient = deleteClient"

definition sm_ConnectClientUnlocked :: "nat \<Rightarrow> int list \<Rightarrow> sm_config \<Rightarrow> sm_config go" where
  "sm_ConnectClientUnlocked = ConnectClientUnlocked"

definition sm_ConnectClient :: "nat \<Rightarrow> int list \<Rightarrow> sm_config \<Rightarrow> sm_config go" where
  "sm_ConnectClient ck to cfg = sm_ConnectClientUnlocked ck to cfg"

definition sm_DisconnectClientUnlocked :: "nat \<Rightarrow> int list \<Rightarrow> sm_config \<Rightarrow> sm_config go" where
  "sm_DisconnectClientUnlocked = DisconnectClientUnlocked"

definition sm_DisconnectClient :: "nat \<Rightarrow> int list \<Rightarrow> sm_config \<Rightarrow> sm_config go" where
  "sm_DisconnectClient ck frm cfg = sm_DisconnectClientUnlocked ck frm cfg"

lemma sm_partition_eq: "sm_partition = partition_cfg" "sm_ConnectAll = ConnectAll"
  by (simp_all add: fun_eq_iff sm_partition_def partition_cfg_def sm_ConnectAll_def ConnectAll_def sm_All_def
      sm_connectUnlocked_def sm_disconnectUnlocked_def)

text \<open>Its partitions isolate the leader too.\<close>

lemma sm_partition_isolates:
  assumes ok: "svc_ok cfg" and up: "length (sc_servers cfg) = sc_n cfg" "None \<notin> set (sc_servers cfg)"
    and n: "sc_n cfg = 2 * k + 1" "0 < k"
  shows "\<exists>b l p1 p2 cfg'. sm_Leader cfg = Inr (b, l) \<and> sm_make_partition cfg = Inr (p1, p2) \<and>
    sm_partition p1 p2 cfg = Inr cfg' \<and> length p1 = k + 1 \<and> length p2 = k \<and> l \<in> set p2 \<and>
    (\<forall>a\<in>servers_of cfg. \<forall>c\<in>servers_of cfg.
      link cfg' a c \<longleftrightarrow> a \<in> set p1 \<and> c \<in> set p1 \<or> a \<in> set p2 \<and> c \<in> set p2)"
proof -
  obtain b l p1 p2 where p: "sm_Leader cfg = Inr (b, l)" "sm_make_partition cfg = Inr (p1, p2)"
    "distinct (p1 @ p2)" "set (p1 @ p2) = servers_of cfg" "length p1 = k + 1" "length p2 = k" "l \<in> set p2"
    using make_partition_ok [OF up n, of sm_rf] unfolding sm_Leader_def sm_make_partition_def by blast
  from partition_links [OF ok p(3,4)] p show ?thesis by (auto simp: sm_partition_eq)
qed

section \<open>Random names\<close>

text \<open>\<open>rd i j k\<close> are the random bytes read for the name of the end point of server \<open>i\<close> to server
  \<open>j\<close>. The first 120 bits of these are what the name of 20 characters shows.\<close>

definition random_names :: "(nat \<Rightarrow> nat \<Rightarrow> nat \<Rightarrow> string) \<Rightarrow> nat \<Rightarrow> nat \<Rightarrow> string list" where
  "random_names rd n i = map (\<lambda>j. case randstring (rd i j) 20 of Inr s \<Rightarrow> s | Inl _ \<Rightarrow> []) [0..<n]"

lemma random_names_distinct:
  assumes len: "\<forall>i<n. \<forall>j<n. length (rd i j 40) = 40"
    and bits: "\<forall>i<n. \<forall>j<n. \<forall>i'<n. \<forall>j'<n.
      take 120 (byte_bits (rd i j 40)) = take 120 (byte_bits (rd i' j' 40)) \<longrightarrow> i = i' \<and> j = j'"
  shows "distinct (concat (map (random_names rd n) [0..<n]))"
proof -
  have name: "random_names rd n i ! j = sextets (take 120 (byte_bits (rd i j 40)))" if "i < n" "j < n" for i j
    using that len randstring_shows(1) [of "rd i j" 20] by (simp add: random_names_def)
  have inj: "i = i' \<and> j = j'" if "i < n" "j < n" "i' < n" "j' < n" "random_names rd n i ! j = random_names rd n i' ! j'" for i j i' j'
  proof -
    have "length (take 120 (byte_bits (rd i j 40))) = 20 * 6" "length (take 120 (byte_bits (rd i' j' 40))) = 20 * 6"
      using len that by simp_all
    from sextets_inject [OF this] that bits show ?thesis by (simp add: name)
  qed
  have l: "length (random_names rd n i) = n" for i by (simp add: random_names_def)
  have d: "distinct (random_names rd n i)" if "i < n" for i
    using inj [of i _ i] that by (auto simp: distinct_conv_nth l)
  have disj: "i = i'" if "i < n" "i' < n" "x \<in> set (random_names rd n i)" "x \<in> set (random_names rd n i')" for i i' x
    using inj [of i _ i'] that by (metis in_set_conv_nth l)
  have "inj_on (random_names rd n) {0..<n}"
  proof (rule inj_onI)
    fix i i' assume a: "i \<in> {0..<n}" "i' \<in> {0..<n}" and eq: "random_names rd n i = random_names rd n i'"
    have "0 < length (random_names rd n i)" using a(1) by (simp add: l)
    then have x: "random_names rd n i ! 0 \<in> set (random_names rd n i)" by (rule nth_mem)
    show "i = i'" by (rule disj [OF _ _ x]) (use a x eq in auto)
  qed
  then have "distinct (map (random_names rd n) [0..<n])" by (simp add: distinct_map)
  then show ?thesis
  proof (rule distinct_concat)
    show "distinct ys" if "ys \<in> set (map (random_names rd n) [0..<n])" for ys using that d by auto
    show "set ys \<inter> set zs = {}" if "ys \<in> set (map (random_names rd n) [0..<n])"
      "zs \<in> set (map (random_names rd n) [0..<n])" "ys \<noteq> zs" for ys zs
    proof -
      from that obtain i i' where "i < n" "i' < n" "ys = random_names rd n i" "zs = random_names rd n i'" by auto
      with disj [of i i'] that(3) show ?thesis by blast
    qed
  qed
qed

lemma sm_harness_comes_up:
  assumes len: "\<forall>i<n. \<forall>j<n. length (rd i j 40) = 40"
    and bits: "\<forall>i<n. \<forall>j<n. \<forall>i'<n. \<forall>j'<n.
      take 120 (byte_bits (rd i j 40)) = take 120 (byte_bits (rd i' j' 40)) \<longrightarrow> i = i' \<and> j = j'"
  shows "\<exists>cfg. sm_make_config (random_names rd n) n unr = Inr cfg \<and> svc_ok cfg \<and>
    (\<forall>a\<in>servers_of cfg. \<forall>c\<in>servers_of cfg. link cfg a c)"
  using sm_make_config_links [OF _ random_names_distinct [of n rd, OF assms]] by (simp add: random_names_def)

end
