(* ===== verification/Shardkv_Config.thy ===== *)
theory Shardkv_Config
  imports Service_Config "HOL-Library.AList"
begin

text \<open>
  The Raft based sharded key/value server (\<^verbatim>\<open>src/shardkv/server.go\<close>, its request handlers are
  empty) and its harness (\<^verbatim>\<open>src/shardkv/config.go\<close>): three masters and three groups of servers
  on one network, whose servers have strings as names. Random names are arguments: lists of
  \<open>n\<close> names for the end points to the servers of a group, of \<open>nmasters\<close> for those to the masters.
  No slice of names is compared with nil here, so a nil slice is the empty list.
\<close>

section \<open>The server\<close>

record raft_ShardKV =
  rs_me :: int
  rs_rf :: "unit Raft"
  rs_gid :: int
  rs_masters :: "string list"
  rs_maxraftstate :: int

definition rs_StartServer ::
  "nat list \<Rightarrow> int \<Rightarrow> unit gob Persister \<Rightarrow> int \<Rightarrow> int \<Rightarrow> string list \<Rightarrow> raft_ShardKV" where
  "rs_StartServer ends i pst maxraftstate gid masters =
     \<lparr>rs_me = i, rs_rf = Make ends i pst, rs_gid = gid, rs_masters = masters, rs_maxraftstate = maxraftstate\<rparr>"

definition rs_Kill :: "raft_ShardKV \<Rightarrow> raft_ShardKV" where
  "rs_Kill kv = kv\<lparr>rs_rf := Kill (rs_rf kv)\<rparr>"

section \<open>The harness\<close>

type_synonym shard_net = "(string, string, unit, unit) Network"

record group =
  gg_gid :: int
  gg_servers :: "raft_ShardKV option list"
  gg_saved :: "unit gob Persister option list"
  gg_endnames :: "string list list"
  gg_mendnames :: "string list list"

record shard_config =
  kc_net :: shard_net
  kc_nmasters :: nat
  kc_masterservers :: "ShardMaster option list"
  kc_mck :: "string list"
  kc_ngroups :: nat
  kc_n :: nat
  kc_groups :: "group list"
  kc_clerks :: "nat \<rightharpoonup> string list"
  kc_nextClientId :: int
  kc_maxraftstate :: int

definition mastername :: "int \<Rightarrow> string" where
  "mastername i = ''master'' @ Itoa i"

definition servername :: "int \<Rightarrow> int \<Rightarrow> string" where
  "servername gid i = ''server-'' @ Itoa gid @ ''-'' @ Itoa i"

text \<open>A running server saves through the persister that its group holds.\<close>

definition group_saved :: "group \<Rightarrow> int \<Rightarrow> unit gob Persister option go" where
  "group_saved gg i =
     gbind (go_idx (gg_saved gg) i) (\<lambda>ps.
     gbind (go_idx (gg_servers gg) i) (\<lambda>s.
     Inr (case s of Some kv \<Rightarrow> map_option (\<lambda>_. persister (rs_rf kv)) ps | None \<Rightarrow> ps)))"

definition checklog :: "int \<Rightarrow> unit gob Persister \<Rightarrow> unit go" where
  "checklog maxraftstate ps =
     (let raft = RaftStateSize ps; snap = int (length (ReadSnapshot ps)) in
      if maxraftstate \<ge> 0 \<and> raft > 2 * maxraftstate
      then Inl (LogFatal ''persister.RaftStateSize() %v, but maxraftstate %v'')
      else if maxraftstate < 0 \<and> snap > 0
      then Inl (LogFatal ''maxraftstate is -1, but snapshot is non-empty!'')
      else Inr ())"

definition checklogs :: "shard_config \<Rightarrow> unit go" where
  "checklogs cfg =
     gfold (\<lambda>gi _. gfold (\<lambda>i _.
       gbind (go_idx (kc_groups cfg) (int gi)) (\<lambda>gg.
       gbind (group_saved gg (int i)) (\<lambda>ps.
       case ps of None \<Rightarrow> Inl NilDereference | Some ps \<Rightarrow> checklog (kc_maxraftstate cfg) ps)))
       [0..<kc_n cfg] ()) [0..<kc_ngroups cfg] ()"

subsection \<open>End points\<close>

text \<open>\<open>connect_end\<close> is the body that every loop over end points and \<open>make_end\<close> have: a new end
  point, connected to a server and enabled.\<close>

definition connect_end :: "string \<Rightarrow> string \<Rightarrow> shard_net \<Rightarrow> shard_net go" where
  "connect_end name server net = gbind (MakeEnd name net) (\<lambda>net. Inr (Enable name True (Connect name server net)))"

definition connect_ends :: "string list \<Rightarrow> (int \<Rightarrow> string) \<Rightarrow> nat \<Rightarrow> shard_net \<Rightarrow> shard_net go" where
  "connect_ends names server n net = gfold (\<lambda>j. connect_end (names ! j) (server (int j))) [0..<n] net"

definition skv_make_end :: "string \<Rightarrow> string \<Rightarrow> shard_config \<Rightarrow> shard_config go" where
  "skv_make_end name server cfg =
     gbind (connect_end name server (kc_net cfg)) (\<lambda>net. Inr (cfg\<lparr>kc_net := net\<rparr>))"

text \<open>The slice \<open>endnames\<close> of the client has \<open>n\<close> places and is filled with \<open>nmasters\<close> names. The
  result is the address of the clerk's entry together with its end points to the masters.\<close>

definition skv_makeClient :: "string list \<Rightarrow> nat \<Rightarrow> shard_config \<Rightarrow> (string list \<times> shard_config) go" where
  "skv_makeClient names ck cfg =
     gbind (gfold (\<lambda>j (endnames, net).
         gbind (go_upd endnames (int j) (names ! j)) (\<lambda>endnames.
         gbind (connect_end (names ! j) (mastername (int j)) net) (\<lambda>net.
         Inr (endnames, net))))
       [0..<kc_nmasters cfg] (replicate (kc_n cfg) [], kc_net cfg)) (\<lambda>(endnames, net).
     Inr (take (kc_nmasters cfg) names,
          cfg\<lparr>kc_net := net, kc_clerks := (kc_clerks cfg)(ck \<mapsto> endnames),
              kc_nextClientId := kc_nextClientId cfg + 1\<rparr>))"

definition skv_deleteClient :: "nat \<Rightarrow> shard_config \<Rightarrow> shard_config" where
  "skv_deleteClient ck cfg = cfg\<lparr>kc_clerks := (kc_clerks cfg)(ck := None)\<rparr>"

subsection \<open>Servers\<close>

definition skv_ShutdownServer :: "int \<Rightarrow> int \<Rightarrow> shard_config \<Rightarrow> shard_config go" where
  "skv_ShutdownServer gi i cfg =
     gbind (go_idx (kc_groups cfg) gi) (\<lambda>gg.
     gbind (gfold (\<lambda>j net.
         gbind (go_idx (gg_endnames gg) i) (\<lambda>es.
         gbind (go_idx es (int j)) (\<lambda>name.
         Inr (Enable name False net))))
       [0..<length (gg_servers gg)] (kc_net cfg)) (\<lambda>net.
     gbind (go_idx (gg_mendnames gg) i) (\<lambda>ms.
     gbind (group_saved gg i) (\<lambda>saved.
     let net = DeleteServer (servername (gg_gid gg) i) (fold (\<lambda>name. Enable name False) ms net);
         gg = gg\<lparr>gg_saved := (gg_saved gg)[nat i := map_option Copy saved],
                 gg_servers := (gg_servers gg)[nat i := None]\<rparr>
     in Inr (cfg\<lparr>kc_net := net, kc_groups := (kc_groups cfg)[nat gi := gg]\<rparr>)))))"

definition skv_ShutdownGroup :: "int \<Rightarrow> shard_config \<Rightarrow> shard_config go" where
  "skv_ShutdownGroup gi cfg = gfold (\<lambda>i. skv_ShutdownServer gi (int i)) [0..<kc_n cfg] cfg"

definition skv_cleanup :: "shard_config \<Rightarrow> shard_config go" where
  "skv_cleanup cfg = gfold (\<lambda>gi. skv_ShutdownGroup (int gi)) [0..<kc_ngroups cfg] cfg"

definition skv_methods :: "(unit, unit) rmethod list" where
  "skv_methods = [reflected ''Get'' 3 0, reflected ''Kill'' 1 0, reflected ''PutAppend'' 3 0]"

definition skv_StartServer :: "string list \<Rightarrow> string list \<Rightarrow> int \<Rightarrow> int \<Rightarrow> shard_config \<Rightarrow> shard_config go" where
  "skv_StartServer names mnames gi i cfg =
     gbind (go_idx (kc_groups cfg) gi) (\<lambda>gg.
     gbind (go_upd (gg_endnames gg) i names) (\<lambda>endnames.
     gbind (connect_ends names (servername (gg_gid gg)) (kc_n cfg) (kc_net cfg)) (\<lambda>net.
     gbind (go_upd (gg_mendnames gg) i mnames) (\<lambda>mendnames.
     gbind (connect_ends mnames mastername (kc_nmasters cfg) net) (\<lambda>net.
     gbind (group_saved gg i) (\<lambda>saved.
     let saved = (case saved of Some ps \<Rightarrow> Copy ps | None \<Rightarrow> MakePersister);
         kv = rs_StartServer [0..<kc_n cfg] i saved (kc_maxraftstate cfg) (gg_gid gg) mnames;
         srv = AddService (MakeService ''Raft'' () raft_methods)
                 (AddService (MakeService ''ShardKV'' () skv_methods) MakeServer);
         (a, net) = new_server srv net;
         gg = gg\<lparr>gg_endnames := endnames, gg_mendnames := mendnames,
                 gg_saved := (gg_saved gg)[nat i := Some saved],
                 gg_servers := (gg_servers gg)[nat i := Some kv]\<rparr>
     in Inr (cfg\<lparr>kc_net := AddServer (servername (gg_gid gg) i) a net,
                 kc_groups := (kc_groups cfg)[nat gi := gg]\<rparr>)))))))"

definition skv_StartGroup :: "(nat \<Rightarrow> string list) \<Rightarrow> (nat \<Rightarrow> string list) \<Rightarrow> int \<Rightarrow> shard_config \<Rightarrow> shard_config go" where
  "skv_StartGroup names mnames gi cfg =
     gfold (\<lambda>i. skv_StartServer (names i) (mnames i) gi (int i)) [0..<kc_n cfg] cfg"

definition StartMasterServer :: "string list \<Rightarrow> int \<Rightarrow> shard_config \<Rightarrow> shard_config go" where
  "StartMasterServer names i cfg =
     gbind (connect_ends names mastername (kc_nmasters cfg) (kc_net cfg)) (\<lambda>net.
     let sm = sm_StartServer [0..<kc_nmasters cfg] i MakePersister in
     gbind (go_upd (kc_masterservers cfg) i (Some sm)) (\<lambda>masterservers.
     let srv = AddService (MakeService ''Raft'' () raft_methods)
                 (AddService (MakeService ''ShardMaster'' () sm_methods) MakeServer);
         (a, net) = new_server srv net
     in Inr (cfg\<lparr>kc_net := AddServer (mastername i) a net, kc_masterservers := masterservers\<rparr>)))"

subsection \<open>Talking to the masters\<close>

text \<open>A clerk of the shardmaster is the list of its end points.\<close>

definition shardclerk :: "string list \<Rightarrow> shard_config \<Rightarrow> (string list \<times> shard_config) go" where
  "shardclerk names cfg =
     gbind (connect_ends names mastername (kc_nmasters cfg) (kc_net cfg)) (\<lambda>net.
     Inr (take (kc_nmasters cfg) names, cfg\<lparr>kc_net := net\<rparr>))"

definition joinm_servers :: "int list \<Rightarrow> shard_config \<Rightarrow> (int \<times> string list) list go" where
  "joinm_servers gis cfg =
     gfold (\<lambda>g m. gbind (go_idx (kc_groups cfg) g) (\<lambda>gg.
       Inr (AList.update (gg_gid gg) (map (\<lambda>i. servername (gg_gid gg) (int i)) [0..<kc_n cfg]) m))) gis []"

text \<open>\<open>c\<close> and \<open>sleep\<close> are the environment of the clerk and \<open>fuel\<close> bounds its rounds, as in
  \<open>Shard_Clerk\<close>.\<close>

definition joinm ::
  "(string \<Rightarrow> JoinArgs \<Rightarrow> 'w \<Rightarrow> MasterReply option \<times> 'w) \<Rightarrow> ('w \<Rightarrow> 'w) \<Rightarrow> nat \<Rightarrow> int list \<Rightarrow> shard_config \<Rightarrow> 'w \<Rightarrow>
   (unit option \<times> 'w) go" where
  "joinm c sleep fuel gis cfg w =
     gbind (joinm_servers gis cfg) (\<lambda>m. Inr (Shard_Clerk.Join c sleep (kc_mck cfg) fuel m w))"

definition join where
  "join c sleep fuel gi cfg w = joinm c sleep fuel [gi] cfg w"

definition leavem ::
  "(string \<Rightarrow> LeaveArgs \<Rightarrow> 'w \<Rightarrow> MasterReply option \<times> 'w) \<Rightarrow> ('w \<Rightarrow> 'w) \<Rightarrow> nat \<Rightarrow> int list \<Rightarrow> shard_config \<Rightarrow> 'w \<Rightarrow>
   (unit option \<times> 'w) go" where
  "leavem c sleep fuel gis cfg w =
     gbind (gfold (\<lambda>g gids. gbind (go_idx (kc_groups cfg) g) (\<lambda>gg. Inr (gids @ [gg_gid gg]))) gis []) (\<lambda>gids.
     Inr (Leave c sleep (kc_mck cfg) fuel gids w))"

definition leave where
  "leave c sleep fuel gi cfg w = leavem c sleep fuel [gi] cfg w"

subsection \<open>Construction\<close>

definition new_group :: "nat \<Rightarrow> nat \<Rightarrow> nat \<Rightarrow> group" where
  "new_group n nmasters gi = \<lparr>gg_gid = 100 + int gi, gg_servers = replicate n None,
     gg_saved = replicate n None, gg_endnames = replicate n [], gg_mendnames = replicate nmasters []\<rparr>"

definition skv_empty :: "int \<Rightarrow> shard_config" where
  "skv_empty maxraftstate = \<lparr>kc_net = MakeNetwork, kc_nmasters = 3, kc_masterservers = replicate 3 None,
     kc_mck = [], kc_ngroups = 0, kc_n = 0, kc_groups = [], kc_clerks = Map.empty, kc_nextClientId = 0,
     kc_maxraftstate = maxraftstate\<rparr>"

text \<open>\<open>mst i\<close>, \<open>cl\<close>, \<open>nm gi i\<close> and \<open>mnm gi i\<close> are the random names of the end points of master
  \<open>i\<close>, of the shardmaster clerk, and of server \<open>i\<close> of group \<open>gi\<close> to its group and to the
  masters. The groups are created one after the other.\<close>

definition skv_make_config ::
  "(nat \<Rightarrow> string list) \<Rightarrow> string list \<Rightarrow> (nat \<Rightarrow> nat \<Rightarrow> string list) \<Rightarrow> (nat \<Rightarrow> nat \<Rightarrow> string list) \<Rightarrow>
   nat \<Rightarrow> bool \<Rightarrow> int \<Rightarrow> shard_config go" where
  "skv_make_config mst cl nm mnm n unreliable maxraftstate =
     gbind (gfold (\<lambda>i. StartMasterServer (mst i) (int i)) [0..<3] (skv_empty maxraftstate)) (\<lambda>cfg.
     gbind (shardclerk cl cfg) (\<lambda>(mck, cfg).
     gbind (gfold (\<lambda>gi cfg. skv_StartGroup (nm gi) (mnm gi) (int gi)
               (cfg\<lparr>kc_groups := kc_groups cfg @ [new_group n (kc_nmasters cfg) gi]\<rparr>))
             [0..<3] (cfg\<lparr>kc_mck := mck, kc_ngroups := 3, kc_n := n\<rparr>)) (\<lambda>cfg.
     Inr (cfg\<lparr>kc_clerks := Map.empty, kc_nextClientId := int n + 1000,
              kc_net := Reliable (\<not> unreliable) (kc_net cfg)\<rparr>))))"

end
