(* ===== verification/Shardkv_Correct.thy ===== *)
theory Shardkv_Correct
  imports Shardkv_Config
begin

text \<open>
  What the harness of the sharded key/value service builds: which end points lead to which
  servers, and for which group sizes the construction works.
\<close>

section \<open>Wires\<close>

text \<open>The end points of the network are \<open>E\<close>, those in \<open>W\<close> are enabled and connected to the
  server named with them, and the servers named in \<open>S\<close> are registered.\<close>

definition wired :: "shard_net \<Rightarrow> string set \<Rightarrow> (string \<times> string) set \<Rightarrow> string set \<Rightarrow> bool" where
  "wired net E W S \<longleftrightarrow> {e. net_ends net e} = E \<and> fst ` W \<subseteq> E \<and>
     (\<forall>(e, t)\<in>W. link_on net e \<and> connections net e = Some t) \<and> S \<subseteq> dom (net_servers net)"

lemma wired_AddServer:
  "wired net E W S \<Longrightarrow> new_server srv net = (a, net') \<Longrightarrow> wired (AddServer s a net') E W (insert s S)"
  by (auto simp: wired_def new_server_def AddServer_def link_on_def)

lemma wired_Reliable: "wired (Reliable b net) E W S = wired net E W S"
  by (simp add: wired_def Reliable_def link_on_def)

lemma connect_end_wired:
  assumes "wired net E W S" and "e \<notin> E"
  shows "\<exists>net'. connect_end e t net = Inr net' \<and> wired net' (insert e E) (insert (e, t) W) S"
proof -
  have "\<not> net_ends net e" using assms by (auto simp: wired_def)
  moreover have "e' \<noteq> e" if "(e', t') \<in> W" for e' t' using that assms by (force simp: wired_def)
  ultimately show ?thesis using assms(1)
    by (auto simp: connect_end_def MakeEnd_def Connect_def Enable_def wired_def link_on_def)
qed

definition targets :: "string list \<Rightarrow> (int \<Rightarrow> string) \<Rightarrow> (string \<times> string) set" where
  "targets names server = set (zip names (map (\<lambda>j. server (int j)) [0..<length names]))"

lemma targets_nth: "j < length names \<Longrightarrow> (names ! j, server (int j)) \<in> targets names server"
  by (force simp: targets_def set_zip)

lemma connect_ends_wired:
  assumes w: "wired net E W S" and d: "distinct names" "set names \<inter> E = {}" and n: "length names = n"
  shows "\<exists>net'. connect_ends names server n net = Inr net' \<and>
    wired net' (E \<union> set names) (W \<union> targets names server) S"
proof -
  let ?P = "\<lambda>k net. wired net (E \<union> set (take k names)) (W \<union> set (take k (zip names (map (\<lambda>j. server (int j)) [0..<n])))) S"
  have "\<exists>net'. gfold (\<lambda>j. connect_end (names ! j) (server (int j))) [0..<n] net = Inr net' \<and> ?P n net'"
  proof (rule gfold_upt_inv [where P = ?P])
    show "?P 0 net" using w by simp
    fix k net assume k: "k < n" and P: "?P k net"
    have "names ! k \<in> set names" "names ! k \<notin> set (take k names)"
      using nth_first [OF d(1)] k n by simp_all
    with d(2) have "names ! k \<notin> E \<union> set (take k names)" by blast
    from connect_end_wired [OF P this, of "server (int k)"] k n
    show "\<exists>net'. connect_end (names ! k) (server (int k)) net = Inr net' \<and> ?P (Suc k) net'"
      by (simp add: take_Suc_conv_app_nth)
  qed
  then show ?thesis using n by (simp add: connect_ends_def targets_def)
qed

section \<open>Starting the masters and the groups\<close>

lemma StartMasterServer_wired:
  assumes "wired (kc_net cfg) E W S" and "distinct names" "set names \<inter> E = {}" "length names = kc_nmasters cfg"
    and "0 \<le> i" "i < int (length (kc_masterservers cfg))"
  shows "\<exists>net ms. StartMasterServer names i cfg = Inr (cfg\<lparr>kc_net := net, kc_masterservers := ms\<rparr>) \<and>
    length ms = length (kc_masterservers cfg) \<and>
    wired net (E \<union> set names) (W \<union> targets names mastername) (insert (mastername i) S)"
proof -
  from connect_ends_wired [OF assms(1-4)] obtain net where
    net: "connect_ends names mastername (kc_nmasters cfg) (kc_net cfg) = Inr net"
    "wired net (E \<union> set names) (W \<union> targets names mastername) S" by blast
  define srv where "srv = AddService (MakeService ''Raft'' () raft_methods)
    (AddService (MakeService ''ShardMaster'' () sm_methods) (MakeServer :: (unit, unit) Server))"
  obtain a net' where ns: "new_server srv net = (a, net')" by (cases "new_server srv net")
  have "StartMasterServer names i cfg = Inr (cfg\<lparr>kc_net := AddServer (mastername i) a net',
      kc_masterservers := (kc_masterservers cfg)[nat i := Some (sm_StartServer [0..<kc_nmasters cfg] i MakePersister)]\<rparr>)"
    using net(1) assms(5,6) ns by (simp add: StartMasterServer_def go_upd_def srv_def)
  with wired_AddServer [OF net(2) ns] show ?thesis by (intro exI conjI) (assumption, simp_all)
qed

text \<open>The sizes of a group's slices.\<close>

definition group_ok :: "shard_config \<Rightarrow> group \<Rightarrow> bool" where
  "group_ok cfg gg \<longleftrightarrow> length (gg_servers gg) = kc_n cfg \<and> length (gg_saved gg) = kc_n cfg \<and>
     length (gg_endnames gg) = kc_n cfg \<and> length (gg_mendnames gg) = kc_nmasters cfg"

lemma skv_StartServer_wired:
  assumes "wired (kc_net cfg) E W S" and d: "distinct (names @ mnames)" "set (names @ mnames) \<inter> E = {}"
    and n: "length names = kc_n cfg" "length mnames = kc_nmasters cfg"
    and gi: "gi < length (kc_groups cfg)" and gg: "kc_groups cfg ! gi = gg" "group_ok cfg gg"
    and i: "i < kc_n cfg" "i < kc_nmasters cfg"
  shows "\<exists>net gg'. skv_StartServer names mnames (int gi) (int i) cfg =
      Inr (cfg\<lparr>kc_net := net, kc_groups := (kc_groups cfg)[gi := gg']\<rparr>) \<and> group_ok cfg gg' \<and> gg_gid gg' = gg_gid gg \<and>
    wired net (E \<union> set names \<union> set mnames) (W \<union> targets names (servername (gg_gid gg)) \<union> targets mnames mastername)
      (insert (servername (gg_gid gg) (int i)) S)"
proof -
  from connect_ends_wired [OF assms(1) _ _ n(1)] d obtain net1 where
    n1: "connect_ends names (servername (gg_gid gg)) (kc_n cfg) (kc_net cfg) = Inr net1"
    "wired net1 (E \<union> set names) (W \<union> targets names (servername (gg_gid gg))) S" by fastforce
  from connect_ends_wired [OF n1(2) _ _ n(2)] d obtain net2 where
    n2: "connect_ends mnames mastername (kc_nmasters cfg) net1 = Inr net2"
    "wired net2 (E \<union> set names \<union> set mnames)
      (W \<union> targets names (servername (gg_gid gg)) \<union> targets mnames mastername) S" by fastforce
  define srv where "srv = AddService (MakeService ''Raft'' () raft_methods)
    (AddService (MakeService ''ShardKV'' () skv_methods) (MakeServer :: (unit, unit) Server))"
  obtain a net where ns: "new_server srv net2 = (a, net)" by (cases "new_server srv net2")
  obtain saved where saved: "group_saved gg (int i) = Inr saved"
    using gg(2) i(1) by (simp add: group_saved_def go_idx_def group_ok_def)
  define ps where "ps = (case saved of Some ps \<Rightarrow> Copy ps | None \<Rightarrow> MakePersister)"
  define gg' where "gg' = gg\<lparr>gg_endnames := (gg_endnames gg)[i := names], gg_mendnames := (gg_mendnames gg)[i := mnames],
    gg_saved := (gg_saved gg)[i := Some ps], gg_servers := (gg_servers gg)[i := Some
      (rs_StartServer [0..<kc_n cfg] (int i) ps (kc_maxraftstate cfg) (gg_gid gg) mnames)]\<rparr>"
  have "skv_StartServer names mnames (int gi) (int i) cfg =
      Inr (cfg\<lparr>kc_net := AddServer (servername (gg_gid gg) (int i)) a net, kc_groups := (kc_groups cfg)[gi := gg']\<rparr>)"
    using n1(1) n2(1) gi gg i ns saved
    by (simp add: skv_StartServer_def go_idx_def go_upd_def group_ok_def srv_def gg'_def ps_def Let_def)
  moreover have "group_ok cfg gg'" "gg_gid gg' = gg_gid gg" using gg(2) by (simp_all add: gg'_def group_ok_def)
  ultimately show ?thesis using wired_AddServer [OF n2(2) ns] by blast
qed

text \<open>Server three needs a fourth slot of \<open>mendnames\<close>, which has one slot for each master.\<close>

lemma skv_StartServer_out_of_range:
  assumes "wired (kc_net cfg) E W S" and d: "distinct names" "set names \<inter> E = {}" "length names = kc_n cfg"
    and gi: "gi < length (kc_groups cfg)" and gg: "kc_groups cfg ! gi = gg" "group_ok cfg gg"
    and i: "i < kc_n cfg" "kc_nmasters cfg \<le> i"
  shows "skv_StartServer names mnames (int gi) (int i) cfg = Inl IndexOutOfRange"
proof -
  from connect_ends_wired [OF assms(1) d] obtain net1 where
    n1: "connect_ends names (servername (gg_gid gg)) (kc_n cfg) (kc_net cfg) = Inr net1" by blast
  with gi gg i show ?thesis
    by (simp add: skv_StartServer_def go_idx_def go_upd_def group_ok_def)
qed

definition group_names :: "(nat \<Rightarrow> string list) \<Rightarrow> (nat \<Rightarrow> string list) \<Rightarrow> nat \<Rightarrow> string list" where
  "group_names nm mnm n = concat (map (\<lambda>i. nm i @ mnm i) [0..<n])"

definition group_wires :: "(nat \<Rightarrow> string list) \<Rightarrow> (nat \<Rightarrow> string list) \<Rightarrow> int \<Rightarrow> nat \<Rightarrow> (string \<times> string) set" where
  "group_wires nm mnm gid n = (\<Union>i<n. targets (nm i) (servername gid) \<union> targets (mnm i) mastername)"

definition group_servers :: "int \<Rightarrow> nat \<Rightarrow> string set" where
  "group_servers gid n = (\<lambda>i. servername gid (int i)) ` {..<n}"

lemma starts_wired:
  assumes w: "wired (kc_net cfg) E W S" and d: "distinct (group_names nm mnm (kc_n cfg))"
    "set (group_names nm mnm (kc_n cfg)) \<inter> E = {}"
    and n: "\<And>i. i < kc_n cfg \<Longrightarrow> length (nm i) = kc_n cfg \<and> length (mnm i) = kc_nmasters cfg"
    and gi: "gi < length (kc_groups cfg)" and gg: "kc_groups cfg ! gi = gg" "group_ok cfg gg"
    and m: "m \<le> kc_n cfg" "m \<le> kc_nmasters cfg"
  shows "\<exists>net gg'. gfold (\<lambda>i. skv_StartServer (nm i) (mnm i) (int gi) (int i)) [0..<m] cfg =
      Inr (cfg\<lparr>kc_net := net, kc_groups := (kc_groups cfg)[gi := gg']\<rparr>) \<and> group_ok cfg gg' \<and> gg_gid gg' = gg_gid gg \<and>
    wired net (E \<union> set (group_names nm mnm m)) (W \<union> group_wires nm mnm (gg_gid gg) m)
      (S \<union> group_servers (gg_gid gg) m)"
proof -
  let ?P = "\<lambda>k c. \<exists>net gg'. c = cfg\<lparr>kc_net := net, kc_groups := (kc_groups cfg)[gi := gg']\<rparr> \<and> group_ok cfg gg' \<and>
    gg_gid gg' = gg_gid gg \<and> wired net (E \<union> set (group_names nm mnm k)) (W \<union> group_wires nm mnm (gg_gid gg) k)
      (S \<union> group_servers (gg_gid gg) k)"
  have "\<exists>c. gfold (\<lambda>i. skv_StartServer (nm i) (mnm i) (int gi) (int i)) [0..<m] cfg = Inr c \<and> ?P m c"
  proof (rule gfold_upt_inv [where P = ?P])
    have "cfg = cfg\<lparr>kc_net := kc_net cfg, kc_groups := (kc_groups cfg)[gi := gg]\<rparr>" using gg(1) by auto
    then show "?P 0 cfg" using w gg(2)
      by (intro exI [of _ "kc_net cfg"] exI [of _ gg]) (simp add: group_names_def group_wires_def group_servers_def)
    fix k c assume k: "k < m" and "?P k c"
    then obtain net gg1 where c: "c = cfg\<lparr>kc_net := net, kc_groups := (kc_groups cfg)[gi := gg1]\<rparr>"
      and g1: "group_ok cfg gg1" "gg_gid gg1 = gg_gid gg"
      and w1: "wired (kc_net c) (E \<union> set (group_names nm mnm k)) (W \<union> group_wires nm mnm (gg_gid gg) k)
        (S \<union> group_servers (gg_gid gg) k)" by auto
    have kn: "k < kc_n cfg" "k < kc_nmasters cfg" using k m by simp_all
    note p = distinct_concat_part [OF d(1) [unfolded group_names_def] kn(1)]
    have dk: "distinct (nm k @ mnm k)" "set (nm k @ mnm k) \<inter> (E \<union> set (group_names nm mnm k)) = {}"
      using p d(2) unfolding group_names_def by blast+
    have "\<exists>net gg'. skv_StartServer (nm k) (mnm k) (int gi) (int k) c =
        Inr (c\<lparr>kc_net := net, kc_groups := (kc_groups c)[gi := gg']\<rparr>) \<and> group_ok c gg' \<and> gg_gid gg' = gg_gid gg1 \<and>
      wired net (E \<union> set (group_names nm mnm k) \<union> set (nm k) \<union> set (mnm k))
        (W \<union> group_wires nm mnm (gg_gid gg) k \<union> targets (nm k) (servername (gg_gid gg1)) \<union> targets (mnm k) mastername)
        (insert (servername (gg_gid gg1) (int k)) (S \<union> group_servers (gg_gid gg) k))"
      by (rule skv_StartServer_wired [OF w1 dk]) (use n [OF kn(1)] gi g1 kn in \<open>simp_all add: c group_ok_def\<close>)
    then obtain net' gg' where r: "skv_StartServer (nm k) (mnm k) (int gi) (int k) c =
        Inr (c\<lparr>kc_net := net', kc_groups := (kc_groups c)[gi := gg']\<rparr>)" "group_ok c gg'" "gg_gid gg' = gg_gid gg"
      "wired net' (E \<union> set (group_names nm mnm k) \<union> set (nm k) \<union> set (mnm k))
        (W \<union> group_wires nm mnm (gg_gid gg) k \<union> targets (nm k) (servername (gg_gid gg)) \<union> targets (mnm k) mastername)
        (insert (servername (gg_gid gg) (int k)) (S \<union> group_servers (gg_gid gg) k))"
      unfolding g1(2) by blast
    have sets: "E \<union> set (group_names nm mnm k) \<union> set (nm k) \<union> set (mnm k) = E \<union> set (group_names nm mnm (Suc k))"
      "W \<union> group_wires nm mnm (gg_gid gg) k \<union> targets (nm k) (servername (gg_gid gg)) \<union> targets (mnm k) mastername =
        W \<union> group_wires nm mnm (gg_gid gg) (Suc k)"
      "insert (servername (gg_gid gg) (int k)) (S \<union> group_servers (gg_gid gg) k) = S \<union> group_servers (gg_gid gg) (Suc k)"
      by (auto simp: group_names_def group_wires_def group_servers_def lessThan_Suc)
    have "c\<lparr>kc_net := net', kc_groups := (kc_groups c)[gi := gg']\<rparr> =
        cfg\<lparr>kc_net := net', kc_groups := (kc_groups cfg)[gi := gg']\<rparr>" by (simp add: c)
    moreover have "group_ok cfg gg'" using r(2) by (simp add: group_ok_def c)
    ultimately show "\<exists>c'. skv_StartServer (nm k) (mnm k) (int gi) (int k) c = Inr c' \<and> ?P (Suc k) c'"
      using r(1,3) r(4) [unfolded sets] by metis
  qed
  then show ?thesis by blast
qed

section \<open>The construction\<close>

lemma masters_wired:
  assumes d: "distinct (concat (map mst [0..<3]))" and n: "\<forall>i<3. length (mst i) = 3"
  shows "\<exists>net ms. gfold (\<lambda>i. StartMasterServer (mst i) (int i)) [0..<3] (skv_empty mrs) =
      Inr ((skv_empty mrs)\<lparr>kc_net := net, kc_masterservers := ms\<rparr>) \<and>
    wired net (set (concat (map mst [0..<3]))) (\<Union>i<3. targets (mst i) mastername) ((\<lambda>i. mastername (int i)) ` {..<3})"
proof -
  let ?P = "\<lambda>k c. \<exists>net ms. c = (skv_empty mrs)\<lparr>kc_net := net, kc_masterservers := ms\<rparr> \<and> length ms = 3 \<and>
    wired net (set (concat (map mst [0..<k]))) (\<Union>i<k. targets (mst i) mastername) ((\<lambda>i. mastername (int i)) ` {..<k})"
  have "\<exists>c. gfold (\<lambda>i. StartMasterServer (mst i) (int i)) [0..<3] (skv_empty mrs) = Inr c \<and> ?P 3 c"
  proof (rule gfold_upt_inv [where P = ?P])
    show "?P 0 (skv_empty mrs)"
      by (intro exI [of _ MakeNetwork] exI [of _ "replicate 3 None"])
        (simp add: skv_empty_def wired_def MakeNetwork_def)
    fix k c assume k: "k < 3" and "?P k c"
    then obtain net ms where c: "c = (skv_empty mrs)\<lparr>kc_net := net, kc_masterservers := ms\<rparr>" "length ms = 3"
      and w: "wired (kc_net c) (set (concat (map mst [0..<k]))) (\<Union>i<k. targets (mst i) mastername)
        ((\<lambda>i. mastername (int i)) ` {..<k})" by auto
    note p = distinct_concat_part [OF d k]
    have "\<exists>net' ms'. StartMasterServer (mst k) (int k) c = Inr (c\<lparr>kc_net := net', kc_masterservers := ms'\<rparr>) \<and>
        length ms' = length (kc_masterservers c) \<and> wired net' (set (concat (map mst [0..<k])) \<union> set (mst k))
        ((\<Union>i<k. targets (mst i) mastername) \<union> targets (mst k) mastername)
        (insert (mastername (int k)) ((\<lambda>i. mastername (int i)) ` {..<k}))"
      by (rule StartMasterServer_wired [OF w p(1,2)]) (use n k c in \<open>simp_all add: skv_empty_def\<close>)
    then obtain net' ms' where r: "StartMasterServer (mst k) (int k) c = Inr (c\<lparr>kc_net := net', kc_masterservers := ms'\<rparr>)"
      "length ms' = 3" "wired net' (set (concat (map mst [0..<k])) \<union> set (mst k))
        ((\<Union>i<k. targets (mst i) mastername) \<union> targets (mst k) mastername)
        (insert (mastername (int k)) ((\<lambda>i. mastername (int i)) ` {..<k}))" by (auto simp: c)
    have sets: "set (concat (map mst [0..<k])) \<union> set (mst k) = set (concat (map mst [0..<Suc k]))"
      "(\<Union>i<k. targets (mst i) mastername) \<union> targets (mst k) mastername = (\<Union>i<Suc k. targets (mst i) mastername)"
      "insert (mastername (int k)) ((\<lambda>i. mastername (int i)) ` {..<k}) = (\<lambda>i. mastername (int i)) ` {..<Suc k}"
      by (auto simp: lessThan_Suc)
    have "c\<lparr>kc_net := net', kc_masterservers := ms'\<rparr> = (skv_empty mrs)\<lparr>kc_net := net', kc_masterservers := ms'\<rparr>"
      by (simp add: c)
    with r(1,2) r(3) [unfolded sets]
    show "\<exists>c'. StartMasterServer (mst k) (int k) c = Inr c' \<and> ?P (Suc k) c'" by metis
  qed
  then show ?thesis by blast
qed

lemma group_step:
  assumes w: "wired (kc_net cfg) E W S" and d: "distinct (group_names nm mnm (kc_n cfg))"
    "set (group_names nm mnm (kc_n cfg)) \<inter> E = {}"
    and n: "\<And>i. i < kc_n cfg \<Longrightarrow> length (nm i) = kc_n cfg \<and> length (mnm i) = kc_nmasters cfg"
    and gi: "length (kc_groups cfg) = gi" and m: "m \<le> kc_n cfg" "m \<le> kc_nmasters cfg"
  shows "\<exists>net gg. gfold (\<lambda>i. skv_StartServer (nm i) (mnm i) (int gi) (int i)) [0..<m]
        (cfg\<lparr>kc_groups := kc_groups cfg @ [new_group (kc_n cfg) (kc_nmasters cfg) gi]\<rparr>) =
      Inr (cfg\<lparr>kc_net := net, kc_groups := kc_groups cfg @ [gg]\<rparr>) \<and> group_ok cfg gg \<and> gg_gid gg = 100 + int gi \<and>
    wired net (E \<union> set (group_names nm mnm m)) (W \<union> group_wires nm mnm (100 + int gi) m)
      (S \<union> group_servers (100 + int gi) m)"
proof -
  define gg0 where "gg0 = new_group (kc_n cfg) (kc_nmasters cfg) gi"
  define c where "c = cfg\<lparr>kc_groups := kc_groups cfg @ [gg0]\<rparr>"
  have g: "gg_gid gg0 = 100 + int gi" by (simp add: gg0_def new_group_def)
  have "\<exists>net gg'. gfold (\<lambda>i. skv_StartServer (nm i) (mnm i) (int gi) (int i)) [0..<m] c =
      Inr (c\<lparr>kc_net := net, kc_groups := (kc_groups c)[gi := gg']\<rparr>) \<and> group_ok c gg' \<and> gg_gid gg' = gg_gid gg0 \<and>
    wired net (E \<union> set (group_names nm mnm m)) (W \<union> group_wires nm mnm (gg_gid gg0) m)
      (S \<union> group_servers (gg_gid gg0) m)"
    by (rule starts_wired)
      (use w d n gi m in \<open>simp_all add: c_def nth_append group_ok_def, simp_all add: gg0_def new_group_def\<close>)
  moreover have "c\<lparr>kc_net := net, kc_groups := (kc_groups c)[gi := gg']\<rparr> =
      cfg\<lparr>kc_net := net, kc_groups := kc_groups cfg @ [gg']\<rparr>" for net gg'
    using gi by (simp add: c_def list_update_append)
  moreover have "group_ok c gg' = group_ok cfg gg'" for gg' by (simp add: group_ok_def c_def)
  ultimately show ?thesis unfolding g gg0_def [symmetric] c_def [symmetric] by simp
qed

text \<open>All random names that the construction draws, in order.\<close>

definition all_names where
  "all_names mst cl nm mnm n = concat (map mst [0..<3]) @ cl @
     concat (map (\<lambda>gi. group_names (nm gi) (mnm gi) n) [0..<3])"

definition names_lengths where
  "names_lengths mst cl nm mnm n \<longleftrightarrow> list_all (\<lambda>i. length (mst i) = 3) [0..<3] \<and> length cl = 3 \<and>
     list_all (\<lambda>gi. list_all (\<lambda>i. length (nm gi i) = n \<and> length (mnm gi i) = 3) [0..<n]) [0..<3]"

definition base_wires where
  "base_wires mst cl = (\<Union>i<3. targets (mst i) mastername) \<union> targets cl mastername"

definition masters_registered :: "string set" where
  "masters_registered = (\<lambda>i. mastername (int i)) ` {..<3}"

lemma masters_and_clerk:
  assumes d: "distinct (all_names mst cl nm mnm n)" and len: "names_lengths mst cl nm mnm n"
  shows "\<exists>cfg. skv_make_config mst cl nm mnm n unr mrs =
      gbind (gfold (\<lambda>gi cfg. skv_StartGroup (nm gi) (mnm gi) (int gi)
               (cfg\<lparr>kc_groups := kc_groups cfg @ [new_group n (kc_nmasters cfg) gi]\<rparr>)) [0..<3] cfg) (\<lambda>cfg.
       Inr (cfg\<lparr>kc_clerks := Map.empty, kc_nextClientId := int n + 1000, kc_net := Reliable (\<not> unr) (kc_net cfg)\<rparr>)) \<and>
    kc_n cfg = n \<and> kc_nmasters cfg = 3 \<and> kc_groups cfg = [] \<and> kc_mck cfg = cl \<and>
    wired (kc_net cfg) (set (concat (map mst [0..<3]) @ cl)) (base_wires mst cl) masters_registered"
proof -
  have l: "\<forall>i<3. length (mst i) = 3" "length cl = 3" using len unfolding names_lengths_def list_all_iff by auto
  note dd = d [unfolded all_names_def distinct_append set_append]
  have dm: "distinct (concat (map mst [0..<3]))" using dd by (elim conjE)
  have dc1: "distinct cl" using dd by (elim conjE)
  have dc2: "set cl \<inter> set (concat (map mst [0..<3])) = {}" using dd by (elim conjE) (simp only: Int_Un_distrib Un_empty Int_commute)
  obtain net ms where m: "gfold (\<lambda>i. StartMasterServer (mst i) (int i)) [0..<3] (skv_empty mrs) =
      Inr ((skv_empty mrs)\<lparr>kc_net := net, kc_masterservers := ms\<rparr>)"
    "wired net (set (concat (map mst [0..<3]))) (\<Union>i<3. targets (mst i) mastername) masters_registered"
    using masters_wired [OF dm l(1), of mrs] unfolding masters_registered_def [symmetric]
    by (elim exE conjE) (rule that)
  obtain net' where c: "connect_ends cl mastername 3 net = Inr net'"
    "wired net' (set (concat (map mst [0..<3])) \<union> set cl) (base_wires mst cl) masters_registered"
    using connect_ends_wired [OF m(2) dc1 dc2 l(2), of mastername] unfolding base_wires_def [symmetric]
    by (elim exE conjE) (rule that)
  define cfg where "cfg = (skv_empty mrs)\<lparr>kc_net := net', kc_masterservers := ms, kc_mck := cl, kc_ngroups := 3, kc_n := n\<rparr>"
  have f: "kc_n cfg = n" "kc_nmasters cfg = 3" "kc_groups cfg = []" "kc_mck cfg = cl" "kc_net cfg = net'"
    by (simp_all add: cfg_def skv_empty_def)
  have "shardclerk cl ((skv_empty mrs)\<lparr>kc_net := net, kc_masterservers := ms\<rparr>) =
      Inr (cl, (skv_empty mrs)\<lparr>kc_net := net', kc_masterservers := ms\<rparr>)"
    using c(1) l(2) by (simp add: shardclerk_def skv_empty_def)
  then have "skv_make_config mst cl nm mnm n unr mrs =
      gbind (gfold (\<lambda>gi cfg. skv_StartGroup (nm gi) (mnm gi) (int gi)
               (cfg\<lparr>kc_groups := kc_groups cfg @ [new_group n (kc_nmasters cfg) gi]\<rparr>)) [0..<3] cfg) (\<lambda>cfg.
       Inr (cfg\<lparr>kc_clerks := Map.empty, kc_nextClientId := int n + 1000, kc_net := Reliable (\<not> unr) (kc_net cfg)\<rparr>))"
    unfolding skv_make_config_def m(1) gbind_Inr by (simp add: cfg_def del: upt_rec_numeral)
  with f c(2) show ?thesis by (intro exI [of _ cfg]) (simp del: upt_rec_numeral)
qed

lemma groups_wired:
  assumes w: "wired (kc_net cfg) E W S" and n: "n \<le> 3" and cfg: "kc_n cfg = n" "kc_nmasters cfg = 3" "kc_groups cfg = []"
    and d: "distinct (concat (map (\<lambda>gi. group_names (nm gi) (mnm gi) n) [0..<3]))"
    "set (concat (map (\<lambda>gi. group_names (nm gi) (mnm gi) n) [0..<3])) \<inter> E = {}"
    and len: "\<forall>gi<3. \<forall>i<n. length (nm gi i) = n \<and> length (mnm gi i) = 3"
  shows "\<exists>net gs. gfold (\<lambda>gi cfg. skv_StartGroup (nm gi) (mnm gi) (int gi)
        (cfg\<lparr>kc_groups := kc_groups cfg @ [new_group n (kc_nmasters cfg) gi]\<rparr>)) [0..<3] cfg =
      Inr (cfg\<lparr>kc_net := net, kc_groups := gs\<rparr>) \<and> map gg_gid gs = map (\<lambda>gi. 100 + int gi) [0..<3] \<and>
    wired net (E \<union> set (concat (map (\<lambda>gi. group_names (nm gi) (mnm gi) n) [0..<3])))
      (W \<union> (\<Union>gi<3. group_wires (nm gi) (mnm gi) (100 + int gi) n)) (S \<union> (\<Union>gi<3. group_servers (100 + int gi) n))"
    (is "\<exists>net gs. gfold ?F _ _ = _ \<and> _")
proof -
  let ?f = "\<lambda>gi. group_names (nm gi) (mnm gi) n"
  let ?E = "\<lambda>k. E \<union> set (concat (map ?f [0..<k]))"
    and ?W = "\<lambda>k. W \<union> (\<Union>gi<k. group_wires (nm gi) (mnm gi) (100 + int gi) n)"
    and ?S = "\<lambda>k. S \<union> (\<Union>gi<k. group_servers (100 + int gi) n)"
  let ?P = "\<lambda>k c. \<exists>net gs. c = cfg\<lparr>kc_net := net, kc_groups := gs\<rparr> \<and> map gg_gid gs = map (\<lambda>gi. 100 + int gi) [0..<k] \<and>
    wired net (?E k) (?W k) (?S k)"
  have "\<exists>c. gfold ?F [0..<3] cfg = Inr c \<and> ?P 3 c"
  proof (rule gfold_upt_inv [where P = ?P])
    have "cfg = cfg\<lparr>kc_net := kc_net cfg, kc_groups := []\<rparr>" using cfg(3) by auto
    then show "?P 0 cfg" using w by (intro exI [of _ "kc_net cfg"] exI [of _ "[]"]) simp
    fix k c assume k: "k < 3" and "?P k c"
    then obtain net gs where c: "c = cfg\<lparr>kc_net := net, kc_groups := gs\<rparr>"
      and gs: "map gg_gid gs = map (\<lambda>gi. 100 + int gi) [0..<k]" and w1: "wired net (?E k) (?W k) (?S k)" by blast
    have lk: "length gs = k" using arg_cong [OF gs, of length] by simp
    note p = distinct_concat_part [OF d(1) k]
    have dis: "set (?f k) \<inter> ?E k = {}" using p(2,3) d(2) by blast
    have cs: "kc_net c = net" "kc_n c = n" "kc_nmasters c = 3" "kc_groups c = gs" by (simp_all add: c cfg)
    have "\<exists>net gg. gfold (\<lambda>i. skv_StartServer (nm k i) (mnm k i) (int k) (int i)) [0..<n]
          (c\<lparr>kc_groups := gs @ [new_group n 3 k]\<rparr>) =
        Inr (c\<lparr>kc_net := net, kc_groups := gs @ [gg]\<rparr>) \<and> group_ok c gg \<and> gg_gid gg = 100 + int k \<and>
      wired net (?E k \<union> set (?f k)) (?W k \<union> group_wires (nm k) (mnm k) (100 + int k) n)
        (?S k \<union> group_servers (100 + int k) n)"
      by (rule group_step [where cfg = c, unfolded cs]) (rule w1 p(1) dis lk len [rule_format, OF k] le_refl n | assumption)+
    then obtain net' gg where r: "?F k c = Inr (cfg\<lparr>kc_net := net', kc_groups := gs @ [gg]\<rparr>)" "gg_gid gg = 100 + int k"
      "wired net' (?E k \<union> set (?f k)) (?W k \<union> group_wires (nm k) (mnm k) (100 + int k) n)
        (?S k \<union> group_servers (100 + int k) n)"
      unfolding skv_StartGroup_def cs by (simp add: c cfg(1)) blast
    have sets: "?E k \<union> set (?f k) = ?E (Suc k)"
      "?W k \<union> group_wires (nm k) (mnm k) (100 + int k) n = ?W (Suc k)"
      "?S k \<union> group_servers (100 + int k) n = ?S (Suc k)" by (auto simp: lessThan_Suc)
    have "map gg_gid (gs @ [gg]) = map (\<lambda>gi. 100 + int gi) [0..<Suc k]" using gs r(2) by simp
    with r(3) [unfolded sets] have P: "?P (Suc k) (cfg\<lparr>kc_net := net', kc_groups := gs @ [gg]\<rparr>)"
      by (intro exI conjI) (rule refl)
    show "\<exists>c'. ?F k c = Inr c' \<and> ?P (Suc k) c'"
      by (rule exI [where x = "cfg\<lparr>kc_net := net', kc_groups := gs @ [gg]\<rparr>"], rule conjI [OF r(1) P])
  qed
  then show ?thesis by blast
qed

lemma make_config_wired:
  assumes d: "distinct (all_names mst cl nm mnm n)" and len: "names_lengths mst cl nm mnm n" and n: "n \<le> 3"
  shows "\<exists>cfg E. skv_make_config mst cl nm mnm n unr mrs = Inr cfg \<and> kc_n cfg = n \<and> kc_nmasters cfg = 3 \<and> kc_mck cfg = cl \<and>
    map gg_gid (kc_groups cfg) = map (\<lambda>gi. 100 + int gi) [0..<3] \<and>
    wired (kc_net cfg) E (base_wires mst cl \<union> (\<Union>gi<3. group_wires (nm gi) (mnm gi) (100 + int gi) n))
      (masters_registered \<union> (\<Union>gi<3. group_servers (100 + int gi) n))"
proof -
  let ?f = "\<lambda>gi. group_names (nm gi) (mnm gi) n"
  obtain cfg where c: "skv_make_config mst cl nm mnm n unr mrs =
      gbind (gfold (\<lambda>gi cfg. skv_StartGroup (nm gi) (mnm gi) (int gi)
               (cfg\<lparr>kc_groups := kc_groups cfg @ [new_group n (kc_nmasters cfg) gi]\<rparr>)) [0..<3] cfg) (\<lambda>cfg.
       Inr (cfg\<lparr>kc_clerks := Map.empty, kc_nextClientId := int n + 1000, kc_net := Reliable (\<not> unr) (kc_net cfg)\<rparr>))"
    and cf: "kc_n cfg = n" "kc_nmasters cfg = 3" "kc_groups cfg = []" "kc_mck cfg = cl"
    and w: "wired (kc_net cfg) (set (concat (map mst [0..<3]) @ cl)) (base_wires mst cl) masters_registered"
    using masters_and_clerk [OF d len, of unr mrs] by (elim exE conjE) (rule that)
  have l: "\<forall>gi<3. \<forall>i<n. length (nm gi i) = n \<and> length (mnm gi i) = 3"
    using len unfolding names_lengths_def list_all_iff by auto
  have d1: "distinct (concat (map ?f [0..<3]))"
    using d unfolding all_names_def distinct_append by (elim conjE)
  have d2: "set (concat (map ?f [0..<3])) \<inter> set (concat (map mst [0..<3]) @ cl) = {}"
    using d unfolding all_names_def append_assoc [symmetric] distinct_append
    by (elim conjE) (simp only: Int_commute)
  obtain net gs where g: "gfold (\<lambda>gi cfg. skv_StartGroup (nm gi) (mnm gi) (int gi)
        (cfg\<lparr>kc_groups := kc_groups cfg @ [new_group n (kc_nmasters cfg) gi]\<rparr>)) [0..<3] cfg =
      Inr (cfg\<lparr>kc_net := net, kc_groups := gs\<rparr>)" "map gg_gid gs = map (\<lambda>gi. 100 + int gi) [0..<3]"
    "wired net (set (concat (map mst [0..<3]) @ cl) \<union> set (concat (map ?f [0..<3])))
      (base_wires mst cl \<union> (\<Union>gi<3. group_wires (nm gi) (mnm gi) (100 + int gi) n))
      (masters_registered \<union> (\<Union>gi<3. group_servers (100 + int gi) n))"
    using groups_wired [OF w n cf(1-3) d1 d2 l] by (elim exE conjE) (rule that)
  define cfg' where "cfg' = cfg\<lparr>kc_net := Reliable (\<not> unr) net, kc_groups := gs, kc_clerks := Map.empty,
    kc_nextClientId := int n + 1000\<rparr>"
  have "skv_make_config mst cl nm mnm n unr mrs = Inr cfg'"
    unfolding c g(1) gbind_Inr by (simp add: cfg'_def)
  moreover have "kc_n cfg' = n" "kc_nmasters cfg' = 3" "kc_mck cfg' = cl" "kc_groups cfg' = gs" "kc_net cfg' = Reliable (\<not> unr) net"
    by (simp_all add: cfg'_def cf)
  ultimately show ?thesis
    using g(2,3) wired_Reliable [of "\<not> unr" net] by (intro exI [of _ cfg'] exI conjI) (simp_all only:)
qed

text \<open>With more than three servers in a group the construction runs out of \<open>mendnames\<close>.\<close>

lemma make_config_panics:
  assumes d: "distinct (all_names mst cl nm mnm n)" and len: "names_lengths mst cl nm mnm n" and n: "3 < n"
  shows "skv_make_config mst cl nm mnm n unr mrs = Inl IndexOutOfRange"
proof -
  let ?f = "\<lambda>gi. group_names (nm gi) (mnm gi) n"
  let ?start = "\<lambda>i. skv_StartServer (nm 0 i) (mnm 0 i) (int 0) (int i)"
  obtain cfg where c: "skv_make_config mst cl nm mnm n unr mrs =
      gbind (gfold (\<lambda>gi cfg. skv_StartGroup (nm gi) (mnm gi) (int gi)
               (cfg\<lparr>kc_groups := kc_groups cfg @ [new_group n (kc_nmasters cfg) gi]\<rparr>)) [0..<3] cfg) (\<lambda>cfg.
       Inr (cfg\<lparr>kc_clerks := Map.empty, kc_nextClientId := int n + 1000, kc_net := Reliable (\<not> unr) (kc_net cfg)\<rparr>))"
    and cf: "kc_n cfg = n" "kc_nmasters cfg = 3" "kc_groups cfg = []"
    and w: "wired (kc_net cfg) (set (concat (map mst [0..<3]) @ cl)) (base_wires mst cl) masters_registered"
    using masters_and_clerk [OF d len, of unr mrs] by (elim exE conjE) (rule that)
  define E where "E = set (concat (map mst [0..<3]) @ cl)"
  have l: "length (nm 0 i) = n \<and> length (mnm 0 i) = 3" if "i < n" for i
    using len that unfolding names_lengths_def list_all_iff by auto
  have d1: "distinct (concat (map ?f [0..<3]))"
    using d unfolding all_names_def distinct_append by (elim conjE)
  have d2: "set (concat (map ?f [0..<3])) \<inter> E = {}"
    using d unfolding E_def all_names_def append_assoc [symmetric] distinct_append
    by (elim conjE) (simp only: Int_commute)
  have d0: "distinct (?f 0)" "set (?f 0) \<inter> E = {}"
    using distinct_concat_part [OF d1, of 0] d2 by (auto simp del: upt_rec_numeral)
  define c0 where "c0 = cfg\<lparr>kc_groups := kc_groups cfg @ [new_group n (kc_nmasters cfg) 0]\<rparr>"
  have "\<exists>net gg. gfold ?start [0..<3] c0 = Inr (cfg\<lparr>kc_net := net, kc_groups := kc_groups cfg @ [gg]\<rparr>) \<and>
      group_ok cfg gg \<and> gg_gid gg = 100 + int 0 \<and>
      wired net (E \<union> set (group_names (nm 0) (mnm 0) 3)) (base_wires mst cl \<union> group_wires (nm 0) (mnm 0) (100 + int 0) 3)
        (masters_registered \<union> group_servers (100 + int 0) 3)"
    unfolding c0_def cf(1) [symmetric]
    by (rule group_step) (use w d0 l n cf in \<open>simp_all add: E_def del: upt_rec_numeral\<close>)
  then obtain net gg where g: "gfold ?start [0..<3] c0 = Inr (cfg\<lparr>kc_net := net, kc_groups := [gg]\<rparr>)" "group_ok cfg gg"
    "wired net (E \<union> set (group_names (nm 0) (mnm 0) 3)) (base_wires mst cl \<union> group_wires (nm 0) (mnm 0) (100 + int 0) 3)
        (masters_registered \<union> group_servers (100 + int 0) 3)"
    unfolding cf(3) append_Nil by (elim exE conjE) (rule that)
  define c1 where "c1 = cfg\<lparr>kc_net := net, kc_groups := [gg]\<rparr>"
  note p = distinct_concat_part [OF d0(1) [unfolded group_names_def] n]
  have "set (nm 0 3) \<inter> (E \<union> set (group_names (nm 0) (mnm 0) 3)) = {}"
    using p(2,3) d0(2) unfolding group_names_def by (auto simp del: upt_rec_numeral)
  then have "?start 3 c1 = Inl IndexOutOfRange"
    using p(1) l [OF n] g(2,3) n cf
    by (intro skv_StartServer_out_of_range [where gi = 0]) (auto simp: c1_def group_ok_def)
  moreover have "[0..<n] = [0..<3] @ 3 # [4..<n]"
    using upt_add_eq_append [of 0 3 "n - 3"] upt_conv_Cons [OF n] n by (simp del: upt_rec_numeral)
  ultimately have "skv_StartGroup (nm 0) (mnm 0) (int 0) c0 = Inl IndexOutOfRange"
    using g(1) cf(1) by (simp add: skv_StartGroup_def gfold_append c0_def c1_def del: upt_rec_numeral)
  moreover have "[0..<3] = 0 # [1..<3]" by (simp add: upt_conv_Cons)
  ultimately show ?thesis unfolding c by (simp add: c0_def del: upt_rec_numeral)
qed

section \<open>Clients\<close>

text \<open>A client's \<open>endnames\<close> has a place for each server of a group, but gets a name for each
  master.\<close>

lemma makeClient_result:
  assumes d: "distinct names" "length names = kc_nmasters cfg" and f: "\<forall>e\<in>set names. \<not> net_ends (kc_net cfg) e"
  shows "(kc_nmasters cfg \<le> kc_n cfg \<longrightarrow> (\<exists>cfg'. skv_makeClient names ck cfg = Inr (names, cfg'))) \<and>
    (kc_n cfg < kc_nmasters cfg \<longrightarrow> skv_makeClient names ck cfg = Inl IndexOutOfRange)"
proof -
  let ?F = "\<lambda>j (endnames, net). gbind (go_upd endnames (int j) (names ! j)) (\<lambda>endnames.
         gbind (connect_end (names ! j) (mastername (int j)) net) (\<lambda>net. Inr (endnames, net)))"
  let ?s = "(replicate (kc_n cfg) [], kc_net cfg)"
  let ?E = "\<lambda>k. {e. net_ends (kc_net cfg) e} \<union> set (take k names)"
  let ?P = "\<lambda>k (s :: string list \<times> shard_net). length (fst s) = kc_n cfg \<and> wired (snd s) (?E k) {} {}"
  have run: "\<exists>s. gfold ?F [0..<m] ?s = Inr s \<and> ?P m s" if m: "m \<le> kc_n cfg" "m \<le> kc_nmasters cfg" for m
  proof (rule gfold_upt_inv [where P = ?P])
    show "?P 0 ?s" by (simp add: wired_def)
    fix k s assume k: "k < m" and P: "?P k s"
    obtain es net where s: "s = (es, net)" by (cases s)
    have "names ! k \<in> set names" "names ! k \<notin> set (take k names)"
      using nth_first [OF d(1)] k m d(2) by simp_all
    with f have "names ! k \<notin> ?E k" by simp
    with P s obtain net' where r: "connect_end (names ! k) (mastername (int k)) net = Inr net'"
      "wired net' (insert (names ! k) (?E k)) {(names ! k, mastername (int k))} {}"
      using connect_end_wired [of net "?E k" "{}" "{}"] by auto
    have "insert (names ! k) (?E k) = ?E (Suc k)" using k m d(2) by (auto simp: take_Suc_conv_app_nth)
    with r(2) have "wired net' (?E (Suc k)) {} {}" by (simp add: wired_def)
    with P r(1) k m show "\<exists>s'. ?F k s = Inr s' \<and> ?P (Suc k) s'" by (simp add: s go_upd_def)
  qed
  show ?thesis
  proof (intro conjI impI)
    assume "kc_nmasters cfg \<le> kc_n cfg"
    with run [of "kc_nmasters cfg"] d(2) show "\<exists>cfg'. skv_makeClient names ck cfg = Inr (names, cfg')"
      by (auto simp: skv_makeClient_def)
  next
    assume less: "kc_n cfg < kc_nmasters cfg"
    with run [of "kc_n cfg"] obtain es net where s: "gfold ?F [0..<kc_n cfg] ?s = Inr (es, net)" "length es = kc_n cfg"
      by auto
    have split: "[0..<kc_nmasters cfg] = [0..<kc_n cfg] @ kc_n cfg # [Suc (kc_n cfg)..<kc_nmasters cfg]"
      using upt_add_eq_append [of 0 "kc_n cfg" "kc_nmasters cfg - kc_n cfg"] upt_conv_Cons [OF less] less by simp
    show "skv_makeClient names ck cfg = Inl IndexOutOfRange"
      unfolding skv_makeClient_def split gfold_append s(1) gbind_Inr using s(2) by (simp add: go_upd_def)
  qed
qed

section \<open>Joining\<close>

lemma joinm_servers_ok:
  assumes gs: "map gg_gid (kc_groups cfg) = map (\<lambda>gi. 100 + int gi) [0..<3]" and gis: "set gis \<subseteq> {0..<3}"
  shows "\<exists>m. joinm_servers gis cfg = Inr m \<and> (\<forall>gid. map_of m gid =
    (if gid - 100 \<in> set gis then Some (map (\<lambda>i. servername gid (int i)) [0..<kc_n cfg]) else None))"
proof -
  let ?names = "\<lambda>gid. map (\<lambda>i. servername gid (int i)) [0..<kc_n cfg]"
  let ?F = "\<lambda>g m. gbind (go_idx (kc_groups cfg) g) (\<lambda>gg. Inr (AList.update (gg_gid gg) (?names (gg_gid gg)) m))"
  have len: "length (kc_groups cfg) = 3" using arg_cong [OF gs, of length] by simp
  have gid: "\<exists>gg. go_idx (kc_groups cfg) g = Inr gg \<and> gg_gid gg = 100 + g" if "g \<in> {0..<3}" for g
  proof -
    have "gg_gid (kc_groups cfg ! nat g) = map (\<lambda>gi. 100 + int gi) [0..<3] ! nat g"
      using that len by (subst gs [symmetric]) (simp add: nat_less_iff)
    with that len show ?thesis by (simp add: go_idx_def nat_less_iff del: upt_rec_numeral)
  qed
  have F: "?F g m = Inr (AList.update (100 + g) (?names (100 + g)) m)" if "g \<in> {0..<3}" for g m
    using gid [OF that] by auto
  have "\<exists>m. gfold ?F gis m0 = Inr m \<and> (\<forall>gid. map_of m gid =
      (if gid - 100 \<in> set gis then Some (?names gid) else map_of m0 gid))" for m0
    using gis
  proof (induction gis arbitrary: m0)
    case (Cons g gis)
    let ?m1 = "AList.update (100 + g) (?names (100 + g)) m0"
    from Cons obtain m where m: "gfold ?F gis ?m1 = Inr m" "\<forall>gid. map_of m gid =
      (if gid - 100 \<in> set gis then Some (?names gid) else map_of ?m1 gid)" by fastforce
    have "gfold ?F (g # gis) m0 = Inr m" using F [of g m0] Cons.prems m(1) by (simp only: gfold.simps gbind_Inr set_simps
      insert_subset)
    with m(2) show ?case by (auto simp: update_conv')
  qed simp
  from this [of "[]"] show ?thesis unfolding joinm_servers_def by (simp only: map_of.simps(1))
qed

end
