(* ===== verification/Service_Props.thy ===== *)
theory Service_Props
  imports Shardmaster_Config Shardkv_Correct
begin

text \<open>
  Properties of the harnesses of the Raft based services.
\<close>

text \<open>C39: \<open>make_partition\<close> followed by \<open>partition\<close> does what the tests of the key/value service
  rely on. When all servers run, their end points have different names and their number is odd
  (at least three), the servers are split in a majority \<open>p1\<close> and a minority \<open>p2\<close>, the server
  that \<open>Leader\<close> finds is in the minority and does lead whenever any server leads, and afterwards
  the link from one server to another is enabled exactly when both are on the same side.\<close>

theorem partition_isolates_leader:
  assumes ok: "svc_ok cfg" and up: "length (sc_servers cfg) = sc_n cfg" "None \<notin> set (sc_servers cfg)"
    and n: "sc_n cfg = 2 * k + 1" "0 < k"
  shows "\<exists>b l p1 p2 cfg'. kv_Leader cfg = Inr (b, l) \<and> make_partition cfg = Inr (p1, p2) \<and>
    partition_cfg p1 p2 cfg = Inr cfg' \<and> length p1 = k + 1 \<and> length p2 = k \<and> l \<in> set p2 \<and>
    (b \<longleftrightarrow> (\<exists>kv. Some kv \<in> set (sc_servers cfg) \<and> State (rk_rf kv) = Leader)) \<and>
    (b \<longrightarrow> State (rk_rf (the (sc_servers cfg ! nat l))) = Leader) \<and>
    (\<forall>a\<in>servers_of cfg. \<forall>c\<in>servers_of cfg.
      link cfg' a c \<longleftrightarrow> a \<in> set p1 \<and> c \<in> set p1 \<or> a \<in> set p2 \<and> c \<in> set p2)"
proof -
  obtain b l p1 p2 where p: "kv_Leader cfg = Inr (b, l)" "make_partition cfg = Inr (p1, p2)"
    "distinct (p1 @ p2)" "set (p1 @ p2) = servers_of cfg" "length p1 = k + 1" "length p2 = k" "l \<in> set p2"
    using make_partition_ok [OF up n, of rk_rf] unfolding kv_Leader_def make_partition_def by blast
  obtain cfg' where q: "partition_cfg p1 p2 cfg = Inr cfg'" "\<forall>a\<in>servers_of cfg. \<forall>c\<in>servers_of cfg.
      link cfg' a c = (a \<in> set p1 \<and> c \<in> set p1 \<or> a \<in> set p2 \<and> c \<in> set p2)"
    using partition_links [OF ok p(3,4)] by blast
  obtain b' l' where L: "kv_Leader cfg = Inr (b', l')" "l' \<in> servers_of cfg"
    "b' \<longrightarrow> State (rk_rf (the (sc_servers cfg ! nat l'))) = Leader"
    "\<not> b' \<longrightarrow> (\<forall>kv. Some kv \<in> set (sc_servers cfg) \<longrightarrow> State (rk_rf kv) \<noteq> Leader)"
    using svc_Leader_ok [OF up, of rk_rf] n unfolding kv_Leader_def by auto
  have "sc_servers cfg ! nat l' \<in> set (sc_servers cfg)"
    using L(2) up(1) by (intro nth_mem) (auto simp: servers_of_def)
  with up(2) obtain kv where kv: "sc_servers cfg ! nat l' = Some kv" "Some kv \<in> set (sc_servers cfg)"
    by (cases "sc_servers cfg ! nat l'") auto
  have "b' = b" "l' = l" using p(1) L(1) by simp_all
  with L(3,4) kv have "b \<longleftrightarrow> (\<exists>kv. Some kv \<in> set (sc_servers cfg) \<and> State (rk_rf kv) = Leader)"
    "b \<longrightarrow> State (rk_rf (the (sc_servers cfg ! nat l))) = Leader" by auto
  with p q show ?thesis by blast
qed

definition dig :: "nat \<Rightarrow> char" where
  "dig i = ''012'' ! i"

lemma upt3: "[0..<3] = [0, 1, 2 :: nat]"
  by (simp add: upt_rec)

definition three_names :: "nat \<Rightarrow> string list" where
  "three_names i = map (\<lambda>j. [dig i, dig j]) [0..<3]"

theorem partition_isolates_leader_witness:
  "\<exists>cfg l p1 p2 cfg'. kv_make_config three_names 3 False (- 1) = Inr cfg \<and> kv_Leader cfg = Inr l \<and>
     make_partition cfg = Inr (p1, p2) \<and> partition_cfg p1 p2 cfg = Inr cfg' \<and> length p1 = 2 \<and>
     link cfg' 0 1 = (0 \<in> set p1 \<and> 1 \<in> set p1 \<or> 0 \<in> set p2 \<and> 1 \<in> set p2)"
proof -
  have "\<exists>cfg. kv_make_config three_names 3 False (- 1) = Inr cfg \<and> svc_ok cfg \<and> sc_n cfg = 3 \<and>
    length (sc_servers cfg) = 3 \<and> None \<notin> set (sc_servers cfg)"
  proof -
    have l: "\<forall>i<3. length (three_names i) = 3" by (simp add: three_names_def)
    have d: "distinct (concat (map three_names [0..<3]))" by (simp add: three_names_def dig_def upt3)
    show ?thesis unfolding kv_make_config_def
      using kv_harness.make_config_ok [OF l d, of False "- 1"] by blast
  qed
  then obtain cfg where c: "kv_make_config three_names 3 False (- 1) = Inr cfg" "svc_ok cfg" "sc_n cfg = 3"
    "length (sc_servers cfg) = 3" "None \<notin> set (sc_servers cfg)" by blast
  have s: "0 \<in> servers_of cfg" "1 \<in> servers_of cfg" using c(3) by (simp_all add: servers_of_def)
  have n: "sc_n cfg = 2 * 1 + 1" "length (sc_servers cfg) = sc_n cfg" using c(3,4) by simp_all
  obtain b l p1 p2 cfg' where p: "kv_Leader cfg = Inr (b, l)" "make_partition cfg = Inr (p1, p2)"
    "partition_cfg p1 p2 cfg = Inr cfg'" "length p1 = 1 + 1"
    "\<forall>a\<in>servers_of cfg. \<forall>c\<in>servers_of cfg.
      link cfg' a c \<longleftrightarrow> a \<in> set p1 \<and> c \<in> set p1 \<or> a \<in> set p2 \<and> c \<in> set p2"
    using partition_isolates_leader [OF c(2) n(2) c(5) n(1) zero_less_one] by (elim exE conjE) (rule that)
  show ?thesis using p(1-4) p(5) [rule_format, OF s] c(1) by (intro exI conjI) simp_all
qed

text \<open>What the shardkv harness wires and announces.\<close>

definition reaches :: "shard_net \<Rightarrow> string \<Rightarrow> string \<Rightarrow> bool" where
  "reaches net e s \<longleftrightarrow> link_on net e \<and> connections net e = Some s \<and> s \<in> dom (net_servers net)"

lemma wired_reaches: "wired net E W S \<Longrightarrow> (e, s) \<in> W \<Longrightarrow> s \<in> S \<Longrightarrow> reaches net e s"
  unfolding wired_def reaches_def by blast

lemma group_wired_reaches:
  assumes w: "wired net E (W \<union> (\<Union>gi<3. group_wires (nm gi) (mnm gi) (100 + int gi) n))
      (masters_registered \<union> (\<Union>gi<3. group_servers (100 + int gi) n))"
    and gi: "gi < 3" "i < n" and l: "length (nm gi i) = n" "length (mnm gi i) = 3"
  shows "j < n \<Longrightarrow> reaches net (nm gi i ! j) (servername (100 + int gi) (int j))"
    "j < 3 \<Longrightarrow> reaches net (mnm gi i ! j) (mastername (int j))"
proof -
  have W: "targets (nm gi i) (servername (100 + int gi)) \<union> targets (mnm gi i) mastername \<subseteq>
      W \<union> (\<Union>gi<3. group_wires (nm gi) (mnm gi) (100 + int gi) n)"
    using gi unfolding group_wires_def by blast
  show "reaches net (nm gi i ! j) (servername (100 + int gi) (int j))" if "j < n"
  proof (rule wired_reaches [OF w])
    have "(nm gi i ! j, servername (100 + int gi) (int j)) \<in> targets (nm gi i) (servername (100 + int gi))"
      using that l(1) by (intro targets_nth) simp
    with W show "(nm gi i ! j, servername (100 + int gi) (int j)) \<in>
      W \<union> (\<Union>gi<3. group_wires (nm gi) (mnm gi) (100 + int gi) n)" by blast
  qed (use that gi in \<open>auto simp: group_servers_def\<close>)
  show "reaches net (mnm gi i ! j) (mastername (int j))" if "j < 3"
  proof (rule wired_reaches [OF w])
    have "(mnm gi i ! j, mastername (int j)) \<in> targets (mnm gi i) mastername"
      using that l(2) by (intro targets_nth) simp
    with W show "(mnm gi i ! j, mastername (int j)) \<in>
      W \<union> (\<Union>gi<3. group_wires (nm gi) (mnm gi) (100 + int gi) n)" by blast
  qed (use that in \<open>auto simp: masters_registered_def\<close>)
qed

lemma joinm_registered:
  assumes gs: "map gg_gid (kc_groups cfg) = map (\<lambda>gi. 100 + int gi) [0..<3]" and gis: "set gis \<subseteq> {0..<3}"
    and n: "kc_n cfg = n" and w: "wired (kc_net cfg) E W (S \<union> (\<Union>gi<3. group_servers (100 + int gi) n))"
  shows "\<exists>m. joinm_servers gis cfg = Inr m \<and> dom (map_of m) = (\<lambda>g. 100 + g) ` set gis \<and>
      (\<forall>gid ss. map_of m gid = Some ss \<longrightarrow> ss = map (\<lambda>i. servername gid (int i)) [0..<n] \<and>
        set ss \<subseteq> dom (net_servers (kc_net cfg)))"
proof -
  from joinm_servers_ok [OF gs gis] obtain m where m: "joinm_servers gis cfg = Inr m" "\<And>gid. map_of m gid =
    (if gid - 100 \<in> set gis then Some (map (\<lambda>i. servername gid (int i)) [0..<n]) else None)" using n by blast
  have "x \<in> (\<lambda>g. 100 + g) ` set gis \<longleftrightarrow> x - 100 \<in> set gis" for x by force
  then have "dom (map_of m) = (\<lambda>g. 100 + g) ` set gis" by (auto simp: dom_def m(2))
  moreover have reg: "\<exists>y. net_servers (kc_net cfg) (servername gid (int i)) = Some y"
    if gid: "gid - 100 \<in> set gis" "i < n" for gid i
  proof -
    have k: "nat (gid - 100) < 3" "100 + int (nat (gid - 100)) = gid"
      using gis gid(1) by (auto simp: subset_iff nat_less_iff)
    have "servername gid (int i) \<in> group_servers (100 + int (nat (gid - 100))) n"
      unfolding k(2) group_servers_def using gid(2) by blast
    with k(1) w have "servername gid (int i) \<in> dom (net_servers (kc_net cfg))" unfolding wired_def by blast
    then show ?thesis by (simp add: domIff)
  qed
  have "ss = map (\<lambda>i. servername gid (int i)) [0..<n] \<and> set ss \<subseteq> dom (net_servers (kc_net cfg))"
    if "map_of m gid = Some ss" for gid ss
    using that reg unfolding m(2) by (cases "gid - 100 \<in> set gis") (auto simp: image_subset_iff)
  ultimately show ?thesis using m(1) by (intro exI [of _ m]) blast
qed

text \<open>C40: the harness of the sharded key/value service is wired as its tests assume, for group
  sizes up to three: every server has enabled end points to the registered servers of its group
  and to the registered masters, \<open>joinm\<close> announces exactly the servers of the given groups under
  their group identifiers, all of them registered, and a client can be made exactly when the groups
  have three servers (with fewer the client's slice of names is too short and its creation
  panics). With groups of more than three servers the construction itself panics, because
  \<open>mendnames\<close> has one slot per master and not one per server.\<close>

theorem shardkv_harness:
  assumes d: "distinct (all_names mst cl nm mnm n)" and len: "names_lengths mst cl nm mnm n"
  shows "(3 < n \<longrightarrow> skv_make_config mst cl nm mnm n unr mrs = Inl IndexOutOfRange) \<and>
    (n \<le> 3 \<longrightarrow> (\<exists>cfg. skv_make_config mst cl nm mnm n unr mrs = Inr cfg \<and>
      (\<forall>gi<3. \<forall>i<n. (\<forall>j<n. reaches (kc_net cfg) (nm gi i ! j) (servername (100 + int gi) (int j))) \<and>
        (\<forall>j<3. reaches (kc_net cfg) (mnm gi i ! j) (mastername (int j)))) \<and>
      (\<forall>gis. set gis \<subseteq> {0..<3} \<longrightarrow> (\<exists>m. joinm_servers gis cfg = Inr m \<and>
        dom (map_of m) = (\<lambda>g. 100 + g) ` set gis \<and>
        (\<forall>gid ss. map_of m gid = Some ss \<longrightarrow> ss = map (\<lambda>i. servername gid (int i)) [0..<n] \<and>
          set ss \<subseteq> dom (net_servers (kc_net cfg))))) \<and>
      (\<forall>names ck. distinct names \<longrightarrow> length names = 3 \<longrightarrow> (\<forall>e\<in>set names. \<not> net_ends (kc_net cfg) e) \<longrightarrow>
        (if n = 3 then \<exists>cfg'. skv_makeClient names ck cfg = Inr (names, cfg')
         else skv_makeClient names ck cfg = Inl IndexOutOfRange))))"
proof (intro conjI impI)
  assume "3 < n"
  then show "skv_make_config mst cl nm mnm n unr mrs = Inl IndexOutOfRange" by (rule make_config_panics [OF d len])
next
  assume n: "n \<le> 3"
  let ?W = "base_wires mst cl \<union> (\<Union>gi<3. group_wires (nm gi) (mnm gi) (100 + int gi) n)"
  let ?S = "masters_registered \<union> (\<Union>gi<3. group_servers (100 + int gi) n)"
  obtain cfg E where c: "skv_make_config mst cl nm mnm n unr mrs = Inr cfg" "kc_n cfg = n" "kc_nmasters cfg = 3"
    and gs: "map gg_gid (kc_groups cfg) = map (\<lambda>gi. 100 + int gi) [0..<3]" and w: "wired (kc_net cfg) E ?W ?S"
    using make_config_wired [OF d len n, of unr mrs] by (elim exE conjE) (rule that)
  have l: "length (nm gi i) = n" "length (mnm gi i) = 3" if "gi < 3" "i < n" for gi i
    using len that unfolding names_lengths_def list_all_iff by auto
  have g: "reaches (kc_net cfg) (nm gi i ! j) (servername (100 + int gi) (int j))" if "gi < 3" "i < n" "j < n" for gi i j
    using group_wired_reaches(1) [OF w that(1,2) l [OF that(1,2)] that(3)] .
  have m: "reaches (kc_net cfg) (mnm gi i ! j) (mastername (int j))" if "gi < 3" "i < n" "j < 3" for gi i j
    using group_wired_reaches(2) [OF w that(1,2) l [OF that(1,2)] that(3)] .
  note join = joinm_registered [OF gs _ c(2) w]
  have client: "if n = 3 then \<exists>cfg'. skv_makeClient names ck cfg = Inr (names, cfg')
         else skv_makeClient names ck cfg = Inl IndexOutOfRange"
    if "distinct names" "length names = 3" "\<forall>e\<in>set names. \<not> net_ends (kc_net cfg) e" for names ck
    using makeClient_result [of names cfg ck] that n c by auto
  show "\<exists>cfg. skv_make_config mst cl nm mnm n unr mrs = Inr cfg \<and>
      (\<forall>gi<3. \<forall>i<n. (\<forall>j<n. reaches (kc_net cfg) (nm gi i ! j) (servername (100 + int gi) (int j))) \<and>
        (\<forall>j<3. reaches (kc_net cfg) (mnm gi i ! j) (mastername (int j)))) \<and>
      (\<forall>gis. set gis \<subseteq> {0..<3} \<longrightarrow> (\<exists>m. joinm_servers gis cfg = Inr m \<and>
        dom (map_of m) = (\<lambda>g. 100 + g) ` set gis \<and>
        (\<forall>gid ss. map_of m gid = Some ss \<longrightarrow> ss = map (\<lambda>i. servername gid (int i)) [0..<n] \<and>
          set ss \<subseteq> dom (net_servers (kc_net cfg))))) \<and>
      (\<forall>names ck. distinct names \<longrightarrow> length names = 3 \<longrightarrow> (\<forall>e\<in>set names. \<not> net_ends (kc_net cfg) e) \<longrightarrow>
        (if n = 3 then \<exists>cfg'. skv_makeClient names ck cfg = Inr (names, cfg')
         else skv_makeClient names ck cfg = Inl IndexOutOfRange))"
    by (intro exI [of _ cfg] conjI allI impI c(1) g m join client)
qed

definition demo_mst :: "nat \<Rightarrow> string list" where
  "demo_mst i = map (\<lambda>j. [CHR ''m'', dig i, dig j]) [0..<3]"

definition demo_cl :: "string list" where
  "demo_cl = map (\<lambda>j. [CHR ''c'', dig j]) [0..<3]"

definition demo_nm :: "nat \<Rightarrow> nat \<Rightarrow> string list" where
  "demo_nm gi i = map (\<lambda>j. [CHR ''s'', dig gi, dig i, dig j]) [0..<3]"

definition demo_mnm :: "nat \<Rightarrow> nat \<Rightarrow> string list" where
  "demo_mnm gi i = map (\<lambda>j. [CHR ''t'', dig gi, dig i, dig j]) [0..<3]"

lemmas demo_defs = demo_mst_def demo_cl_def demo_nm_def demo_mnm_def dig_def upt3

theorem shardkv_harness_witness:
  "\<exists>cfg. skv_make_config demo_mst demo_cl demo_nm demo_mnm 3 False 0 = Inr cfg \<and>
     reaches (kc_net cfg) ''s012'' (servername 100 2) \<and> reaches (kc_net cfg) ''t121'' (mastername 1)"
proof -
  have h: "distinct (all_names demo_mst demo_cl demo_nm demo_mnm 3)"
    by (simp add: all_names_def group_names_def demo_defs)
  have l: "names_lengths demo_mst demo_cl demo_nm demo_mnm 3"
    by (simp add: names_lengths_def demo_defs)
  obtain cfg where c: "skv_make_config demo_mst demo_cl demo_nm demo_mnm 3 False 0 = Inr cfg"
    "\<forall>gi<3. \<forall>i<3. (\<forall>j<3. reaches (kc_net cfg) (demo_nm gi i ! j) (servername (100 + int gi) (int j))) \<and>
        (\<forall>j<3. reaches (kc_net cfg) (demo_mnm gi i ! j) (mastername (int j)))"
    using shardkv_harness [OF h l, of False 0] by auto
  have "demo_nm 0 1 ! 2 = ''s012''" "demo_mnm 1 2 ! 1 = ''t121''" by (simp_all add: demo_defs)
  moreover have "reaches (kc_net cfg) (demo_nm 0 1 ! 2) (servername (100 + int 0) (int 2))"
    "reaches (kc_net cfg) (demo_mnm 1 2 ! 1) (mastername (int 1))"
    by (rule conjunct1 [OF c(2) [rule_format], rule_format] conjunct2 [OF c(2) [rule_format], rule_format]; simp)+
  ultimately show ?thesis using c(1) by simp
qed

end
