(* ===== verification/Package_Helpers.thy ===== *)
theory Package_Helpers
  imports Socket_Services Service_Correct MR_Apps
begin

text \<open>
  Helper functions of which the packages have copies of their own: \<open>call\<close> over a Unix socket, random
  numbers, the shard of a key, the flags of a server, shuffled end points and debug output; and the
  counting program of \<^verbatim>\<open>src/testGo/test.go\<close>. The clerks and servers of the other theories take these
  functions as the library has them; here each copy is shown to do what they assume of it.
\<close>

section \<open>Calls over a socket\<close>

text \<open>\<open>rpc.Dial\<close> and \<open>Client.Call\<close> are arguments: the error of the first, or \<^const>\<open>None\<close>; the reply of the
  second, or the text of its error. A call returns the reply, or \<^const>\<open>None\<close> when the code returns false,
  and what it prints.\<close>

datatype inner_error = ENOENT | ECONNREFUSED | OtherErr string

text \<open>A \<open>net.OpError\<close> has a text and an error inside.\<close>

datatype dial_error = OpError string inner_error | OtherDialError string

type_synonym 'w dialer = "string \<Rightarrow> 'w \<Rightarrow> dial_error option"

type_synonym ('a, 'r, 'w) rpc_client = "string \<Rightarrow> string \<Rightarrow> 'a \<Rightarrow> 'w \<Rightarrow> (string + 'r) \<times> 'w"

type_synonym ('a, 'r, 'w) caller =
  "'w dialer \<Rightarrow> ('a, 'r, 'w) rpc_client \<Rightarrow> string \<Rightarrow> string \<Rightarrow> 'a \<Rightarrow> 'w \<Rightarrow> 'r option \<times> string list \<times> 'w"

definition mr_call :: "('a, 'r, 'w) caller" where
  "mr_call dial rpc srv rpcname args w =
     (case dial srv w of
        Some errx \<Rightarrow> (None, [], w)
      | None \<Rightarrow> (case rpc srv rpcname args w of
          (Inr reply, w) \<Rightarrow> (Some reply, [], w)
        | (Inl err, w) \<Rightarrow> (None, [err], w)))"

definition vs_call :: "('a, 'r, 'w) caller" where
  "vs_call dial rpc srv rpcname args w =
     (case dial srv w of
        Some errx \<Rightarrow> (None, [], w)
      | None \<Rightarrow> (case rpc srv rpcname args w of
          (Inr reply, w) \<Rightarrow> (Some reply, [], w)
        | (Inl err, w) \<Rightarrow> (None, [err], w)))"

definition pb_call :: "('a, 'r, 'w) caller" where
  "pb_call dial rpc srv rpcname args w =
     (case dial srv w of
        Some errx \<Rightarrow> (None, [], w)
      | None \<Rightarrow> (case rpc srv rpcname args w of
          (Inr reply, w) \<Rightarrow> (Some reply, [], w)
        | (Inl err, w) \<Rightarrow> (None, [err], w)))"

definition kvp_call :: "('a, 'r, 'w) caller" where
  "kvp_call dial rpc srv rpcname args w =
     (case dial srv w of
        Some errx \<Rightarrow> (None, [], w)
      | None \<Rightarrow> (case rpc srv rpcname args w of
          (Inr reply, w) \<Rightarrow> (Some reply, [], w)
        | (Inl err, w) \<Rightarrow> (None, [err], w)))"

definition psm_call :: "('a, 'r, 'w) caller" where
  "psm_call dial rpc srv rpcname args w =
     (case dial srv w of
        Some errx \<Rightarrow> (None, [], w)
      | None \<Rightarrow> (case rpc srv rpcname args w of
          (Inr reply, w) \<Rightarrow> (Some reply, [], w)
        | (Inl err, w) \<Rightarrow> (None, [err], w)))"

definition psk_call :: "('a, 'r, 'w) caller" where
  "psk_call dial rpc srv rpcname args w =
     (case dial srv w of
        Some errx \<Rightarrow> (None, [], w)
      | None \<Rightarrow> (case rpc srv rpcname args w of
          (Inr reply, w) \<Rightarrow> (Some reply, [], w)
        | (Inl err, w) \<Rightarrow> (None, [err], w)))"

definition dkv_call :: "('a, 'r, 'w) caller" where
  "dkv_call dial rpc srv rpcname args w =
     (case dial srv w of
        Some errx \<Rightarrow> (None, [], w)
      | None \<Rightarrow> (case rpc srv rpcname args w of
          (Inr reply, w) \<Rightarrow> (Some reply, [], w)
        | (Inl err, w) \<Rightarrow> (None, [err], w)))"

text \<open>The copy of the Paxos library also reports a failed dial, unless the socket is missing or refuses the
  connection. It asserts that the error is a \<open>net.OpError\<close>, and panics when it is not.\<close>

definition px_call ::
  "'w dialer \<Rightarrow> ('a, 'r, 'w) rpc_client \<Rightarrow> string \<Rightarrow> string \<Rightarrow> 'a \<Rightarrow> 'w \<Rightarrow> ('r option \<times> string list \<times> 'w) go" where
  "px_call dial rpc srv name args w =
     (case dial srv w of
        Some (OtherDialError e) \<Rightarrow> Inl TypeAssertion
      | Some (OpError err1 cause) \<Rightarrow>
          Inr (None, if cause \<noteq> ENOENT \<and> cause \<noteq> ECONNREFUSED then [''paxos Dial() failed: '' @ err1] else [], w)
      | None \<Rightarrow> (case rpc srv name args w of
          (Inr reply, w) \<Rightarrow> Inr (Some reply, [], w)
        | (Inl err, w) \<Rightarrow> Inr (None, [err], w)))"

text \<open>The interface: a function that does what the clerks' \<open>call\<close> does, and prints the error of a call that
  was made and failed.\<close>

definition dialed :: "'w dialer \<Rightarrow> string \<Rightarrow> 'w \<Rightarrow> bool" where
  "dialed dial srv w \<longleftrightarrow> dial srv w = None"

definition replied :: "('a, 'r, 'w) rpc_client \<Rightarrow> string \<Rightarrow> string \<Rightarrow> 'a \<Rightarrow> 'w \<Rightarrow> 'r option \<times> 'w" where
  "replied rpc srv m a w = (case rpc srv m a w of (Inl e, w) \<Rightarrow> (None, w) | (Inr r, w) \<Rightarrow> (Some r, w))"

locale socket_call =
  fixes c :: "('a, 'r, 'w) caller"
  assumes result: "(fst (c dial rpc srv m a w), snd (snd (c dial rpc srv m a w))) = call (dialed dial) (replied rpc) srv m a w"
    and prints: "fst (snd (c dial rpc srv m a w)) =
      (if dialed dial srv w then (case fst (rpc srv m a w) of Inl e \<Rightarrow> [e] | Inr r \<Rightarrow> []) else [])"
begin

lemma reply_only_if_served:
  assumes "c dial rpc srv m a w = (Some r, out, w')"
  shows "dial srv w = None \<and> rpc srv m a w = (Inr r, w') \<and> out = []"
  using result [of dial rpc srv m a w] prints [of dial rpc srv m a w] assms
  by (cases "rpc srv m a w") (auto simp: Rpc_Client.call_def dialed_def replied_def split: if_splits sum.splits)

text \<open>A clerk that loops over servers with this function behaves as with the library's \<open>call\<close>.\<close>

lemma as_call: "(\<lambda>srv m a w. case c dial rpc srv m a w of (r, out, w') \<Rightarrow> (r, w')) = call (dialed dial) (replied rpc)"
proof (intro ext)
  fix srv m a w
  show "(case c dial rpc srv m a w of (r, out, w') \<Rightarrow> (r, w')) = call (dialed dial) (replied rpc) srv m a w"
    using result [of dial rpc srv m a w] by (cases "c dial rpc srv m a w") simp
qed

end

lemma socket_callI:
  assumes "\<And>dial rpc srv m a w. c dial rpc srv m a w = (case dial srv w of Some e \<Rightarrow> (None, [], w)
    | None \<Rightarrow> (case rpc srv m a w of (Inr r, w) \<Rightarrow> (Some r, [], w) | (Inl e, w) \<Rightarrow> (None, [e], w)))"
  shows "socket_call c"
  by unfold_locales
    (auto simp: assms Rpc_Client.call_def dialed_def replied_def split: option.splits prod.splits sum.splits)

interpretation mr_call: socket_call mr_call
  by (rule socket_callI) (simp add: mr_call_def)

interpretation vs_call: socket_call vs_call
  by (rule socket_callI) (simp add: vs_call_def)

interpretation pb_call: socket_call pb_call
  by (rule socket_callI) (simp add: pb_call_def)

interpretation kvp_call: socket_call kvp_call
  by (rule socket_callI) (simp add: kvp_call_def)

interpretation psm_call: socket_call psm_call
  by (rule socket_callI) (simp add: psm_call_def)

interpretation psk_call: socket_call psk_call
  by (rule socket_callI) (simp add: psk_call_def)

interpretation dkv_call: socket_call dkv_call
  by (rule socket_callI) (simp add: dkv_call_def)

text \<open>The Paxos copy panics exactly when the dial fails with another kind of error, and otherwise returns
  what the others return.\<close>

lemma px_call_result:
  "px_call dial rpc srv m a w = Inl TypeAssertion \<longleftrightarrow> (\<exists>e. dial srv w = Some (OtherDialError e))"
  "px_call dial rpc srv m a w = Inr (r, out, w') \<Longrightarrow> (r, w') = call (dialed dial) (replied rpc) srv m a w"
  by (auto simp: px_call_def Rpc_Client.call_def dialed_def replied_def
      split: option.splits dial_error.splits prod.splits sum.splits)

lemma psk_clerk_over_sockets:
  assumes "\<And>srv args u cfg u'. call (dialed dial) (replied rpc) srv ''ShardMaster.Query'' args u = (Some cfg, u') \<Longrightarrow>
      \<exists>sm. cfg = snd (psm_Query args sm)"
  shows "\<exists>cfg w'. psk_Get c (paxos_Query (\<lambda>srv m a w. case psm_call dial rpc srv m a w of (r, out, w') \<Rightarrow> (r, w'))
    sleep masters k (- 1)) sleep key n zero_config w = Inr (None, cfg, w')"
  unfolding psm_call.as_call using assms by (rule psk_Get_never_returns)

section \<open>Random numbers\<close>

text \<open>\<open>rand.Int\<close> returns a number below its bound, as a big integer; \<open>Int64\<close> takes its low 64 bits.\<close>

definition Int64 :: "int \<Rightarrow> int" where
  "Int64 x = sint (word_of_int x :: 64 word)"

definition kv_nrand :: "(int \<Rightarrow> int) \<Rightarrow> int" where
  "kv_nrand rand_Int = (let max = sint (push_bit 62 (1 :: 64 word)); bigx = rand_Int max; x = Int64 bigx in x)"

definition kvp_nrand :: "(int \<Rightarrow> int) \<Rightarrow> int" where
  "kvp_nrand rand_Int = (let max = sint (push_bit 62 (1 :: 64 word)); bigx = rand_Int max; x = Int64 bigx in x)"

definition pb_nrand :: "(int \<Rightarrow> int) \<Rightarrow> int" where
  "pb_nrand rand_Int = (let max = sint (push_bit 62 (1 :: 64 word)); bigx = rand_Int max; x = Int64 bigx in x)"

definition psk_nrand :: "(int \<Rightarrow> int) \<Rightarrow> int" where
  "psk_nrand rand_Int = (let max = sint (push_bit 62 (1 :: 64 word)); bigx = rand_Int max; x = Int64 bigx in x)"

definition dkv_nrand :: "(int \<Rightarrow> int) \<Rightarrow> int" where
  "dkv_nrand rand_Int = (let max = sint (push_bit 62 (1 :: 64 word)); bigx = rand_Int max; x = Int64 bigx in x)"

definition skv_nrand :: "(int \<Rightarrow> int) \<Rightarrow> int" where
  "skv_nrand rand_Int = (let max = sint (push_bit 62 (1 :: 64 word)); bigx = rand_Int max; x = Int64 bigx in x)"

definition sm_nrand :: "(int \<Rightarrow> int) \<Rightarrow> int" where
  "sm_nrand rand_Int = (let max = sint (push_bit 62 (1 :: 64 word)); bigx = rand_Int max; x = Int64 bigx in x)"

lemmas nrand_defs = kv_nrand_def kvp_nrand_def pb_nrand_def psk_nrand_def dkv_nrand_def skv_nrand_def sm_nrand_def

lemma max_nrand: "sint (push_bit 62 (1 :: 64 word)) = 2 ^ 62"
  by code_simp

lemma Int64_small: "0 \<le> x \<Longrightarrow> x < 2 ^ 62 \<Longrightarrow> Int64 x = x"
  by (simp add: Int64_def sint_sbintrunc' signed_take_bit_int_eq_self)

text \<open>No bit is lost: the numbers are those that \<open>rand.Int\<close> drew, from 0 to \<open>2 ^ 62 - 1\<close>.\<close>

lemma nrand_range:
  assumes "\<And>m. 0 < m \<Longrightarrow> 0 \<le> rand_Int m \<and> rand_Int m < m"
  shows "\<forall>x \<in> {kv_nrand rand_Int, kvp_nrand rand_Int, pb_nrand rand_Int, psk_nrand rand_Int, dkv_nrand rand_Int,
    skv_nrand rand_Int, sm_nrand rand_Int}. x = rand_Int (2 ^ 62) \<and> 0 \<le> x \<and> x < 2 ^ 62"
  using assms [of "2 ^ 62"] by (simp add: nrand_defs max_nrand Int64_small)

section \<open>Shards, flags and shuffles\<close>

definition psk_key2shard :: "string \<Rightarrow> int" where
  "psk_key2shard key =
     (let shard = 0; shard = (if 0 < length key then of_char (key ! 0) else shard)
      in shard mod NShards)"

definition dkv_key2shard :: "string \<Rightarrow> int" where
  "dkv_key2shard key =
     (let shard = 0; shard = (if 0 < length key then of_char (key ! 0) else shard)
      in shard mod NShards)"

text \<open>All clerks and servers agree on the shard of a key, and it is one of the ten.\<close>

lemma key2shard_agree:
  "psk_key2shard key = key2shard key" "dkv_key2shard key = key2shard key" "0 \<le> key2shard key \<and> key2shard key < NShards"
  by (simp_all add: psk_key2shard_def dkv_key2shard_def key2shard_def NShards_def Let_def)

definition px_isdead :: "Paxos \<Rightarrow> bool" where "px_isdead px \<longleftrightarrow> dead px \<noteq> 0"

definition px_isunreliable :: "Paxos \<Rightarrow> bool" where "px_isunreliable px \<longleftrightarrow> unreliable px \<noteq> 0"

definition pb_isdead :: "PBServer \<Rightarrow> bool" where "pb_isdead pb \<longleftrightarrow> dead pb \<noteq> 0"

definition pb_isunreliable :: "PBServer \<Rightarrow> bool" where "pb_isunreliable pb \<longleftrightarrow> unreliable pb \<noteq> 0"

definition kvp_isdead :: "KVPaxos \<Rightarrow> bool" where "kvp_isdead kv \<longleftrightarrow> dead kv \<noteq> 0"

definition kvp_isunreliable :: "KVPaxos \<Rightarrow> bool" where "kvp_isunreliable kv \<longleftrightarrow> unreliable kv \<noteq> 0"

definition psk_isdead :: "ShardKV \<Rightarrow> bool" where "psk_isdead kv \<longleftrightarrow> dead kv \<noteq> 0"

definition psk_isunreliable :: "ShardKV \<Rightarrow> bool" where "psk_isunreliable kv \<longleftrightarrow> unreliable kv \<noteq> 0"

definition psm_isdead :: "PxShardMaster \<Rightarrow> bool" where "psm_isdead sm \<longleftrightarrow> dead sm \<noteq> 0"

definition psm_isunreliable :: "PxShardMaster \<Rightarrow> bool" where "psm_isunreliable sm \<longleftrightarrow> unreliable sm \<noteq> 0"

definition vs_isdead :: "ViewServer \<Rightarrow> bool" where "vs_isdead vs \<longleftrightarrow> dead vs \<noteq> 0"

lemmas flag_defs = px_isdead_def px_isunreliable_def pb_isdead_def pb_isunreliable_def kvp_isdead_def kvp_isunreliable_def
  psk_isdead_def psk_isunreliable_def psm_isdead_def psm_isunreliable_def vs_isdead_def

text \<open>The accept loops ask the library's flags; each server's own methods give the same answers, and a
  server whose kill function ran is dead for them.\<close>

lemma flags_agree:
  "px_isdead = isdead" "pb_isdead = isdead" "kvp_isdead = isdead" "psk_isdead = isdead" "psm_isdead = isdead" "vs_isdead = isdead"
  "px_isunreliable = isunreliable" "pb_isunreliable = isunreliable" "kvp_isunreliable = isunreliable"
  "psk_isunreliable = isunreliable" "psm_isunreliable = isunreliable"
  by (simp_all add: fun_eq_iff flag_defs isdead_def isunreliable_def)

lemma killed_is_dead: "px_isdead (px_Kill px)" "pb_isdead (pb_kill pb)" "psm_isdead (psm_Kill sm)"
proof -
  show "px_isdead (px_Kill px)" "pb_isdead (pb_kill pb)"
    by (simp_all add: px_isdead_def pb_isdead_def px_Kill_def pb_kill_def close_listener_def Let_def)
  show "psm_isdead (psm_Kill sm)" by (cases sm) (simp add: psm_isdead_def psm_Kill_def close_listener_def)
qed

definition skc_random_handles :: "(nat \<Rightarrow> nat) \<Rightarrow> 'a list \<Rightarrow> 'a list" where
  "skc_random_handles js kvh = (let sa = kvh in fold (\<lambda>i sa. sa[i := sa ! js i, js i := sa ! i]) [0..<length sa] sa)"

lemma skc_random_handles_perm:
  assumes "\<And>i. js i \<le> i"
  shows "mset (skc_random_handles js xs) = mset xs"
proof -
  have "skc_random_handles js xs = random_handles js xs" by (simp add: skc_random_handles_def random_handles_def swap_def [abs_def])
  with random_handles_mset [of js xs] assms show ?thesis by simp
qed

section \<open>Debug output\<close>

text \<open>The packages' \<open>Debug\<close> constants are 0, so that \<open>DPrintf\<close> writes nothing and returns the zero values of its
  results. \<open>printf\<close> is what the log would do.\<close>

definition raft_Debug :: int where "raft_Debug = 0"

definition raft_DPrintf :: "(string \<Rightarrow> 'a list \<Rightarrow> 'w \<Rightarrow> 'w) \<Rightarrow> string \<Rightarrow> 'a list \<Rightarrow> 'w \<Rightarrow> (int \<times> string option) \<times> 'w" where
  "raft_DPrintf printf format a w = ((0, None), if raft_Debug > 0 then printf format a w else w)"

definition kv_Debug :: int where "kv_Debug = 0"

definition kv_DPrintf :: "(string \<Rightarrow> 'a list \<Rightarrow> 'w \<Rightarrow> 'w) \<Rightarrow> string \<Rightarrow> 'a list \<Rightarrow> 'w \<Rightarrow> (int \<times> string option) \<times> 'w" where
  "kv_DPrintf printf format a w = ((0, None), if kv_Debug > 0 then printf format a w else w)"

definition kvp_Debug :: int where "kvp_Debug = 0"

definition kvp_DPrintf :: "(string \<Rightarrow> 'a list \<Rightarrow> 'w \<Rightarrow> 'w) \<Rightarrow> string \<Rightarrow> 'a list \<Rightarrow> 'w \<Rightarrow> (int \<times> string option) \<times> 'w" where
  "kvp_DPrintf printf format a w = ((0, None), if kvp_Debug > 0 then printf format a w else w)"

definition psk_Debug :: int where "psk_Debug = 0"

definition psk_DPrintf :: "(string \<Rightarrow> 'a list \<Rightarrow> 'w \<Rightarrow> 'w) \<Rightarrow> string \<Rightarrow> 'a list \<Rightarrow> 'w \<Rightarrow> (int \<times> string option) \<times> 'w" where
  "psk_DPrintf printf format a w = ((0, None), if psk_Debug > 0 then printf format a w else w)"

definition dkv_Debug :: int where "dkv_Debug = 0"

definition dkv_DPrintf :: "(string \<Rightarrow> 'a list \<Rightarrow> 'w \<Rightarrow> 'w) \<Rightarrow> string \<Rightarrow> 'a list \<Rightarrow> 'w \<Rightarrow> (int \<times> string option) \<times> 'w" where
  "dkv_DPrintf printf format a w = ((0, None), if dkv_Debug > 0 then printf format a w else w)"

definition debugEnabled :: bool where "debugEnabled = False"

text \<open>The MapReduce copy returns what \<open>fmt.Printf\<close> returned.\<close>

definition debug :: "(string \<Rightarrow> 'a list \<Rightarrow> 'w \<Rightarrow> (int \<times> string option) \<times> 'w) \<Rightarrow> string \<Rightarrow> 'a list \<Rightarrow> 'w \<Rightarrow> (int \<times> string option) \<times> 'w" where
  "debug printf format a w = (if debugEnabled then printf format a w else ((0, None), w))"

lemma debug_output_off:
  "raft_DPrintf p f a w = ((0, None), w)" "kv_DPrintf p f a w = ((0, None), w)" "kvp_DPrintf p f a w = ((0, None), w)"
  "psk_DPrintf p f a w = ((0, None), w)" "dkv_DPrintf p f a w = ((0, None), w)" "debug q f a w = ((0, None), w)"
  by (simp_all add: raft_DPrintf_def raft_Debug_def kv_DPrintf_def kv_Debug_def kvp_DPrintf_def kvp_Debug_def
      psk_DPrintf_def psk_Debug_def dkv_DPrintf_def dkv_Debug_def debug_def debugEnabled_def)

section \<open>The counting program\<close>

text \<open>\<open>main\<close> of \<^verbatim>\<open>src/testGo/test.go\<close> counts the characters of a constant and prints the table. The order
  in which Go visits the map is the argument \<open>visit\<close>; a line is what \<open>fmt.Println\<close> prints.\<close>

definition count_runes :: "int list \<Rightarrow> (int \<times> int) list" where
  "count_runes rs = fold (\<lambda>char m. case map_of m char of
     Some v \<Rightarrow> AList.update char (v + 1) m | None \<Rightarrow> AList.update char 1 m) rs []"

definition testGo_main :: "((int \<times> int) list \<Rightarrow> (int \<times> int) list) \<Rightarrow> string list" where
  "testGo_main visit =
     (let str = ''aaaabcde''; m = count_runes (map of_char str)
      in map (\<lambda>(k, v). ''k: '' @ Itoa k @ '' v: '' @ Itoa v) (visit m))"

lemma count_runes_gen:
  "map_of (fold (\<lambda>char m. case map_of m char of Some v \<Rightarrow> AList.update char (v + 1) m | None \<Rightarrow> AList.update char 1 m) rs m) k =
     (if k \<in> set rs then Some (map_zero 0 (map_of m) k + int (count_list rs k)) else map_of m k)"
  by (induction rs arbitrary: m) (auto simp: update_conv' map_zero_def count_list_0_iff split: option.splits)

lemma count_runes_counts: "map_of (count_runes rs) k = (if k \<in> set rs then Some (int (count_list rs k)) else None)"
  using count_runes_gen [of rs "[]" k] by (simp add: count_runes_def)

text \<open>Whatever the order, the program prints one line for each of the five letters.\<close>

lemma testGo_main_output:
  assumes "\<And>m. mset (visit m) = mset m"
  shows "mset (testGo_main visit) = {#''k: 97 v: 4'', ''k: 98 v: 1'', ''k: 99 v: 1'', ''k: 100 v: 1'', ''k: 101 v: 1''#}"
proof -
  have c: "count_runes (map of_char ''aaaabcde'') = [(97, 4), (98, 1), (99, 1), (100, 1), (101, 1)]" by code_simp
  have "mset (testGo_main visit) = image_mset (\<lambda>(k, v). ''k: '' @ Itoa k @ '' v: '' @ Itoa v) (mset (visit (count_runes (map of_char ''aaaabcde''))))"
    by (simp add: testGo_main_def Let_def)
  also have "\<dots> = mset (map (\<lambda>(k, v). ''k: '' @ Itoa k @ '' v: '' @ Itoa v) [(97, 4), (98, 1), (99, 1), (100, 1), (101, 1)])"
    unfolding assms c by simp
  also have "map (\<lambda>(k, v). ''k: '' @ Itoa k @ '' v: '' @ Itoa v) [(97, 4), (98, 1), (99, 1), (100, 1), (101, 1)] =
      [''k: 97 v: 4'', ''k: 98 v: 1'', ''k: 99 v: 1'', ''k: 100 v: 1'', ''k: 101 v: 1'']" by code_simp
  finally show ?thesis by simp
qed

end
