(* ===== verification/Spec2Isabelle.thy ===== *)
theory Spec2Isabelle
  imports Raft_Props Raft_Anomalies Command_Props Net_Props Store_Props Service_Props Package_Helpers
begin

text \<open>
  Verification of the 6.824 laboratory programs (Go): a Raft library, a MapReduce library with two
  applications, a simulated network with the harnesses that test the Raft based services on it,
  and a family of older services that talk over Unix sockets.

  \<^bold>\<open>The program and its parts.\<close> A Raft peer (\<^verbatim>\<open>src/raft/raft.go\<close>) saves its term, vote and log in a
  persister (\<^verbatim>\<open>persister.go\<close>), talks to its peers over \<^verbatim>\<open>src/labrpc/labrpc.go\<close> and is driven by the
  harness \<^verbatim>\<open>src/raft/config.go\<close>. The key/value server, the shardmaster and the sharded key/value
  server (\<^verbatim>\<open>src/kvraft\<close>, \<^verbatim>\<open>src/shardmaster\<close>, \<^verbatim>\<open>src/shardkv\<close>) each hold a peer; their request handlers
  are empty in this repository, their harnesses and clerks are not. \<^verbatim>\<open>src/mapreduce\<close> runs jobs in
  one process or on workers that register with a master; \<^verbatim>\<open>src/main/wc.go\<close> and \<^verbatim>\<open>ii.go\<close> are jobs.
  \<^verbatim>\<open>src/diskv\<close> keeps shards in files; \<^verbatim>\<open>src/lockservice\<close>, \<^verbatim>\<open>paxos\<close>, \<^verbatim>\<open>viewservice\<close>, \<^verbatim>\<open>pbservice\<close>,
  \<^verbatim>\<open>kvpaxos\<close>, \<^verbatim>\<open>paxos-shardkv\<close> and \<^verbatim>\<open>paxos-shardmaster\<close> are the socket services.

  \<^bold>\<open>How Go is modelled.\<close> \<open>Go_Prelude\<close> has the result type \<open>'a go\<close>: a value or the way the code failed
  (index out of range, nil dereference, fatal log, a goroutine blocked for ever), its sequencing
  \<^const>\<open>gbind\<close> and loop \<^const>\<open>gfold\<close>, checked indexing, buffered channels, maps with zero values, and
  the locales for inductive invariants, forward simulations and quorums. State is passed explicitly. Random numbers
  and names, the choices of the network and the contents of the environment are arguments. Go's
  \<open>int\<close> is \<^typ>\<open>int\<close> where no value can come near its bounds; the 32-bit counters and hashes are words.

  \<^bold>\<open>Theories and the code they model.\<close>
  \<^item> \<open>Persister\<close>: \<^verbatim>\<open>raft/persister.go\<close>; the locale \<open>stable_store\<close>, interpreted for state and snapshot.
  \<^item> \<open>Raft\<close>: \<^verbatim>\<open>raft/raft.go\<close>, one function for each method and for each section of a goroutine
    between two blocking points (\<^const>\<open>RequestVote\<close>, \<^const>\<open>AppendEntries\<close>, \<^const>\<open>Start\<close>, \<^const>\<open>Make\<close>, \<^const>\<open>BeCandidate\<close>,
    \<^const>\<open>startElection_reply\<close>, \<^const>\<open>appendLog_send\<close>, \<^const>\<open>appendLog_reply\<close>, \<^const>\<open>updateLastApplied\<close>).
  \<^item> \<open>Raft_System\<close>: a cluster as a step relation whose events are the goroutines' sections, the
    delivery, loss and reordering of messages, client requests, crashes and restarts.
  \<^item> \<open>Raft_Wellformed\<close>, \<open>Raft_Election\<close>, \<open>Raft_Logs\<close>: the inductive invariants of the cluster.
    \<open>Raft_Liveness\<close>: runs that elect a leader.
  \<^item> \<open>Raft_Props\<close>, \<open>Raft_Anomalies\<close>: properties C1 to C12 and C34, and runs in which the code departs
    from the protocol.
  \<^item> \<open>Labrpc\<close>: \<^verbatim>\<open>labrpc/labrpc.go\<close>. \<open>Raft_Net\<close>: the calls between peers (\<^const>\<open>sendRequestVote\<close>,
    \<^const>\<open>sendAppendEntries\<close>) over that network, and that such a call is a delivery of \<open>Raft_System\<close>.
    \<open>Randstring\<close>: the names of end points. \<open>Raft_Config\<close>, \<open>Raft_Agreement\<close>: \<^verbatim>\<open>raft/config.go\<close>.
    \<open>Raft_Networked\<close>: peers registered with the network, whose links are switched and whose servers
    are crashed and restarted at any time (\<^const>\<open>ns_exec\<close>); the locale \<open>simulation\<close> is interpreted to show
    that this system refines \<open>Raft_System\<close>, with crashes and without. \<open>Raft_Harness\<close>: the harness at work on that system
    (\<^const>\<open>driven\<close>); each of its operations is a run of the system.
    \<open>Net_Props\<close>: C23 to C28.
  \<^item> \<open>Service_Config\<close>, \<open>Service_Correct\<close>: \<^verbatim>\<open>kvraft/server.go\<close>, \<^verbatim>\<open>kvraft/config.go\<close>,
    \<^verbatim>\<open>shardmaster/server.go\<close>; the locale \<open>service_harness\<close> is interpreted for both services.
    \<open>Shardmaster_Config\<close>: \<^verbatim>\<open>shardmaster/config.go\<close>, with the random names it draws. \<open>Shardkv_Config\<close>, \<open>Shardkv_Correct\<close>: \<^verbatim>\<open>shardkv/server.go\<close>, \<^verbatim>\<open>shardkv/config.go\<close>.
    \<open>Service_Props\<close>: C39 and C40.
  \<^item> \<open>Go_Strings\<close>: decimal numbers, FNV hash, UTF-8 and the JSON of key/value pairs from Go's
    standard library. \<open>MapReduce\<close>, \<open>MR_Correct\<close>: the tasks and phases of \<^verbatim>\<open>src/mapreduce\<close>.
    \<open>MR_Schedule\<close>, \<open>MR_Rpc\<close>: \<^verbatim>\<open>schedule.go\<close>, \<^verbatim>\<open>worker.go\<close> and \<^verbatim>\<open>master_rpc.go\<close> as step relations;
    \<open>MR_Termination\<close>: a bound on the scheduler's steps. \<open>MR_Distributed\<close>: a distributed job as the
    composition of the registration server, the two phases, the workers on a shared file system,
    \<open>killWorkers\<close>, \<open>stopRPCServer\<close> and \<open>merge\<close>. \<open>MR_Apps\<close>: \<^verbatim>\<open>wc.go\<close>, \<^verbatim>\<open>ii.go\<close>. \<open>MR_Props\<close>: C13 to C17 and C20 to
    C22.
  \<^item> \<open>Base32\<close>, \<open>Diskv\<close>: the files of \<^verbatim>\<open>diskv/server.go\<close> on a disk whose writes a crash may cut; the
    locale \<open>kv_files\<close> is what a client of the files relies on.
  \<^item> \<open>Rpc_Server\<close>: state, start, kill and accept loops of the socket servers, with the locales
    \<open>accept_server\<close> and \<open>counting_server\<close>. \<open>Rpc_Client\<close>, \<open>Lockservice\<close>, \<open>Shard_Clerk\<close>: the call
    function and the retry loops of the clerks, and the lock service. \<open>Socket_Services\<close>: the shardmaster
    on top of Paxos, the view clerk, and operations with empty bodies. \<open>Kv_Skeletons\<close>: the messages,
    handlers, clerks and tick loops of the services whose handlers are empty. \<open>Clerk_Sessions\<close>: clerks
    as objects that keep their configuration over a sequence of operations. \<open>Package_Helpers\<close>: the
    packages' own copies of \<open>call\<close> (locale \<open>socket_call\<close>), \<open>nrand\<close>, \<open>key2shard\<close>, the flags,
    \<open>random_handles\<close> and \<open>DPrintf\<close>, and \<^verbatim>\<open>testGo/test.go\<close>. \<open>Store_Props\<close>: C29 to C33 and C36 to C38.
  \<^item> \<open>Commands\<close>: the \<open>main\<close> functions of \<^verbatim>\<open>src/main\<close>. \<open>Command_Props\<close>: C18, C19 and C35.

  \<^bold>\<open>What the theorems show.\<close> For Raft: what each handler does on every branch; one leader for each
  term, log matching and leader-append-only while servers keep running; entries are applied in
  order and once; votes survive crashes; a leader can be elected from every reachable state; and
  preparing an append request is the only event that can panic. Peers that talk over the simulated
  network only, under a harness that switches links, crashes and restarts servers, stay within the
  cluster model (C25, C28), so these guarantees hold for them. For MapReduce: a job's output is the
  sorted reduction of its input, and a distributed job has the result of the sequential one under
  every interleaving, failure, repetition and delay of worker calls; the scheduler does each task
  once and stops after a bounded number of steps; a worker keeps to its budget and reports its tasks
  up to one. The programs \<open>wc\<close> and \<open>ii\<close> count and index words.
  For the network and the harnesses: a reply comes from the registered server, links follow the
  connections, partitions isolate the leader, the checks look for what they should, and \<open>one\<close> returns
  an index on which enough servers agreed. For the
  stores: reads return what was written, a crash leaves the old or the new value, keys and file
  names correspond; for locks and clerks: a lock is granted once, a reply comes from the responsible group,
  and a clerk returns as soon as the servers answer.

  \<^bold>\<open>Bounds and fuel.\<close> The retry loops of the clerks run for ever when nobody answers; they take a
  number of rounds, and the liveness properties state that the round in which an answer comes is
  enough. Polling loops of the harness take their number of iterations from the source, or, where
  the source looks at the clock, from an argument that lists what happens during each pause. Cluster,
  scheduler and distributed job are step relations without bounds; the runs used in witnesses are finite lists of
  events. Accept loops run over a given list of connections.

  \<^bold>\<open>Not modelled.\<close> Encoding by \<open>gob\<close> (a saved state is the list of encoded values, a message is its
  struct), timers and delays (an event may happen at any time), locks around code that is one section
  of the model, text printed by programs other than the errors of \<open>call\<close> and \<^verbatim>\<open>testGo/test.go\<close>, and the set-up
  of sockets. In \<open>Raft_Networked\<close> the goroutines of a crashed instance end with it: the code cannot stop
  them, but their end points stay disabled and their persister is no longer read. Message types that
  several packages repeat are defined once. \<open>nrand\<close> is not called anywhere.
\<close>

end
